(* ===== verification/Apc_Prelude.thy ===== *)
theory Apc_Prelude imports Main "HOL-Library.Word" "HOL-Library.Monad_Syntax" begin

text \<open>
  The ground the component theories stand on: the C types of the configured platform
  (x86-64 Linux, \<open>php_config.h\<close> in the repository), \<open>size_t\<close> arithmetic with its
  wrap-around written out, the failure monad, and generic lemmas on lists and on
  updates of a store.

  Conventions. \<open>zend_long\<close>, \<open>zend_ulong\<close> and \<open>time_t\<close> are 64-bit words; a signed
  comparison reads them with \<open>sint\<close>. A \<open>size_t\<close> that takes part in address
  arithmetic is a natural number, and every operation of the source that could leave the
  64-bit range goes through \<open>sz_add\<close>, \<open>sz_sub\<close> or \<open>sz_mul\<close>. A function of the source
  that can abort, deadlock, follow a null pointer or run forever returns an option, with
  \<open>None\<close> for each of these.
\<close>

section \<open>Machine types\<close>

type_synonym i64 = "64 word"
type_synonym u64 = "64 word"

text \<open>Signed order on words, as C compares \<open>zend_long\<close> and \<open>time_t\<close>.\<close>

definition i64_less :: "i64 \<Rightarrow> i64 \<Rightarrow> bool" where
  "i64_less a b \<longleftrightarrow> sint a < sint b"

named_theorems sz_simps \<open>size_t arithmetic that does not leave its range\<close>
named_theorems frame_simps \<open>what an operation does not change\<close>
named_theorems inv_intros \<open>preservation of invariants\<close>

definition SIZE_LIMIT :: nat where
  "SIZE_LIMIT = 18446744073709551616"

definition SIZE_MAX :: nat where
  "SIZE_MAX = 18446744073709551615"

lemma SIZE_LIMIT_pos [simp]: "0 < SIZE_LIMIT"
  by (simp add: SIZE_LIMIT_def)

lemma SIZE_LIMIT_power: "SIZE_LIMIT = 2 ^ 64"
  by (simp add: SIZE_LIMIT_def)

lemma SIZE_MAX_less [simp]: "SIZE_MAX < SIZE_LIMIT"
  by (simp add: SIZE_MAX_def SIZE_LIMIT_def)

definition sz_add :: "nat \<Rightarrow> nat \<Rightarrow> nat" where
  "sz_add a b = (a + b) mod SIZE_LIMIT"

definition sz_sub :: "nat \<Rightarrow> nat \<Rightarrow> nat" where
  "sz_sub a b = (a + (SIZE_LIMIT - b mod SIZE_LIMIT)) mod SIZE_LIMIT"

definition sz_mul :: "nat \<Rightarrow> nat \<Rightarrow> nat" where
  "sz_mul a b = (a * b) mod SIZE_LIMIT"

lemma sz_add_exact [sz_simps]: "a + b < SIZE_LIMIT \<Longrightarrow> sz_add a b = a + b"
  by (simp add: sz_add_def)

lemma sz_mul_exact [sz_simps]: "a * b < SIZE_LIMIT \<Longrightarrow> sz_mul a b = a * b"
  by (simp add: sz_mul_def)

lemma sz_sub_exact [sz_simps]:
  assumes "b \<le> a" "a < SIZE_LIMIT"
  shows "sz_sub a b = a - b"
proof -
  from assms have b: "b mod SIZE_LIMIT = b" by simp
  have "a + (SIZE_LIMIT - b) = (a - b) + SIZE_LIMIT" using assms by simp
  then have "sz_sub a b = ((a - b) + SIZE_LIMIT) mod SIZE_LIMIT" by (simp only: sz_sub_def b)
  also have "\<dots> = (a - b) mod SIZE_LIMIT" by (rule mod_add_self2)
  also have "\<dots> = a - b" using assms by (intro mod_less) simp
  finally show ?thesis .
qed

lemma sz_add_less [simp]: "sz_add a b < SIZE_LIMIT"
  by (simp add: sz_add_def)

lemma sz_sub_less [simp]: "sz_sub a b < SIZE_LIMIT"
  by (simp add: sz_sub_def)

lemma sz_mul_less [simp]: "sz_mul a b < SIZE_LIMIT"
  by (simp add: sz_mul_def)

text \<open>Subtracting what was added gives the value back, whatever wrapped on the way.\<close>

lemma sz_sub_add [simp]:
  assumes "a < SIZE_LIMIT"
  shows "sz_sub (sz_add a b) b = a"
proof -
  let ?c = "b mod SIZE_LIMIT"
  have "sz_sub (sz_add a b) b = ((a + ?c) mod SIZE_LIMIT + (SIZE_LIMIT - ?c)) mod SIZE_LIMIT"
    by (simp add: sz_sub_def sz_add_def mod_add_right_eq)
  also have "\<dots> = (a + (?c + (SIZE_LIMIT - ?c))) mod SIZE_LIMIT"
    by (simp only: mod_add_left_eq add.assoc)
  also have "?c + (SIZE_LIMIT - ?c) = SIZE_LIMIT"
    using mod_less_divisor [OF SIZE_LIMIT_pos, of b] by linarith
  finally show ?thesis using assms by simp
qed

section \<open>Failure\<close>

text \<open>\<open>assert(e)\<close>: the process aborts when \<open>e\<close> is false.\<close>

definition assert_c :: "bool \<Rightarrow> unit option" where
  "assert_c b = (if b then Some () else None)"

lemma assert_c_True [simp]: "assert_c True = Some ()"
  by (simp add: assert_c_def)

lemma assert_c_False [simp]: "assert_c False = None"
  by (simp add: assert_c_def)

lemma assert_c_eq_Some [simp]: "assert_c b = Some u \<longleftrightarrow> b"
  by (simp add: assert_c_def)

section \<open>Lists and stores\<close>

lemma nth_append_singleton [simp]: "(xs @ [x]) ! length xs = x"
  by simp

lemma sum_list_list_update:
  fixes xs :: "nat list"
  shows "i < length xs \<Longrightarrow> sum_list (xs[i := y]) + xs ! i = sum_list xs + y"
  by (induction xs arbitrary: i) (auto split: nat.splits)

lemma find_Some_split:
  "find P xs = Some x \<Longrightarrow> \<exists>us vs. xs = us @ x # vs \<and> P x \<and> (\<forall>y \<in> set us. \<not> P y)"
proof (induction xs)
  case (Cons a xs)
  show ?case
  proof (cases "P a")
    case True
    with Cons.prems have "a # xs = [] @ x # xs \<and> P x" by simp
    then show ?thesis by fastforce
  next
    case False
    with Cons obtain us vs where "xs = us @ x # vs" "P x" "\<forall>y \<in> set us. \<not> P y" by auto
    with False have "a # xs = (a # us) @ x # vs \<and> P x \<and> (\<forall>y \<in> set (a # us). \<not> P y)" by simp
    then show ?thesis by blast
  qed
qed simp

end
