(* ===== verification/Apc_Stack.thy ===== *)
theory Apc_Stack imports Apc_Prelude begin

text \<open>
  \<open>apc_stack.c\<close>: the growable array of pointers that an iterator fills with the items of
  one chunk. \<open>st_data\<close> is the allocated block, a list of \<open>st_capacity\<close> cells whose cells from
  \<open>st_size\<close> on hold whatever was there; a cell never written is \<open>None\<close>. Out-of-range accesses
  of the block are failures, so a result \<open>Some\<close> also says that the access was in bounds.
\<close>

record 'a apc_stack_t =
  st_data :: "'a option list"
  st_capacity :: nat
  st_size :: nat

text \<open>
  \<open>emalloc\<close> returns an uninitialised block of the asked number of cells; \<open>erealloc\<close> keeps the
  old cells and appends uninitialised ones. Both abort the request instead of returning null.
\<close>

definition apc_stack_create :: "nat \<Rightarrow> 'a apc_stack_t" where
  "apc_stack_create size_hint =
     (let capacity = (if size_hint > 0 then size_hint else 10)
      in \<lparr>st_data = replicate capacity None, st_capacity = capacity, st_size = 0\<rparr>)"

definition apc_stack_clear :: "'a apc_stack_t \<Rightarrow> 'a apc_stack_t" where
  "apc_stack_clear stack = stack\<lparr>st_size := 0\<rparr>"

definition apc_stack_push :: "'a apc_stack_t \<Rightarrow> 'a \<Rightarrow> 'a apc_stack_t option" where
  "apc_stack_push stack item = do {
     let stack1 =
       (if st_size stack = st_capacity stack
        then stack\<lparr>st_capacity := st_capacity stack * 2,
                   st_data := st_data stack @ replicate (st_capacity stack * 2 - length (st_data stack)) None\<rparr>
        else stack);
     if st_size stack1 < length (st_data stack1)
     then Some (stack1\<lparr>st_data := (st_data stack1)[st_size stack1 := Some item],
                       st_size := st_size stack1 + 1\<rparr>)
     else None
   }"

text \<open>A cell read: in bounds and written before.\<close>

definition st_read :: "'a apc_stack_t \<Rightarrow> nat \<Rightarrow> 'a option" where
  "st_read stack n = (if n < length (st_data stack) then st_data stack ! n else None)"

definition apc_stack_pop :: "'a apc_stack_t \<Rightarrow> ('a \<times> 'a apc_stack_t) option" where
  "apc_stack_pop stack = do {
     assert_c (st_size stack > 0);
     let stack1 = stack\<lparr>st_size := st_size stack - 1\<rparr>;
     item \<leftarrow> st_read stack1 (st_size stack1);
     Some (item, stack1)
   }"

definition apc_stack_top :: "'a apc_stack_t \<Rightarrow> 'a option" where
  "apc_stack_top stack = do {
     assert_c (st_size stack > 0);
     st_read stack (st_size stack - 1)
   }"

definition apc_stack_get :: "'a apc_stack_t \<Rightarrow> nat \<Rightarrow> 'a option" where
  "apc_stack_get stack n = do {
     assert_c (st_size stack > n);
     st_read stack n
   }"

text \<open>Both blocks go back to the request's heap; of a destroyed stack no cell is left to read or write.\<close>

definition apc_stack_destroy :: "'a apc_stack_t \<Rightarrow> 'a apc_stack_t" where
  "apc_stack_destroy stack = stack\<lparr>st_data := [], st_capacity := 0, st_size := 0\<rparr>"

lemma destroyed_stack:
  "apc_stack_push (apc_stack_destroy stack) item = None" "apc_stack_pop (apc_stack_destroy stack) = None"
  "apc_stack_top (apc_stack_destroy stack) = None" "apc_stack_get (apc_stack_destroy stack) n = None"
  by (simp_all add: apc_stack_destroy_def apc_stack_push_def apc_stack_pop_def apc_stack_top_def apc_stack_get_def)

text \<open>
  \<open>apc_stack_size\<close> returns the \<open>size_t\<close> field as an \<open>int\<close>: the value is truncated to 32 bits.
\<close>

definition apc_stack_size :: "'a apc_stack_t \<Rightarrow> int" where
  "apc_stack_size stack = sint (of_nat (st_size stack) :: 32 word)"

section \<open>The stack as a list\<close>

text \<open>
  The invariant: the block has the recorded capacity, the used part fits in it and every used
  cell has been written. The abstraction is the list of the used cells, bottom first.
\<close>

definition st_inv :: "'a apc_stack_t \<Rightarrow> bool" where
  "st_inv stack \<longleftrightarrow>
     length (st_data stack) = st_capacity stack \<and> 0 < st_capacity stack \<and>
     st_size stack \<le> st_capacity stack \<and>
     (\<forall>i < st_size stack. st_data stack ! i \<noteq> None)"

definition st_list :: "'a apc_stack_t \<Rightarrow> 'a list" where
  "st_list stack = map the (take (st_size stack) (st_data stack))"

text \<open>What a client of the stack relies on.\<close>

locale item_stack =
  fixes create :: "nat \<Rightarrow> 's"
    and push :: "'s \<Rightarrow> 'a \<Rightarrow> 's option"
    and pop :: "'s \<Rightarrow> ('a \<times> 's) option"
    and get :: "'s \<Rightarrow> nat \<Rightarrow> 'a option"
    and items :: "'s \<Rightarrow> 'a list"
    and invar :: "'s \<Rightarrow> bool"
  assumes invar_create: "invar (create n)"
    and items_create: "items (create n) = []"
    and push_ok: "invar s \<Longrightarrow> \<exists>s'. push s x = Some s' \<and> invar s' \<and> items s' = items s @ [x]"
    and pop_ok: "invar s \<Longrightarrow> items s \<noteq> [] \<Longrightarrow>
      \<exists>s'. pop s = Some (last (items s), s') \<and> invar s' \<and> items s' = butlast (items s)"
    and pop_empty: "invar s \<Longrightarrow> items s = [] \<Longrightarrow> pop s = None"
    and get_ok: "invar s \<Longrightarrow> get s n = (if n < length (items s) then Some (items s ! n) else None)"
begin

primrec push_all :: "'s \<Rightarrow> 'a list \<Rightarrow> 's option" where
  "push_all s [] = Some s"
| "push_all s (x # xs) = Option.bind (push s x) (\<lambda>s'. push_all s' xs)"

lemma push_all_ok:
  "invar s \<Longrightarrow> \<exists>s'. push_all s xs = Some s' \<and> invar s' \<and> items s' = items s @ xs"
proof (induction xs arbitrary: s)
  case Nil
  then show ?case by simp
next
  case (Cons x xs)
  obtain s1 where s1: "push s x = Some s1" "invar s1" "items s1 = items s @ [x]"
    using push_ok [OF Cons.prems, of x] by blast
  obtain s2 where "push_all s1 xs = Some s2" "invar s2" "items s2 = items s1 @ xs"
    using Cons.IH [OF s1(2)] by blast
  with s1 show ?case by simp
qed

lemma push_pop:
  assumes "invar s"
  shows "\<exists>s1 s2. push s x = Some s1 \<and> pop s1 = Some (x, s2) \<and> invar s2 \<and> items s2 = items s"
proof -
  obtain s1 where s1: "push s x = Some s1" "invar s1" "items s1 = items s @ [x]"
    using push_ok [OF assms, of x] by blast
  with pop_ok [OF s1(2)] show ?thesis by auto
qed

lemma get_after_push_all:
  assumes "push_all (create n) xs = Some s"
  shows "get s i = (if i < length xs then Some (xs ! i) else None)"
proof -
  obtain s' where "push_all (create n) xs = Some s'" "invar s'" "items s' = items (create n) @ xs"
    using push_all_ok [OF invar_create, of n xs] by blast
  with assms show ?thesis by (simp add: items_create get_ok)
qed

end

lemma st_inv_create: "st_inv (apc_stack_create n)"
  by (simp add: st_inv_def apc_stack_create_def Let_def)

lemma st_list_create: "st_list (apc_stack_create n) = []"
  by (simp add: st_list_def apc_stack_create_def Let_def)

lemma length_st_list: "st_inv s \<Longrightarrow> length (st_list s) = st_size s"
  by (simp add: st_inv_def st_list_def)

lemma st_list_nth:
  assumes "st_inv s" "i < st_size s"
  shows "st_data s ! i = Some (st_list s ! i)"
proof -
  from assms have "i < length (st_data s)" "st_data s ! i \<noteq> None" by (auto simp: st_inv_def)
  with assms show ?thesis by (auto simp: st_list_def)
qed

lemma push_step:
  assumes "length (st_data s) = st_capacity s" "st_size s < st_capacity s" "0 < st_capacity s"
    "\<forall>i < st_size s. st_data s ! i \<noteq> None"
  shows "st_inv (s\<lparr>st_data := (st_data s)[st_size s := Some x], st_size := st_size s + 1\<rparr>) \<and>
    st_list (s\<lparr>st_data := (st_data s)[st_size s := Some x], st_size := st_size s + 1\<rparr>) = st_list s @ [x]"
  using assms by (auto simp: st_inv_def st_list_def nth_list_update take_Suc_conv_app_nth)

lemma apc_stack_push_ok:
  assumes "st_inv s"
  shows "\<exists>s'. apc_stack_push s x = Some s' \<and> st_inv s' \<and> st_list s' = st_list s @ [x]"
proof (cases "st_size s = st_capacity s")
  case True
  define t where "t = s\<lparr>st_capacity := st_capacity s * 2,
    st_data := st_data s @ replicate (st_capacity s * 2 - length (st_data s)) None\<rparr>"
  have t: "length (st_data t) = st_capacity t" "st_size t < st_capacity t" "0 < st_capacity t"
    "\<forall>i < st_size t. st_data t ! i \<noteq> None" "st_list t = st_list s"
    using assms True by (auto simp: t_def st_inv_def st_list_def nth_append)
  have "apc_stack_push s x =
      Some (t\<lparr>st_data := (st_data t)[st_size t := Some x], st_size := st_size t + 1\<rparr>)"
    using t True by (simp add: apc_stack_push_def Let_def t_def [symmetric])
  then show ?thesis using push_step [OF t(1-4), of x] t(5) by auto
next
  case False
  with assms have s: "length (st_data s) = st_capacity s" "st_size s < st_capacity s"
    "0 < st_capacity s" "\<forall>i < st_size s. st_data s ! i \<noteq> None"
    by (auto simp: st_inv_def)
  have "apc_stack_push s x =
      Some (s\<lparr>st_data := (st_data s)[st_size s := Some x], st_size := st_size s + 1\<rparr>)"
    using s False by (simp add: apc_stack_push_def Let_def)
  then show ?thesis using push_step [OF s, of x] by auto
qed

lemma apc_stack_pop_ok:
  assumes "st_inv s" "st_list s \<noteq> []"
  shows "\<exists>s'. apc_stack_pop s = Some (last (st_list s), s') \<and> st_inv s' \<and>
    st_list s' = butlast (st_list s)"
proof -
  from assms have pos: "0 < st_size s" by (auto simp: st_list_def)
  have rd: "st_data s ! (st_size s - 1) = Some (last (st_list s))"
    using st_list_nth [OF assms(1), of "st_size s - 1"] pos length_st_list [OF assms(1)] assms(2)
    by (simp add: last_conv_nth)
  have "st_size s - 1 < length (st_data s)" using assms pos by (auto simp: st_inv_def)
  with rd pos have "apc_stack_pop s = Some (last (st_list s), s\<lparr>st_size := st_size s - 1\<rparr>)"
    by (simp add: apc_stack_pop_def st_read_def)
  moreover have "st_inv (s\<lparr>st_size := st_size s - 1\<rparr>)" using assms pos by (auto simp: st_inv_def)
  moreover have "st_list (s\<lparr>st_size := st_size s - 1\<rparr>) = butlast (st_list s)"
    using assms pos by (auto simp: st_list_def st_inv_def butlast_take map_butlast [symmetric])
  ultimately show ?thesis by blast
qed

lemma apc_stack_get_ok:
  assumes "st_inv s"
  shows "apc_stack_get s n = (if n < length (st_list s) then Some (st_list s ! n) else None)"
proof (cases "n < st_size s")
  case True
  then have "n < length (st_data s)" using assms by (auto simp: st_inv_def)
  with True show ?thesis
    using st_list_nth [OF assms True] length_st_list [OF assms]
    by (simp add: apc_stack_get_def st_read_def)
next
  case False
  then show ?thesis using length_st_list [OF assms] by (simp add: apc_stack_get_def)
qed

lemma apc_stack_pop_empty: "st_inv s \<Longrightarrow> st_list s = [] \<Longrightarrow> apc_stack_pop s = None"
  using length_st_list [of s] by (simp add: apc_stack_pop_def)

interpretation istack: item_stack apc_stack_create apc_stack_push apc_stack_pop apc_stack_get
  st_list st_inv
  by unfold_locales
    (simp_all add: st_inv_create st_list_create apc_stack_push_ok apc_stack_pop_ok
      apc_stack_pop_empty apc_stack_get_ok)

lemma apc_stack_size_ok:
  assumes "st_inv s" "st_size s < 2 ^ 31"
  shows "apc_stack_size s = int (length (st_list s))"
proof -
  have "sint (of_nat (st_size s) :: 32 word) = int (st_size s)"
    using assms(2) by (simp add: signed_of_nat signed_take_bit_int_eq_self)
  then show ?thesis using length_st_list [OF assms(1)] by (simp add: apc_stack_size_def)
qed

lemma apc_stack_clear_ok: "st_inv s \<Longrightarrow> st_inv (apc_stack_clear s) \<and> st_list (apc_stack_clear s) = []"
  by (simp add: st_inv_def st_list_def apc_stack_clear_def)

end
