(* ===== verification/Apc_Lock.thy ===== *)
theory Apc_Lock imports Apc_Prelude begin

text \<open>
  \<open>apc_lock.c\<close> and \<open>apc_mutex.c\<close> as the repository configures them
  (\<open>APC_NATIVE_RWLOCK\<close>, \<open>APC_HAS_PTHREAD_MUTEX\<close>, \<open>ZEND_SIGNALS\<close>), and the lock
  interface the cache relies on.

  The state of a lock is what the calling process itself holds of it. Waiting for another
  process ends when that process lets go, so it is not visible here; waiting for oneself never
  ends and is \<open>None\<close>. A lock whose memory is damaged or whose attributes were never set up is
  \<open>broken\<close>: POSIX then lets every call return an error code, which the code checks for.
  \<open>depth\<close> is \<open>SIGG(depth)\<close>, the nesting of the sections in which signals are held back.
\<close>

section \<open>The primitives of the platform\<close>

record apc_lock_t =
  lk_broken :: bool
  lk_readers :: nat
  lk_writer :: bool

record apc_mutex_t =
  mx_broken :: bool
  mx_held :: bool

definition EINVAL :: int where "EINVAL = 22"

definition pthread_rwlock_rdlock :: "apc_lock_t \<Rightarrow> (int \<times> apc_lock_t) option" where
  "pthread_rwlock_rdlock l =
     (if lk_broken l then Some (EINVAL, l)
      else if lk_writer l then None
      else Some (0, l\<lparr>lk_readers := lk_readers l + 1\<rparr>))"

definition pthread_rwlock_wrlock :: "apc_lock_t \<Rightarrow> (int \<times> apc_lock_t) option" where
  "pthread_rwlock_wrlock l =
     (if lk_broken l then Some (EINVAL, l)
      else if lk_writer l \<or> 0 < lk_readers l then None
      else Some (0, l\<lparr>lk_writer := True\<rparr>))"

text \<open>Unlocking a lock one does not hold is undefined behaviour.\<close>

definition pthread_rwlock_unlock :: "apc_lock_t \<Rightarrow> apc_lock_t option" where
  "pthread_rwlock_unlock l =
     (if lk_broken l then Some l
      else if lk_writer l then Some (l\<lparr>lk_writer := False\<rparr>)
      else if 0 < lk_readers l then Some (l\<lparr>lk_readers := lk_readers l - 1\<rparr>)
      else None)"

definition pthread_mutex_lock :: "apc_mutex_t \<Rightarrow> (int \<times> apc_mutex_t) option" where
  "pthread_mutex_lock m =
     (if mx_broken m then Some (EINVAL, m)
      else if mx_held m then None
      else Some (0, m\<lparr>mx_held := True\<rparr>))"

definition pthread_mutex_unlock :: "apc_mutex_t \<Rightarrow> apc_mutex_t option" where
  "pthread_mutex_unlock m =
     (if mx_broken m then Some m
      else if mx_held m then Some (m\<lparr>mx_held := False\<rparr>)
      else None)"

text \<open>
  Destroying a lock that is held is undefined behaviour; afterwards it is as if it had never been
  set up.
\<close>

definition pthread_rwlock_destroy :: "apc_lock_t \<Rightarrow> (int \<times> apc_lock_t) option" where
  "pthread_rwlock_destroy l =
     (if lk_broken l then Some (EINVAL, l)
      else if lk_writer l \<or> 0 < lk_readers l then None
      else Some (0, l\<lparr>lk_broken := True\<rparr>))"

definition pthread_mutex_destroy :: "apc_mutex_t \<Rightarrow> (int \<times> apc_mutex_t) option" where
  "pthread_mutex_destroy m =
     (if mx_broken m then Some (EINVAL, m)
      else if mx_held m then None
      else Some (0, m\<lparr>mx_broken := True\<rparr>))"

section \<open>Attributes: set up once per process\<close>

text \<open>
  \<open>apc_lock_init\<close> and \<open>apc_mutex_init\<close> remember in a static flag that they ran. The results
  of the two \<open>pthread_*attr_*\<close> calls are inputs; the results are (return value, new flag).
\<close>

definition apc_lock_init :: "int \<Rightarrow> int \<Rightarrow> bool \<Rightarrow> bool \<times> bool" where
  "apc_lock_init attr_init attr_setpshared apc_lock_ready =
     (if apc_lock_ready then (True, apc_lock_ready)
      else if attr_init \<noteq> 0 then (False, True)
      else if attr_setpshared \<noteq> 0 then (False, True)
      else (True, True))"

definition apc_lock_cleanup :: "bool \<Rightarrow> bool" where
  "apc_lock_cleanup apc_lock_ready = (if \<not> apc_lock_ready then apc_lock_ready else False)"

definition apc_lock_create :: "int \<Rightarrow> bool \<times> apc_lock_t" where
  "apc_lock_create rwlock_init =
     (rwlock_init = 0, \<lparr>lk_broken = (rwlock_init \<noteq> 0), lk_readers = 0, lk_writer = False\<rparr>)"

definition apc_mutex_init :: "int \<Rightarrow> int \<Rightarrow> bool \<Rightarrow> bool \<times> bool" where
  "apc_mutex_init attr_init attr_setpshared apc_mutex_ready =
     (if apc_mutex_ready then (True, apc_mutex_ready)
      else if attr_init \<noteq> 0 then (False, True)
      else if attr_setpshared \<noteq> 0 then (False, True)
      else (True, True))"

definition apc_mutex_cleanup :: "bool \<Rightarrow> bool" where
  "apc_mutex_cleanup apc_mutex_ready = (if \<not> apc_mutex_ready then apc_mutex_ready else False)"

text \<open>\<open>apc_mutex_create\<close> ignores what \<open>pthread_mutex_init\<close> returns.\<close>

definition apc_mutex_create :: "int \<Rightarrow> bool \<times> apc_mutex_t" where
  "apc_mutex_create mutex_init = (True, \<lparr>mx_broken = (mutex_init \<noteq> 0), mx_held = False\<rparr>)"

section \<open>Reader-writer lock\<close>

definition apc_lock_rlock_impl :: "apc_lock_t \<Rightarrow> (bool \<times> apc_lock_t) option" where
  "apc_lock_rlock_impl l = do {
     (rc, l1) \<leftarrow> pthread_rwlock_rdlock l;
     Some (rc = 0, l1)
   }"

definition apc_lock_wlock_impl :: "apc_lock_t \<Rightarrow> (bool \<times> apc_lock_t) option" where
  "apc_lock_wlock_impl l = do {
     (rc, l1) \<leftarrow> pthread_rwlock_wrlock l;
     Some (rc = 0, l1)
   }"

definition apc_lock_wunlock :: "apc_lock_t \<Rightarrow> (bool \<times> apc_lock_t) option" where
  "apc_lock_wunlock l = do {
     l1 \<leftarrow> pthread_rwlock_unlock l;
     Some (True, l1)
   }"

definition apc_lock_runlock :: "apc_lock_t \<Rightarrow> (bool \<times> apc_lock_t) option" where
  "apc_lock_runlock l = do {
     l1 \<leftarrow> pthread_rwlock_unlock l;
     Some (True, l1)
   }"

definition apc_lock_wlock :: "apc_lock_t \<Rightarrow> int \<Rightarrow> (bool \<times> apc_lock_t \<times> int) option" where
  "apc_lock_wlock l depth = do {
     let depth1 = depth + 1;
     (ok, l1) \<leftarrow> apc_lock_wlock_impl l;
     if ok then Some (True, l1, depth1) else Some (False, l1, depth1 - 1)
   }"

definition apc_lock_rlock :: "apc_lock_t \<Rightarrow> int \<Rightarrow> (bool \<times> apc_lock_t \<times> int) option" where
  "apc_lock_rlock l depth = do {
     let depth1 = depth + 1;
     (ok, l1) \<leftarrow> apc_lock_rlock_impl l;
     if ok then Some (True, l1, depth1) else Some (False, l1, depth1 - 1)
   }"

definition apc_lock_destroy :: "apc_lock_t \<Rightarrow> apc_lock_t option" where
  "apc_lock_destroy l = do {
     (_, l1) \<leftarrow> pthread_rwlock_destroy l;
     Some l1
   }"

text \<open>The macros \<open>WUNLOCK\<close> and \<open>RUNLOCK\<close>.\<close>

definition WUNLOCK :: "apc_lock_t \<Rightarrow> int \<Rightarrow> (apc_lock_t \<times> int) option" where
  "WUNLOCK l depth = do {
     (_, l1) \<leftarrow> apc_lock_wunlock l;
     Some (l1, depth - 1)
   }"

definition RUNLOCK :: "apc_lock_t \<Rightarrow> int \<Rightarrow> (apc_lock_t \<times> int) option" where
  "RUNLOCK l depth = do {
     (_, l1) \<leftarrow> apc_lock_runlock l;
     Some (l1, depth - 1)
   }"

section \<open>Mutex\<close>

definition apc_mutex_lock :: "apc_mutex_t \<Rightarrow> int \<Rightarrow> (bool \<times> apc_mutex_t \<times> int) option" where
  "apc_mutex_lock m depth = do {
     let depth1 = depth + 1;
     (rc, m1) \<leftarrow> pthread_mutex_lock m;
     if rc = 0 then Some (True, m1, depth1) else Some (False, m1, depth1 - 1)
   }"

definition apc_mutex_unlock :: "apc_mutex_t \<Rightarrow> int \<Rightarrow> (bool \<times> apc_mutex_t \<times> int) option" where
  "apc_mutex_unlock m depth = do {
     m1 \<leftarrow> pthread_mutex_unlock m;
     Some (True, m1, depth - 1)
   }"

definition apc_mutex_destroy :: "apc_mutex_t \<Rightarrow> apc_mutex_t option" where
  "apc_mutex_destroy m = do {
     (_, m1) \<leftarrow> pthread_mutex_destroy m;
     Some m1
   }"

section \<open>The contract of a section under a lock\<close>

text \<open>
  What the callers of \<open>apc_cache_wlock\<close>, \<open>apc_cache_rlock\<close> and \<open>SMA_LOCK\<close> rely on: taking a
  lock the process does not hold returns, a failed acquisition changes nothing, and releasing
  restores lock and depth.
\<close>

locale section_lock =
  fixes acquire :: "'l \<Rightarrow> int \<Rightarrow> (bool \<times> 'l \<times> int) option"
    and release :: "'l \<Rightarrow> int \<Rightarrow> ('l \<times> int) option"
    and idle :: "'l \<Rightarrow> bool"
  assumes acquire_returns: "idle l \<Longrightarrow> \<exists>ok l' d'. acquire l d = Some (ok, l', d')"
    and failed_acquire: "idle l \<Longrightarrow> acquire l d = Some (False, l', d') \<Longrightarrow> l' = l \<and> d' = d"
    and release_acquired: "idle l \<Longrightarrow> acquire l d = Some (True, l', d') \<Longrightarrow> release l' d' = Some (l, d)"
begin

text \<open>A section: acquire, leave with \<open>dflt\<close> when that fails, run the body, release.\<close>

definition under :: "'l \<Rightarrow> int \<Rightarrow> ('s \<Rightarrow> ('r \<times> 's) option) \<Rightarrow> 'r \<Rightarrow> 's \<Rightarrow> ('r \<times> 's \<times> 'l \<times> int) option" where
  "under l d body dflt s =
     (case acquire l d of
        None \<Rightarrow> None
      | Some (ok, l1, d1) \<Rightarrow>
          if \<not> ok then Some (dflt, s, l1, d1)
          else case body s of
            None \<Rightarrow> None
          | Some (r, s') \<Rightarrow>
              (case release l1 d1 of None \<Rightarrow> None | Some (l2, d2) \<Rightarrow> Some (r, s', l2, d2)))"

lemma under_restores:
  assumes "idle l" "under l d body dflt s = Some (r, s', l', d')"
  shows "l' = l \<and> d' = d"
proof -
  obtain ok l1 d1 where a: "acquire l d = Some (ok, l1, d1)" using acquire_returns [OF assms(1)] by blast
  show ?thesis
  proof (cases ok)
    case True
    with a have "release l1 d1 = Some (l, d)" using release_acquired [OF assms(1)] by simp
    with assms a True show ?thesis by (auto simp: under_def split: option.splits)
  next
    case False
    with a have "l1 = l \<and> d1 = d" using failed_acquire [OF assms(1)] by simp
    with assms a False show ?thesis by (simp add: under_def)
  qed
qed

lemma under_returns:
  assumes "idle l" "\<exists>r s'. body s = Some (r, s')"
  shows "\<exists>r s'. under l d body dflt s = Some (r, s', l, d)"
proof -
  obtain ok l1 d1 where a: "acquire l d = Some (ok, l1, d1)" using acquire_returns [OF assms(1)] by blast
  show ?thesis
  proof (cases ok)
    case True
    with a have "release l1 d1 = Some (l, d)" using release_acquired [OF assms(1)] by simp
    with assms(2) a True show ?thesis by (auto simp: under_def)
  next
    case False
    with a have "l1 = l \<and> d1 = d" using failed_acquire [OF assms(1)] by simp
    with a False show ?thesis by (simp add: under_def)
  qed
qed

end

definition lock_idle :: "apc_lock_t \<Rightarrow> bool" where
  "lock_idle l \<longleftrightarrow> \<not> lk_writer l \<and> lk_readers l = 0"

definition mutex_idle :: "apc_mutex_t \<Rightarrow> bool" where
  "mutex_idle m \<longleftrightarrow> \<not> mx_held m"

definition mutex_release :: "apc_mutex_t \<Rightarrow> int \<Rightarrow> (apc_mutex_t \<times> int) option" where
  "mutex_release m depth = map_option snd (apc_mutex_unlock m depth)"

lemmas lock_defs = apc_lock_wlock_def apc_lock_rlock_def apc_lock_wlock_impl_def
  apc_lock_rlock_impl_def pthread_rwlock_wrlock_def pthread_rwlock_rdlock_def
  WUNLOCK_def RUNLOCK_def apc_lock_wunlock_def apc_lock_runlock_def pthread_rwlock_unlock_def
  lock_idle_def EINVAL_def

lemmas mutex_defs = apc_mutex_lock_def apc_mutex_unlock_def pthread_mutex_lock_def
  pthread_mutex_unlock_def mutex_idle_def mutex_release_def EINVAL_def

interpretation wsec: section_lock apc_lock_wlock WUNLOCK lock_idle
  by unfold_locales (auto simp: lock_defs Let_def split: if_splits)

interpretation rsec: section_lock apc_lock_rlock RUNLOCK lock_idle
  by unfold_locales (auto simp: lock_defs Let_def split: if_splits)

interpretation msec: section_lock apc_mutex_lock mutex_release mutex_idle
  by unfold_locales (auto simp: mutex_defs Let_def split: if_splits)

lemma mutex_broken_lock: "mx_broken m \<Longrightarrow> apc_mutex_lock m d = Some (False, m, d)"
  by (simp add: mutex_defs)

lemma mutex_free_lock:
  "\<not> mx_broken m \<Longrightarrow> \<not> mx_held m \<Longrightarrow> apc_mutex_lock m d = Some (True, m\<lparr>mx_held := True\<rparr>, d + 1)"
  by (simp add: mutex_defs)

lemma mutex_held_unlock:
  "\<not> mx_broken m \<Longrightarrow> mx_held m \<Longrightarrow> apc_mutex_unlock m d = Some (True, m\<lparr>mx_held := False\<rparr>, d - 1)"
  by (simp add: mutex_defs)

end
