(* ===== verification/Apc_Lock_Variants.thy ===== *)
theory Apc_Lock_Variants imports Apc_Lock begin

text \<open>
  The implementations of the lock interface in \<open>apc_lock.c\<close> that other builds select: a recursive
  mutex, the Windows reader-writer lock, a spin lock and a file lock. The parts shared by all of them, \<open>apc_lock_wlock\<close> and
  \<open>apc_lock_rlock\<close>, are a locale over the implementation; each implementation is shown to meet
  the contract \<open>section_lock\<close> that the cache relies on.
\<close>

section \<open>The shared functions\<close>

locale lock_impl =
  fixes wlock_impl :: "'l \<Rightarrow> (bool \<times> 'l) option"
    and unlock_impl :: "'l \<Rightarrow> (bool \<times> 'l) option"
    and free :: "'l \<Rightarrow> bool"
  assumes impl_returns: "free l \<Longrightarrow> \<exists>ok l'. wlock_impl l = Some (ok, l')"
    and impl_failed: "free l \<Longrightarrow> wlock_impl l = Some (False, l') \<Longrightarrow> l' = l"
    and impl_release: "free l \<Longrightarrow> wlock_impl l = Some (True, l') \<Longrightarrow> \<exists>b. unlock_impl l' = Some (b, l)"
begin

lemma wlock_cases:
  assumes "free l"
  shows "wlock_impl l = Some (False, l) \<or> (\<exists>l' b. wlock_impl l = Some (True, l') \<and> unlock_impl l' = Some (b, l))"
proof -
  obtain ok l' where "wlock_impl l = Some (ok, l')" using impl_returns [OF assms] by blast
  then show ?thesis using impl_failed [OF assms, of l'] impl_release [OF assms, of l'] by (cases ok) auto
qed

end

text \<open>\<open>apc_lock_wlock\<close> and \<open>apc_lock_rlock\<close> over an implementation, and the unlock macros.\<close>

definition shared_lock :: "('l \<Rightarrow> (bool \<times> 'l) option) \<Rightarrow> 'l \<Rightarrow> int \<Rightarrow> (bool \<times> 'l \<times> int) option" where
  "shared_lock impl l depth = do {
     let depth1 = depth + 1;
     (ok, l1) \<leftarrow> impl l;
     if ok then Some (True, l1, depth1) else Some (False, l1, depth1 - 1)
   }"

definition shared_unlock :: "('l \<Rightarrow> (bool \<times> 'l) option) \<Rightarrow> 'l \<Rightarrow> int \<Rightarrow> ('l \<times> int) option" where
  "shared_unlock unlock l depth = do {
     (_, l1) \<leftarrow> unlock l;
     Some (l1, depth - 1)
   }"

lemma section_of_impl:
  assumes "lock_impl impl unlock free"
  shows "section_lock (shared_lock impl) (shared_unlock unlock) free"
proof unfold_locales
  note cases = lock_impl.wlock_cases [OF assms]
  fix l d assume "free l"
  from cases [OF this] show "\<exists>ok l' d'. shared_lock impl l d = Some (ok, l', d')"
    by (auto simp: shared_lock_def Let_def)
next
  note cases = lock_impl.wlock_cases [OF assms]
  fix l d l' d' assume "free l" "shared_lock impl l d = Some (False, l', d')"
  with cases [OF this(1)] show "l' = l \<and> d' = d" by (auto simp: shared_lock_def Let_def)
next
  note cases = lock_impl.wlock_cases [OF assms]
  fix l d l' d' assume "free l" "shared_lock impl l d = Some (True, l', d')"
  with cases [OF this(1)] show "shared_unlock unlock l' d' = Some (l, d)"
    by (auto simp: shared_lock_def shared_unlock_def Let_def)
qed

section \<open>The recursive mutex\<close>

record recursive_mutex =
  rm_broken :: bool
  rm_depth :: nat

definition recursive_lock_init :: "int \<Rightarrow> int \<Rightarrow> bool \<Rightarrow> bool \<times> bool" where
  "recursive_lock_init attr_init attr_setpshared apc_lock_ready =
     (if apc_lock_ready then (True, apc_lock_ready)
      else if attr_init \<noteq> 0 then (False, True)
      else if attr_setpshared \<noteq> 0 then (False, True)
      else (True, True))"

definition recursive_lock_cleanup :: "bool \<Rightarrow> bool" where
  "recursive_lock_cleanup apc_lock_ready = (if \<not> apc_lock_ready then apc_lock_ready else False)"

text \<open>What \<open>pthread_mutex_init\<close> returns is not looked at.\<close>

definition recursive_lock_create :: "int \<Rightarrow> bool \<times> recursive_mutex" where
  "recursive_lock_create mutex_init = (True, \<lparr>rm_broken = (mutex_init \<noteq> 0), rm_depth = 0\<rparr>)"

definition recursive_mutex_lock :: "recursive_mutex \<Rightarrow> int \<times> recursive_mutex" where
  "recursive_mutex_lock m = (if rm_broken m then (EINVAL, m) else (0, m\<lparr>rm_depth := rm_depth m + 1\<rparr>))"

definition recursive_mutex_unlock :: "recursive_mutex \<Rightarrow> recursive_mutex option" where
  "recursive_mutex_unlock m =
     (if rm_broken m then Some m
      else if rm_depth m = 0 then None
      else Some (m\<lparr>rm_depth := rm_depth m - 1\<rparr>))"

text \<open>Readers and writers take the same mutex.\<close>

definition recursive_rlock_impl :: "recursive_mutex \<Rightarrow> (bool \<times> recursive_mutex) option" where
  "recursive_rlock_impl m = (let (rc, m1) = recursive_mutex_lock m in Some (rc = 0, m1))"

definition recursive_wlock_impl :: "recursive_mutex \<Rightarrow> (bool \<times> recursive_mutex) option" where
  "recursive_wlock_impl m = (let (rc, m1) = recursive_mutex_lock m in Some (rc = 0, m1))"

definition recursive_wunlock :: "recursive_mutex \<Rightarrow> (bool \<times> recursive_mutex) option" where
  "recursive_wunlock m = do { m1 \<leftarrow> recursive_mutex_unlock m; Some (True, m1) }"

definition recursive_runlock :: "recursive_mutex \<Rightarrow> (bool \<times> recursive_mutex) option" where
  "recursive_runlock m = do { m1 \<leftarrow> recursive_mutex_unlock m; Some (True, m1) }"

definition recursive_lock_destroy :: "recursive_mutex \<Rightarrow> recursive_mutex option" where
  "recursive_lock_destroy m =
     (if rm_broken m then Some m
      else if rm_depth m = 0 then Some (m\<lparr>rm_broken := True\<rparr>)
      else None)"

lemmas recursive_defs = recursive_rlock_impl_def recursive_wlock_impl_def recursive_wunlock_def
  recursive_runlock_def recursive_mutex_lock_def recursive_mutex_unlock_def EINVAL_def

text \<open>Any state will do: the mutex can be taken again by the process that holds it.\<close>

interpretation rec_w: lock_impl recursive_wlock_impl recursive_wunlock "\<lambda>_. True"
  by unfold_locales (auto simp: recursive_defs Let_def split: if_splits)

interpretation rec_r: lock_impl recursive_rlock_impl recursive_runlock "\<lambda>_. True"
  by unfold_locales (auto simp: recursive_defs Let_def split: if_splits)

interpretation rec_wsec: section_lock "shared_lock recursive_wlock_impl" "shared_unlock recursive_wunlock" "\<lambda>_. True"
  by (rule section_of_impl, rule rec_w.lock_impl_axioms)

interpretation rec_rsec: section_lock "shared_lock recursive_rlock_impl" "shared_unlock recursive_runlock" "\<lambda>_. True"
  by (rule section_of_impl, rule rec_r.lock_impl_axioms)

section \<open>Windows\<close>

text \<open>
  \<open>apc_windows_srwlock_kernel.c\<close> over the slim reader-writer locks of Windows, which cannot be taken
  again by their owner and report no errors. Releasing what is not held is undefined behaviour.
\<close>

record srwlock =
  sw_readers :: nat
  sw_writer :: bool

definition AcquireSRWLockExclusive :: "srwlock \<Rightarrow> srwlock option" where
  "AcquireSRWLockExclusive l = (if sw_writer l \<or> 0 < sw_readers l then None else Some (l\<lparr>sw_writer := True\<rparr>))"

definition AcquireSRWLockShared :: "srwlock \<Rightarrow> srwlock option" where
  "AcquireSRWLockShared l = (if sw_writer l then None else Some (l\<lparr>sw_readers := sw_readers l + 1\<rparr>))"

definition ReleaseSRWLockExclusive :: "srwlock \<Rightarrow> srwlock option" where
  "ReleaseSRWLockExclusive l = (if sw_writer l then Some (l\<lparr>sw_writer := False\<rparr>) else None)"

definition ReleaseSRWLockShared :: "srwlock \<Rightarrow> srwlock option" where
  "ReleaseSRWLockShared l = (if 0 < sw_readers l then Some (l\<lparr>sw_readers := sw_readers l - 1\<rparr>) else None)"

definition windows_lock_init :: bool where "windows_lock_init = True"

definition apc_windows_cs_create :: "srwlock \<Rightarrow> srwlock option" where
  "apc_windows_cs_create l = Some (l\<lparr>sw_readers := 0, sw_writer := False\<rparr>)"

text \<open>A null pointer would be the answer no.\<close>

definition windows_lock_create :: "srwlock \<Rightarrow> bool \<times> srwlock" where
  "windows_lock_create l = (case apc_windows_cs_create l of None \<Rightarrow> (False, l) | Some l1 \<Rightarrow> (True, l1))"

definition apc_windows_cs_lock :: "srwlock \<Rightarrow> srwlock option" where
  "apc_windows_cs_lock l = AcquireSRWLockExclusive l"

definition apc_windows_cs_rdlock :: "srwlock \<Rightarrow> srwlock option" where
  "apc_windows_cs_rdlock l = AcquireSRWLockShared l"

definition apc_windows_cs_unlock_rd :: "srwlock \<Rightarrow> srwlock option" where
  "apc_windows_cs_unlock_rd l = ReleaseSRWLockShared l"

definition apc_windows_cs_unlock_wr :: "srwlock \<Rightarrow> srwlock option" where
  "apc_windows_cs_unlock_wr l = ReleaseSRWLockExclusive l"

definition apc_windows_cs_destroy :: "srwlock \<Rightarrow> srwlock" where
  "apc_windows_cs_destroy l = l"

definition windows_rlock_impl :: "srwlock \<Rightarrow> (bool \<times> srwlock) option" where
  "windows_rlock_impl l = do { l1 \<leftarrow> apc_windows_cs_rdlock l; Some (True, l1) }"

definition windows_wlock_impl :: "srwlock \<Rightarrow> (bool \<times> srwlock) option" where
  "windows_wlock_impl l = do { l1 \<leftarrow> apc_windows_cs_lock l; Some (True, l1) }"

definition windows_wunlock :: "srwlock \<Rightarrow> (bool \<times> srwlock) option" where
  "windows_wunlock l = do { l1 \<leftarrow> apc_windows_cs_unlock_wr l; Some (True, l1) }"

definition windows_runlock :: "srwlock \<Rightarrow> (bool \<times> srwlock) option" where
  "windows_runlock l = do { l1 \<leftarrow> apc_windows_cs_unlock_rd l; Some (True, l1) }"

lemmas windows_defs = windows_rlock_impl_def windows_wlock_impl_def windows_wunlock_def windows_runlock_def
  apc_windows_cs_rdlock_def apc_windows_cs_lock_def apc_windows_cs_unlock_rd_def apc_windows_cs_unlock_wr_def
  AcquireSRWLockShared_def AcquireSRWLockExclusive_def ReleaseSRWLockShared_def ReleaseSRWLockExclusive_def

interpretation win_w: lock_impl windows_wlock_impl windows_wunlock "\<lambda>l. \<not> sw_writer l \<and> sw_readers l = 0"
  by unfold_locales (auto simp: windows_defs)

interpretation win_r: lock_impl windows_rlock_impl windows_runlock "\<lambda>l. \<not> sw_writer l"
  by unfold_locales (auto simp: windows_defs)

interpretation win_wsec: section_lock "shared_lock windows_wlock_impl" "shared_unlock windows_wunlock"
    "\<lambda>l. \<not> sw_writer l \<and> sw_readers l = 0"
  by (rule section_of_impl, rule win_w.lock_impl_axioms)

interpretation win_rsec: section_lock "shared_lock windows_rlock_impl" "shared_unlock windows_runlock" "\<lambda>l. \<not> sw_writer l"
  by (rule section_of_impl, rule win_r.lock_impl_axioms)

section \<open>The spin lock\<close>

type_synonym spin_state = "32 word"

text \<open>\<open>xchg\<close> puts 1 into the lock and returns what was there.\<close>

definition apc_lock_try :: "spin_state \<Rightarrow> spin_state \<times> spin_state" where
  "apc_lock_try state = (state, 1)"

text \<open>A process that finds the lock taken by itself spins forever.\<close>

partial_function (option) apc_lock_get :: "spin_state \<Rightarrow> (spin_state \<times> spin_state) option" where
  "apc_lock_get state =
     (let (failed, state1) = apc_lock_try state
      in if failed \<noteq> 0 then apc_lock_get state1 else Some (failed, state1))"

definition apc_lock_release :: "spin_state \<Rightarrow> bool \<times> spin_state" where
  "apc_lock_release state = (state = 0, 0)"

definition spin_lock_init :: bool where "spin_lock_init = False"

text \<open>The function has no return statement: what the caller reads is arbitrary.\<close>

definition spin_lock_create :: "bool \<Rightarrow> bool \<times> spin_state" where
  "spin_lock_create junk = (junk, 0)"

definition spin_rlock_impl :: "spin_state \<Rightarrow> (bool \<times> spin_state) option" where
  "spin_rlock_impl state = do { (_, state1) \<leftarrow> apc_lock_get state; Some (True, state1) }"

definition spin_wlock_impl :: "spin_state \<Rightarrow> (bool \<times> spin_state) option" where
  "spin_wlock_impl state = do { (_, state1) \<leftarrow> apc_lock_get state; Some (True, state1) }"

definition spin_wunlock :: "spin_state \<Rightarrow> (bool \<times> spin_state) option" where
  "spin_wunlock state = Some (True, snd (apc_lock_release state))"

definition spin_runlock :: "spin_state \<Rightarrow> (bool \<times> spin_state) option" where
  "spin_runlock state = Some (True, snd (apc_lock_release state))"

text \<open>The body is empty.\<close>

definition spin_lock_destroy :: "spin_state \<Rightarrow> spin_state" where
  "spin_lock_destroy state = state"

lemma spin_get_free: "apc_lock_get 0 = Some (0, 1)"
  by (subst apc_lock_get.simps) (simp add: apc_lock_try_def)

interpretation spin_w: lock_impl spin_wlock_impl spin_wunlock "\<lambda>state. state = 0"
  by unfold_locales (auto simp: spin_wlock_impl_def spin_wunlock_def spin_get_free apc_lock_release_def)

interpretation spin_r: lock_impl spin_rlock_impl spin_runlock "\<lambda>state. state = 0"
  by unfold_locales (auto simp: spin_rlock_impl_def spin_runlock_def spin_get_free apc_lock_release_def)

interpretation spin_wsec: section_lock "shared_lock spin_wlock_impl" "shared_unlock spin_wunlock" "\<lambda>state. state = 0"
  by (rule section_of_impl, rule spin_w.lock_impl_axioms)

interpretation spin_rsec: section_lock "shared_lock spin_rlock_impl" "shared_unlock spin_runlock" "\<lambda>state. state = 0"
  by (rule section_of_impl, rule spin_r.lock_impl_axioms)

subsection \<open>Several processes\<close>

text \<open>
  The lock word with the phase of every process. One turn of the loop in \<open>apc_lock_get\<close> is one
  atomic exchange, and so is the release.
\<close>

datatype phase = Away | Spinning | Inside

record spin_sys =
  sp_word :: spin_state
  sp_phase :: "nat \<Rightarrow> phase"

inductive spin_step :: "spin_sys \<Rightarrow> spin_sys \<Rightarrow> bool" where
  ask: "sp_phase s p = Away \<Longrightarrow> spin_step s (s\<lparr>sp_phase := (sp_phase s)(p := Spinning)\<rparr>)"
| turn: "sp_phase s p = Spinning \<Longrightarrow> apc_lock_try (sp_word s) = (failed, w) \<Longrightarrow>
    spin_step s (s\<lparr>sp_word := w, sp_phase := (sp_phase s)(p := if failed \<noteq> 0 then Spinning else Inside)\<rparr>)"
| leave: "sp_phase s p = Inside \<Longrightarrow> apc_lock_release (sp_word s) = (b, w) \<Longrightarrow>
    spin_step s (s\<lparr>sp_word := w, sp_phase := (sp_phase s)(p := Away)\<rparr>)"

inductive_cases spin_stepE: "spin_step s s'"

definition spin_start :: spin_sys where
  "spin_start = \<lparr>sp_word = 0, sp_phase = (\<lambda>_. Away)\<rparr>"

definition spin_inv :: "spin_sys \<Rightarrow> bool" where
  "spin_inv s \<longleftrightarrow> sp_word s \<in> {0, 1} \<and>
     (if sp_word s = 0 then \<forall>p. sp_phase s p \<noteq> Inside
      else \<exists>p. sp_phase s p = Inside \<and> (\<forall>q. sp_phase s q = Inside \<longrightarrow> q = p))"

lemma spin_inv_start: "spin_inv spin_start"
  by (simp add: spin_inv_def spin_start_def)

lemma spin_inv_step:
  assumes "spin_step s s'" "spin_inv s"
  shows "spin_inv s'"
  using assms
proof (induction rule: spin_step.induct)
  case (ask s p)
  then have "((sp_phase s)(p := Spinning)) q = Inside \<longleftrightarrow> sp_phase s q = Inside" for q by simp
  with ask(2) show ?case by (simp add: spin_inv_def del: fun_upd_apply)
next
  case (turn s p failed w)
  have w: "failed = sp_word s" "w = 1" using turn(2) by (simp_all add: apc_lock_try_def)
  have p: "sp_phase s p \<noteq> Inside" using turn(1) by simp
  show ?case
  proof (cases "sp_word s = 0")
    case True
    then have "\<forall>q. sp_phase s q \<noteq> Inside" using turn(3) by (simp add: spin_inv_def)
    then show ?thesis using w True by (simp add: spin_inv_def)
  next
    case False
    then obtain r where r: "sp_phase s r = Inside" "\<forall>q. sp_phase s q = Inside \<longrightarrow> q = r"
      using turn(3) by (auto simp: spin_inv_def)
    have "((sp_phase s)(p := if failed \<noteq> 0 then Spinning else Inside)) q = Inside \<longleftrightarrow> sp_phase s q = Inside" for q
      using False w p by simp
    then show ?thesis using r w by (simp add: spin_inv_def del: fun_upd_apply) blast
  qed
next
  case (leave s p b w)
  have w: "w = 0" using leave(2) by (simp add: apc_lock_release_def)
  have "sp_word s \<noteq> 0" using leave(1,3) by (auto simp: spin_inv_def)
  then obtain r where r: "\<forall>q. sp_phase s q = Inside \<longrightarrow> q = r"
    using leave(3) by (auto simp: spin_inv_def)
  with leave(1) have "r = p" by simp
  with r w show ?case by (auto simp: spin_inv_def)
qed

lemma spin_inv_reachable: "spin_step\<^sup>*\<^sup>* spin_start s \<Longrightarrow> spin_inv s"
  by (induction rule: rtranclp_induct) (auto intro: spin_inv_start spin_inv_step)

section \<open>The file lock\<close>

datatype fl_type = F_RDLCK | F_WRLCK | F_UNLCK

definition EINTR :: int where "EINTR = 4"

text \<open>\<open>answers k\<close> is what the \<open>k\<close>-th call of \<open>fcntl\<close> returns, with \<open>errno\<close>.\<close>

partial_function (option) apc_fcntl_call :: "(nat \<Rightarrow> int \<times> int) \<Rightarrow> nat \<Rightarrow> (int \<times> nat) option" where
  "apc_fcntl_call answers k =
     (let (ret, errno) = answers k
      in if ret < 0 \<and> errno = EINTR then apc_fcntl_call answers (k + 1) else Some (ret, k + 1))"

text \<open>The descriptor with what the process holds of the file; the answers come from the system.\<close>

record file_lock =
  fl_fd :: int
  fl_held :: "fl_type"
  fl_calls :: nat

definition file_lock_init :: bool where "file_lock_init = False"

text \<open>\<open>unlink\<close> is called when \<open>mkstemp\<close> answers a descriptor above 0.\<close>

definition file_lock_create :: "int \<Rightarrow> bool \<times> bool \<times> file_lock" where
  "file_lock_create mkstemp =
     (let l = \<lparr>fl_fd = mkstemp, fl_held = F_UNLCK, fl_calls = 0\<rparr>
      in if mkstemp > 0 then (True, True, l) else (False, False, l))"

definition file_lock_call :: "(nat \<Rightarrow> int \<times> int) \<Rightarrow> fl_type \<Rightarrow> file_lock \<Rightarrow> (bool \<times> file_lock) option" where
  "file_lock_call answers typ l = do {
     (ret, k) \<leftarrow> apc_fcntl_call answers (fl_calls l);
     Some (True, l\<lparr>fl_calls := k, fl_held := (if ret < 0 then fl_held l else typ)\<rparr>)
   }"

definition file_rlock_impl :: "(nat \<Rightarrow> int \<times> int) \<Rightarrow> file_lock \<Rightarrow> (bool \<times> file_lock) option" where
  "file_rlock_impl answers l = file_lock_call answers F_RDLCK l"

definition file_wlock_impl :: "(nat \<Rightarrow> int \<times> int) \<Rightarrow> file_lock \<Rightarrow> (bool \<times> file_lock) option" where
  "file_wlock_impl answers l = file_lock_call answers F_WRLCK l"

definition file_wunlock :: "(nat \<Rightarrow> int \<times> int) \<Rightarrow> file_lock \<Rightarrow> (bool \<times> file_lock) option" where
  "file_wunlock answers l = file_lock_call answers F_UNLCK l"

definition file_runlock :: "(nat \<Rightarrow> int \<times> int) \<Rightarrow> file_lock \<Rightarrow> (bool \<times> file_lock) option" where
  "file_runlock answers l = file_lock_call answers F_UNLCK l"

text \<open>Closing the descriptor drops what the process holds of the file.\<close>

definition file_lock_destroy :: "file_lock \<Rightarrow> file_lock" where
  "file_lock_destroy l = l\<lparr>fl_held := F_UNLCK\<rparr>"

definition interrupted :: "int \<times> int \<Rightarrow> bool" where
  "interrupted a \<longleftrightarrow> fst a < 0 \<and> snd a = EINTR"

lemma fcntl_call_ends:
  assumes "\<not> interrupted (answers (k + n))" "\<forall>i < n. interrupted (answers (k + i))"
  shows "apc_fcntl_call answers k = Some (fst (answers (k + n)), k + n + 1)"
  using assms
proof (induction n arbitrary: k)
  case 0
  then show ?case
    by (subst apc_fcntl_call.simps) (auto simp: interrupted_def split: prod.split)
next
  case (Suc n)
  have "interrupted (answers k)" using Suc.prems(2) by force
  moreover have "apc_fcntl_call answers (k + 1) = Some (fst (answers (k + 1 + n)), k + 1 + n + 1)"
  proof (rule Suc.IH)
    show "\<not> interrupted (answers (k + 1 + n))" using Suc.prems(1) by simp
    show "\<forall>i < n. interrupted (answers (k + 1 + i))"
    proof (intro allI impI)
      fix i assume "i < n"
      then show "interrupted (answers (k + 1 + i))" using Suc.prems(2) [THEN spec, of "Suc i"] by simp
    qed
  qed
  ultimately show ?case
    by (subst apc_fcntl_call.simps) (auto simp: interrupted_def split: prod.split)
qed

lemma fcntl_call_answer:
  assumes "apc_fcntl_call answers k = Some r"
  shows "\<exists>i \<ge> k. \<not> interrupted (answers i)"
proof (rule apc_fcntl_call.raw_induct [where P = "\<lambda>answers k r. \<exists>i \<ge> k. \<not> interrupted (answers i)", OF _ assms])
  fix f :: "(nat \<Rightarrow> int \<times> int) \<Rightarrow> nat \<Rightarrow> (int \<times> nat) option"
    and answers :: "nat \<Rightarrow> int \<times> int" and k :: nat and r :: "int \<times> nat"
  assume IH: "\<And>answers k r. f answers k = Some r \<Longrightarrow> \<exists>i \<ge> k. \<not> interrupted (answers i)"
    and step: "(let (ret, errno) = answers k in if ret < 0 \<and> errno = EINTR then f answers (k + 1) else Some (ret, k + 1)) = Some r"
  show "\<exists>i \<ge> k. \<not> interrupted (answers i)"
  proof (cases "interrupted (answers k)")
    case True
    with step have "f answers (k + 1) = Some r" by (auto simp: interrupted_def split: prod.splits)
    from IH [OF this] obtain i where "k + 1 \<le> i" "\<not> interrupted (answers i)" by blast
    then show ?thesis by (intro exI [of _ i] conjI) simp_all
  next
    case False
    then show ?thesis by (intro exI [of _ k] conjI order_refl)
  qed
qed

lemma fcntl_call_diverges:
  assumes "\<forall>i \<ge> k. interrupted (answers i)"
  shows "apc_fcntl_call answers k = None"
proof (cases "apc_fcntl_call answers k")
  case (Some r)
  obtain i where i: "k \<le> i" "\<not> interrupted (answers i)" using fcntl_call_answer [OF Some] by (elim exE conjE)
  have "interrupted (answers i)" using assms [rule_format, OF i(1)] .
  with i(2) show ?thesis by simp
qed

end
