(* ===== verification/Apc_Sma_Segment.thy ===== *)
theory Apc_Sma_Segment imports Apc_Lock begin

text \<open>
  \<open>apc_sma.c\<close>, one segment: the block headers kept inside shared memory, the free list
  threaded through them, \<open>find_block\<close>, \<open>sma_allocate\<close> and \<open>sma_deallocate\<close>.

  The segment's memory is a store from offsets to block headers: \<open>BLOCKAT(off)\<close> is the cell at
  \<open>off\<close>, \<open>OFFSET\<close> of a block is the offset itself, so a \<open>block_t*\<close> of the source is an offset
  here. Two headers whose bytes overlap at different offsets are not identified with each
  other; the invariant proved in the next theory keeps all headers in use disjoint. The bytes
  between headers belong to the users of the allocator and are not part of the store.
\<close>

section \<open>Layout constants\<close>

text \<open>\<open>sizeof(apc_word_t)\<close>: a union of pointer, int, long, double, function pointer.\<close>

definition SIZEOF_WORD :: nat where "SIZEOF_WORD = 8"

definition ALIGNSIZE :: "nat \<Rightarrow> nat \<Rightarrow> nat" where
  "ALIGNSIZE x sz = sz_mul sz (sz_add 1 (sz_sub x 1 div sz))"

definition ALIGNWORD :: "nat \<Rightarrow> nat" where
  "ALIGNWORD x = ALIGNSIZE x SIZEOF_WORD"

record block_t =
  blk_size :: nat
  prev_size :: nat
  fnext :: nat
  fprev :: nat

definition SIZEOF_BLOCK :: nat where "SIZEOF_BLOCK = 32"

text \<open>\<open>sizeof(sma_header_t)\<close>: a 40-byte \<open>pthread_mutex_t\<close> and two \<open>size_t\<close>.\<close>

record sma_header_t =
  sma_lock :: apc_mutex_t
  segsize :: nat
  avail :: nat

definition SIZEOF_SMA_HEADER :: nat where "SIZEOF_SMA_HEADER = 56"

definition MINBLOCKSIZE :: nat where
  "MINBLOCKSIZE = sz_add (ALIGNWORD 1) (ALIGNWORD SIZEOF_BLOCK)"

definition BEST_FIT_LIMIT :: nat where "BEST_FIT_LIMIT = 3"

definition FIRST_BLOCK :: nat where "FIRST_BLOCK = ALIGNWORD SIZEOF_SMA_HEADER"

record sma_seg =
  seg_header :: sma_header_t
  seg_blk :: "nat \<Rightarrow> block_t"

section \<open>Accessors\<close>

definition NEXT_SBLOCK :: "sma_seg \<Rightarrow> nat \<Rightarrow> nat" where
  "NEXT_SBLOCK sg b = b + blk_size (seg_blk sg b)"

text \<open>\<open>NULL\<close> when the previous block is allocated.\<close>

definition PREV_SBLOCK :: "sma_seg \<Rightarrow> nat \<Rightarrow> nat option" where
  "PREV_SBLOCK sg b =
     (if prev_size (seg_blk sg b) \<noteq> 0 then Some (b - prev_size (seg_blk sg b)) else None)"

definition upd_blk :: "nat \<Rightarrow> (block_t \<Rightarrow> block_t) \<Rightarrow> sma_seg \<Rightarrow> sma_seg" where
  "upd_blk b f sg = sg\<lparr>seg_blk := (seg_blk sg)(b := f (seg_blk sg b))\<rparr>"

abbreviation set_size :: "nat \<Rightarrow> nat \<Rightarrow> sma_seg \<Rightarrow> sma_seg" where
  "set_size b v \<equiv> upd_blk b (\<lambda>k. k\<lparr>blk_size := v\<rparr>)"

abbreviation set_prev_size :: "nat \<Rightarrow> nat \<Rightarrow> sma_seg \<Rightarrow> sma_seg" where
  "set_prev_size b v \<equiv> upd_blk b (\<lambda>k. k\<lparr>prev_size := v\<rparr>)"

abbreviation set_fnext :: "nat \<Rightarrow> nat \<Rightarrow> sma_seg \<Rightarrow> sma_seg" where
  "set_fnext b v \<equiv> upd_blk b (\<lambda>k. k\<lparr>fnext := v\<rparr>)"

abbreviation set_fprev :: "nat \<Rightarrow> nat \<Rightarrow> sma_seg \<Rightarrow> sma_seg" where
  "set_fprev b v \<equiv> upd_blk b (\<lambda>k. k\<lparr>fprev := v\<rparr>)"

definition set_avail :: "nat \<Rightarrow> sma_seg \<Rightarrow> sma_seg" where
  "set_avail v sg = sg\<lparr>seg_header := (seg_header sg)\<lparr>avail := v\<rparr>\<rparr>"

section \<open>find_block\<close>

text \<open>
  The first loop follows \<open>fnext\<close> until a block is large enough. On a free list with a cycle it
  would not end, so it is a partial function; the inner option is the source's \<open>found\<close>.
\<close>

partial_function (option) find_fit :: "sma_seg \<Rightarrow> nat \<Rightarrow> nat \<Rightarrow> nat option option" where
  "find_fit sg realsize prv =
     (if fnext (seg_blk sg prv) = 0 then Some None
      else if blk_size (seg_blk sg (fnext (seg_blk sg prv))) \<ge> realsize
      then Some (Some (fnext (seg_blk sg prv)))
      else find_fit sg realsize (fnext (seg_blk sg prv)))"

text \<open>The second loop looks at up to \<open>BEST_FIT_LIMIT\<close> further blocks for a tighter fit.\<close>

primrec find_better :: "sma_seg \<Rightarrow> nat \<Rightarrow> nat \<Rightarrow> nat \<Rightarrow> nat \<Rightarrow> nat" where
  "find_better sg realsize 0 prv found = found"
| "find_better sg realsize (Suc i) prv found =
     (if fnext (seg_blk sg prv) \<noteq> 0
      then let cur = fnext (seg_blk sg prv) in
        find_better sg realsize i cur
          (if blk_size (seg_blk sg cur) \<ge> realsize \<and>
              blk_size (seg_blk sg cur) < blk_size (seg_blk sg found)
           then cur else found)
      else found)"

definition find_block :: "sma_seg \<Rightarrow> nat \<Rightarrow> nat option option" where
  "find_block sg realsize = do {
     found \<leftarrow> find_fit sg realsize FIRST_BLOCK;
     (case found of
        None \<Rightarrow> Some None
      | Some cur \<Rightarrow> Some (Some (find_better sg realsize BEST_FIT_LIMIT cur cur)))
   }"

section \<open>sma_allocate\<close>

text \<open>
  The result is (return value, \<open>*allocated\<close>, segment); \<open>allocated\<close> keeps its old value on
  failure. The two branches are the two branches of the source; they share the code after it.
\<close>

definition sma_unlink_whole :: "nat \<Rightarrow> sma_seg \<Rightarrow> sma_seg" where
  "sma_unlink_whole cur sg =
     (let prv = fprev (seg_blk sg cur);
          sg1 = set_fnext prv (fnext (seg_blk sg cur)) sg;
          sg2 = set_fprev (fnext (seg_blk sg1 cur)) prv sg1
      in set_prev_size (NEXT_SBLOCK sg2 cur) 0 sg2)"

definition sma_split :: "nat \<Rightarrow> nat \<Rightarrow> sma_seg \<Rightarrow> sma_seg" where
  "sma_split cur realsize sg =
     (let oldsize = blk_size (seg_blk sg cur);
          sg1 = set_size cur realsize sg;
          nxt = NEXT_SBLOCK sg1 cur;
          sg2 = set_prev_size nxt 0 sg1;
          sg3 = set_size nxt (sz_sub oldsize realsize) sg2;
          sg4 = set_prev_size (NEXT_SBLOCK sg3 nxt) (blk_size (seg_blk sg3 nxt)) sg3;
          sg5 = set_fnext nxt (fnext (seg_blk sg4 cur)) sg4;
          sg6 = set_fprev nxt (fprev (seg_blk sg5 cur)) sg5;
          sg7 = set_fprev (fnext (seg_blk sg6 nxt)) nxt sg6
      in set_fnext (fprev (seg_blk sg7 nxt)) nxt sg7)"

definition sma_allocate :: "sma_seg \<Rightarrow> nat \<Rightarrow> nat \<Rightarrow> nat \<Rightarrow> (nat \<times> nat \<times> sma_seg) option" where
  "sma_allocate sg n fragment allocated = do {
     let block_size = ALIGNWORD SIZEOF_BLOCK;
     let realsize = ALIGNWORD (sz_add n block_size);
     if avail (seg_header sg) < realsize then Some (SIZE_MAX, allocated, sg)
     else do {
       found \<leftarrow> find_block sg realsize;
       (case found of
          None \<Rightarrow> Some (SIZE_MAX, allocated, sg)
        | Some cur \<Rightarrow>
            (let csize = blk_size (seg_blk sg cur);
                 fits = (csize = realsize \<or>
                         csize > realsize \<and> csize < sz_add realsize (sz_add MINBLOCKSIZE fragment));
                 allocated' = sz_sub (if fits then csize else realsize) block_size;
                 sg1 = (if fits then sma_unlink_whole cur sg else sma_split cur realsize sg);
                 sg2 = set_fnext cur 0 sg1;
                 sg3 = set_avail (sz_sub (avail (seg_header sg2)) (blk_size (seg_blk sg2 cur))) sg2
             in Some (sz_add cur block_size, allocated', sg3)))
     }
   }"

section \<open>sma_deallocate\<close>

definition sma_unlink :: "nat \<Rightarrow> sma_seg \<Rightarrow> sma_seg" where
  "sma_unlink b sg =
     (let sg1 = set_fprev (fnext (seg_blk sg b)) (fprev (seg_blk sg b)) sg
      in set_fnext (fprev (seg_blk sg1 b)) (fnext (seg_blk sg1 b)) sg1)"

text \<open>Merge with a free block in front: the result is the block that now starts the area.\<close>

definition sma_merge_prev :: "nat \<Rightarrow> sma_seg \<Rightarrow> nat \<times> sma_seg" where
  "sma_merge_prev cur sg =
     (case PREV_SBLOCK sg cur of
        None \<Rightarrow> (cur, sg)
      | Some prv \<Rightarrow>
          (let sg1 = sma_unlink prv sg
           in (prv, set_size prv (sz_add (blk_size (seg_blk sg1 prv)) (blk_size (seg_blk sg1 cur))) sg1)))"

definition sma_merge_next :: "nat \<Rightarrow> sma_seg \<Rightarrow> sma_seg option" where
  "sma_merge_next cur sg =
     (let nxt = NEXT_SBLOCK sg cur
      in if fnext (seg_blk sg nxt) \<noteq> 0
         then do {
           assert_c (prev_size (seg_blk sg (NEXT_SBLOCK sg nxt)) = blk_size (seg_blk sg nxt));
           let sg1 = sma_unlink nxt sg;
           Some (set_size cur (sz_add (blk_size (seg_blk sg1 cur)) (blk_size (seg_blk sg1 nxt))) sg1)
         }
         else Some sg)"

definition sma_insert_free :: "nat \<Rightarrow> sma_seg \<Rightarrow> sma_seg" where
  "sma_insert_free cur sg =
     (let sg1 = set_prev_size (NEXT_SBLOCK sg cur) (blk_size (seg_blk sg cur)) sg;
          prv = FIRST_BLOCK;
          sg2 = set_fnext cur (fnext (seg_blk sg1 prv)) sg1;
          sg3 = set_fnext prv cur sg2;
          sg4 = set_fprev cur prv sg3
      in set_fprev (fnext (seg_blk sg4 cur)) cur sg4)"

definition sma_deallocate :: "sma_seg \<Rightarrow> nat \<Rightarrow> (nat \<times> sma_seg) option" where
  "sma_deallocate sg offset = do {
     assert_c (offset \<ge> ALIGNWORD SIZEOF_BLOCK);
     let cur = offset - ALIGNWORD SIZEOF_BLOCK;
     let sg1 = set_avail (sz_add (avail (seg_header sg)) (blk_size (seg_blk sg cur))) sg;
     let n = blk_size (seg_blk sg1 cur);
     let (cur2, sg2) = sma_merge_prev cur sg1;
     sg3 \<leftarrow> sma_merge_next cur2 sg2;
     Some (n, sma_insert_free cur2 sg3)
   }"

section \<open>Formatting a segment\<close>

text \<open>
  The body of the loop of \<open>apc_sma_init\<close> that writes the header and the three initial blocks
  into a freshly mapped segment of \<open>n\<close> bytes.
\<close>

definition sma_format :: "nat \<Rightarrow> apc_mutex_t \<Rightarrow> sma_seg \<Rightarrow> sma_seg" where
  "sma_format n lock sg =
     (let hdr = ALIGNWORD SIZEOF_SMA_HEADER;
          blk = ALIGNWORD SIZEOF_BLOCK;
          av = sz_sub (sz_sub (sz_sub n hdr) blk) blk;
          sg0 = sg\<lparr>seg_header := \<lparr>sma_lock = lock, segsize = n, avail = av\<rparr>\<rparr>;
          first = hdr;
          sg1 = upd_blk first (\<lambda>_. \<lparr>blk_size = 0, prev_size = 0, fnext = sz_add hdr blk, fprev = 0\<rparr>) sg0;
          empty = fnext (seg_blk sg1 first);
          esize = sz_sub (avail (seg_header sg1)) blk;
          sg2 = upd_blk empty (\<lambda>_. \<lparr>blk_size = esize, prev_size = 0, fnext = sz_add empty esize, fprev = hdr\<rparr>) sg1;
          lst = fnext (seg_blk sg2 empty)
      in upd_blk lst (\<lambda>_. \<lparr>blk_size = 0, prev_size = blk_size (seg_blk sg2 empty), fnext = 0, fprev = empty\<rparr>) sg2)"

lemma layout_constants [simp]:
  "ALIGNWORD SIZEOF_BLOCK = 32" "FIRST_BLOCK = 56" "ALIGNWORD SIZEOF_SMA_HEADER = 56"
  "MINBLOCKSIZE = 40" "BEST_FIT_LIMIT = 3"
  by (simp_all add: ALIGNWORD_def ALIGNSIZE_def SIZEOF_WORD_def SIZEOF_BLOCK_def FIRST_BLOCK_def
      SIZEOF_SMA_HEADER_def MINBLOCKSIZE_def BEST_FIT_LIMIT_def sz_add_def sz_sub_def sz_mul_def
      SIZE_LIMIT_def)

end
