(* ===== verification/Apc_Mmap.thy ===== *)
theory Apc_Mmap imports Apc_Sma_Segment begin

text \<open>
  \<open>apc_mmap.c\<close> and \<open>apc_shm.c\<close>: where the segments come from. The operating system is a
  record of what the process holds of it (descriptors, files with a name, mappings, System V
  segments, warnings printed); the answers of its calls are inputs, collected in a record.
  \<open>zend_error_noreturn\<close> ends the process: it is \<open>Inl\<close> with the message. The code under
  \<open>APC_MEMPROTECT\<close>, which the repository's configuration leaves out, is in \<open>Apc_Sma_Protect\<close>.
\<close>

section \<open>Operating system\<close>

record os_state =
  os_fds :: "int list"
  os_files :: "string list"
  os_maps :: "(nat \<times> nat) list"
  os_shm :: "(int \<times> bool) list"
  os_warnings :: "string list"

record mm_sys =
  sys_open :: int
  sys_mkstemp :: "string \<Rightarrow> int \<times> string"
  sys_ftruncate :: int
  sys_mmap :: "nat \<Rightarrow> nat option"

definition close_fd :: "int \<Rightarrow> os_state \<Rightarrow> os_state" where
  "close_fd fd os = os\<lparr>os_fds := remove1 fd (os_fds os)\<rparr>"

definition unlink_file :: "string \<Rightarrow> os_state \<Rightarrow> os_state" where
  "unlink_file f os = os\<lparr>os_files := remove1 f (os_files os)\<rparr>"

definition apc_warning :: "string \<Rightarrow> os_state \<Rightarrow> os_state" where
  "apc_warning w os = os\<lparr>os_warnings := w # os_warnings os\<rparr>"

section \<open>Segments\<close>

text \<open>\<open>seg_mem\<close> is the memory behind \<open>shmaddr\<close>; a fresh mapping reads as zero.\<close>

record apc_segment_t =
  seg_size :: nat
  shmaddr :: nat
  seg_mem :: sma_seg

definition zero_mem :: sma_seg where
  "zero_mem = \<lparr>seg_header = \<lparr>sma_lock = \<lparr>mx_broken = True, mx_held = False\<rparr>, segsize = 0, avail = 0\<rparr>,
     seg_blk = (\<lambda>_. \<lparr>blk_size = 0, prev_size = 0, fnext = 0, fprev = 0\<rparr>)\<rparr>"

section \<open>apc_mmap\<close>

text \<open>
  The first step opens the backing file, the second maps it. \<open>mkstemp\<close> overwrites the caller's
  mask with the name it chose; the mask is therefore part of the result.
\<close>

definition mmap_backing ::
  "mm_sys \<Rightarrow> string option \<Rightarrow> os_state \<Rightarrow> (string + int \<times> string option) \<times> os_state" where
  "mmap_backing sys file_mask os =
     (case file_mask of
        None \<Rightarrow> (Inr (-1, file_mask), os)
      | Some m \<Rightarrow>
          if m = [] then (Inr (-1, file_mask), os)
          else if m = ''/dev/zero''
          then (if sys_open sys = -1 then (Inl ''apc_mmap: open on /dev/zero failed'', os)
                else (Inr (sys_open sys, file_mask), os\<lparr>os_fds := sys_open sys # os_fds os\<rparr>))
          else (let (fd, name) = sys_mkstemp sys m in
                if fd = -1 then (Inl ''apc_mmap: mkstemp failed'', os)
                else (let os1 = os\<lparr>os_fds := fd # os_fds os, os_files := name # os_files os\<rparr> in
                      if sys_ftruncate sys < 0
                      then (Inl ''apc_mmap: ftruncate failed'', unlink_file name (close_fd fd os1))
                      else (Inr (fd, Some name), unlink_file name os1))))"

definition apc_mmap ::
  "mm_sys \<Rightarrow> string option \<Rightarrow> nat \<Rightarrow> os_state \<Rightarrow> (string + apc_segment_t \<times> string option) \<times> os_state" where
  "apc_mmap sys file_mask sz os =
     (case mmap_backing sys file_mask os of
        (Inl e, os1) \<Rightarrow> (Inl e, os1)
      | (Inr (fd, msk), os1) \<Rightarrow>
          (case sys_mmap sys sz of
             None \<Rightarrow> (Inl ''apc_mmap: Failed to mmap bytes. Is your apc.shm_size too large?'', os1)
           | Some a \<Rightarrow>
               (let os2 = os1\<lparr>os_maps := (a, sz) # os_maps os1\<rparr>
                in (Inr (\<lparr>seg_size = sz, shmaddr = a, seg_mem = zero_mem\<rparr>, msk),
                    if fd \<noteq> -1 then close_fd fd os2 else os2))))"

text \<open>\<open>munmap_result\<close> is what \<open>munmap\<close> answers; only a successful call removes the mapping.\<close>

definition apc_unmap :: "int \<Rightarrow> apc_segment_t \<Rightarrow> os_state \<Rightarrow> os_state" where
  "apc_unmap munmap_result seg os =
     (if munmap_result < 0 then apc_warning ''apc_unmap: munmap failed'' os
      else os\<lparr>os_maps := remove1 (shmaddr seg, seg_size seg) (os_maps os)\<rparr>)"

section \<open>System V shared memory\<close>

definition apc_shm_create :: "int \<Rightarrow> os_state \<Rightarrow> (string + int) \<times> os_state" where
  "apc_shm_create shmget_result os =
     (if shmget_result < 0 then (Inl ''apc_shm_create: shmget failed'', os)
      else (Inr shmget_result, os\<lparr>os_shm := (shmget_result, False) # os_shm os\<rparr>))"

definition apc_shm_destroy :: "int \<Rightarrow> os_state \<Rightarrow> os_state" where
  "apc_shm_destroy shmid os =
     os\<lparr>os_shm := map (\<lambda>(i, r). (i, r \<or> i = shmid)) (os_shm os)\<rparr>"

definition apc_shm_attach :: "nat option \<Rightarrow> int \<Rightarrow> nat \<Rightarrow> os_state \<Rightarrow> (string + apc_segment_t) \<times> os_state" where
  "apc_shm_attach shmat_result shmid sz os =
     (case shmat_result of
        None \<Rightarrow> (Inl ''apc_shm_attach: shmat failed:'', os)
      | Some a \<Rightarrow>
          (Inr \<lparr>seg_size = sz, shmaddr = a, seg_mem = zero_mem\<rparr>,
           apc_shm_destroy shmid (os\<lparr>os_maps := (a, sz) # os_maps os\<rparr>)))"

definition apc_shm_detach :: "int \<Rightarrow> apc_segment_t \<Rightarrow> os_state \<Rightarrow> os_state" where
  "apc_shm_detach shmdt_result seg os =
     (if shmdt_result < 0 then apc_warning ''apc_shm_detach: shmdt failed:'' os
      else os\<lparr>os_maps := remove1 (shmaddr seg, seg_size seg) (os_maps os)\<rparr>)"

section \<open>What the segment sources promise\<close>

lemmas os_defs = close_fd_def unlink_file_def apc_warning_def mmap_backing_def apc_mmap_def
  apc_unmap_def apc_shm_create_def apc_shm_destroy_def apc_shm_attach_def apc_shm_detach_def

text \<open>
  The part of both sources \<open>apc_sma_init\<close> and \<open>apc_sma_detach\<close> use: a segment of the size asked
  for, mapped once, nothing else left behind, and given back by the detaching call.
\<close>

locale segment_source =
  fixes attach :: "nat \<Rightarrow> os_state \<Rightarrow> (string + apc_segment_t) \<times> os_state"
    and detach :: "apc_segment_t \<Rightarrow> os_state \<Rightarrow> os_state"
    and rest :: "os_state \<Rightarrow> 'r"
  assumes attached: "attach n os = (Inr sg, os') \<Longrightarrow>
      seg_size sg = n \<and> os_maps os' = (shmaddr sg, n) # os_maps os \<and> rest os' = rest os"
    and detached: "os_maps (detach sg os) = remove1 (shmaddr sg, seg_size sg) (os_maps os)"
    and detached_rest: "rest (detach sg os) = rest os"
begin

lemma attach_detach:
  assumes "attach n os = (Inr sg, os')"
  shows "os_maps (detach sg os') = os_maps os \<and> rest (detach sg os') = rest os"
  using attached [OF assms] detached detached_rest by simp

text \<open>Attaching several segments in a row and detaching them in the same order.\<close>

primrec attach_many :: "nat \<Rightarrow> nat \<Rightarrow> os_state \<Rightarrow> (string + apc_segment_t list) \<times> os_state" where
  "attach_many 0 n os = (Inr [], os)"
| "attach_many (Suc k) n os =
     (case attach n os of
        (Inl e, os1) \<Rightarrow> (Inl e, os1)
      | (Inr sg, os1) \<Rightarrow>
          (case attach_many k n os1 of
             (Inl e, os2) \<Rightarrow> (Inl e, os2)
           | (Inr sgs, os2) \<Rightarrow> (Inr (sg # sgs), os2)))"

lemma attach_many_maps:
  "attach_many k n os = (Inr sgs, os') \<Longrightarrow>
     length sgs = k \<and> (\<forall>sg \<in> set sgs. seg_size sg = n) \<and>
     os_maps os' = rev (map (\<lambda>sg. (shmaddr sg, n)) sgs) @ os_maps os \<and> rest os' = rest os"
proof (induction k arbitrary: os sgs)
  case (Suc k)
  from Suc.prems obtain sg os1 sgs1 where a: "attach n os = (Inr sg, os1)"
    and b: "attach_many k n os1 = (Inr sgs1, os')" and s: "sgs = sg # sgs1"
    by (auto split: prod.splits sum.splits)
  from Suc.IH [OF b] attached [OF a] s show ?case by simp
qed simp

end

definition os_rest :: "os_state \<Rightarrow> int list \<times> string list" where
  "os_rest os = (os_fds os, os_files os)"

lemma mmap_backing_leaves:
  assumes "mmap_backing sys m os = (Inr (fd, msk), os1)"
  shows "os_maps os1 = os_maps os \<and> os_files os1 = os_files os \<and>
    os_fds os1 = (if fd = -1 then os_fds os else fd # os_fds os)"
  using assms by (auto simp: os_defs Let_def split: option.splits if_splits prod.splits)

lemma apc_mmap_leaves:
  assumes "apc_mmap sys m n os = (Inr (sg, msk), os')"
  shows "seg_size sg = n \<and> os_maps os' = (shmaddr sg, n) # os_maps os \<and> os_rest os' = os_rest os"
proof -
  obtain fd a os1 where b: "mmap_backing sys m os = (Inr (fd, msk), os1)"
    and r: "sg = \<lparr>seg_size = n, shmaddr = a, seg_mem = zero_mem\<rparr>"
    and o': "os' = (if fd \<noteq> -1 then close_fd fd (os1\<lparr>os_maps := (a, n) # os_maps os1\<rparr>)
                    else os1\<lparr>os_maps := (a, n) # os_maps os1\<rparr>)"
    using assms by (auto simp: apc_mmap_def Let_def split: prod.splits sum.splits option.splits)
  show ?thesis using mmap_backing_leaves [OF b] by (simp add: r o' close_fd_def os_rest_def)
qed

definition mmap_attach ::
  "mm_sys \<Rightarrow> string option \<Rightarrow> nat \<Rightarrow> os_state \<Rightarrow> (string + apc_segment_t) \<times> os_state" where
  "mmap_attach sys m n os = map_prod (map_sum id fst) id (apc_mmap sys m n os)"

definition shm_attach ::
  "int \<Rightarrow> nat option \<Rightarrow> nat \<Rightarrow> os_state \<Rightarrow> (string + apc_segment_t) \<times> os_state" where
  "shm_attach get att n os =
     (case apc_shm_create get os of
        (Inl e, os1) \<Rightarrow> (Inl e, os1)
      | (Inr j, os1) \<Rightarrow> apc_shm_attach att j n os1)"

interpretation mmap_source: segment_source "mmap_attach sys m" "apc_unmap 0" os_rest
proof
  show "seg_size sg = n \<and> os_maps os' = (shmaddr sg, n) # os_maps os \<and> os_rest os' = os_rest os"
    if a: "mmap_attach sys m n os = (Inr sg, os')" for n os sg os'
  proof -
    obtain r where e: "apc_mmap sys m n os = (r, os')" "map_sum id fst r = Inr sg"
      using a by (cases "apc_mmap sys m n os") (auto simp: mmap_attach_def)
    then obtain msk where "r = Inr (sg, msk)" by (cases r) auto
    with e show ?thesis by (auto dest: apc_mmap_leaves)
  qed
qed (simp_all add: apc_unmap_def os_rest_def)

interpretation shm_source: segment_source "shm_attach get att" "apc_shm_detach 0" os_rest
  by unfold_locales
    (auto simp: shm_attach_def os_defs os_rest_def split: if_splits option.splits)

end
