(* ===== verification/Apc_Sma_Inv.thy ===== *)
theory Apc_Sma_Inv imports Apc_Sma_Segment begin

text \<open>
  What a well-formed segment is, as predicates over the four fields of the block headers:
  the blocks tile the segment (\<open>tiles\<close>), the free list is doubly linked between the two
  sentinels (\<open>dll\<close>) and holds exactly the free blocks of the tiling, no two free blocks are
  adjacent (\<open>noadj\<close>), and \<open>avail\<close> accounts for the free bytes. A tiling is a list of
  (size, is free) in address order, starting at offset 88, behind the header and the first
  sentinel.
\<close>

section \<open>The fields of the block headers as functions of the offset\<close>

definition bsz :: "sma_seg \<Rightarrow> nat \<Rightarrow> nat" where "bsz sg x = blk_size (seg_blk sg x)"
definition bpv :: "sma_seg \<Rightarrow> nat \<Rightarrow> nat" where "bpv sg x = prev_size (seg_blk sg x)"
definition bfn :: "sma_seg \<Rightarrow> nat \<Rightarrow> nat" where "bfn sg x = fnext (seg_blk sg x)"
definition bfp :: "sma_seg \<Rightarrow> nat \<Rightarrow> nat" where "bfp sg x = fprev (seg_blk sg x)"

lemmas field_defs = bsz_def bpv_def bfn_def bfp_def

lemmas field_folds = bsz_def [symmetric] bpv_def [symmetric] bfn_def [symmetric] bfp_def [symmetric]

lemma fields_set_size [simp]:
  "bsz (set_size b v sg) = (bsz sg)(b := v)" "bpv (set_size b v sg) = bpv sg"
  "bfn (set_size b v sg) = bfn sg" "bfp (set_size b v sg) = bfp sg"
  by (auto simp: field_defs upd_blk_def)

lemma fields_set_prev_size [simp]:
  "bsz (set_prev_size b v sg) = bsz sg" "bpv (set_prev_size b v sg) = (bpv sg)(b := v)"
  "bfn (set_prev_size b v sg) = bfn sg" "bfp (set_prev_size b v sg) = bfp sg"
  by (auto simp: field_defs upd_blk_def)

lemma fields_set_fnext [simp]:
  "bsz (set_fnext b v sg) = bsz sg" "bpv (set_fnext b v sg) = bpv sg"
  "bfn (set_fnext b v sg) = (bfn sg)(b := v)" "bfp (set_fnext b v sg) = bfp sg"
  by (auto simp: field_defs upd_blk_def)

lemma fields_set_fprev [simp]:
  "bsz (set_fprev b v sg) = bsz sg" "bpv (set_fprev b v sg) = bpv sg"
  "bfn (set_fprev b v sg) = bfn sg" "bfp (set_fprev b v sg) = (bfp sg)(b := v)"
  by (auto simp: field_defs upd_blk_def)

lemma fields_set_avail [simp]:
  "bsz (set_avail v sg) = bsz sg" "bpv (set_avail v sg) = bpv sg"
  "bfn (set_avail v sg) = bfn sg" "bfp (set_avail v sg) = bfp sg"
  by (auto simp: field_defs set_avail_def)

lemma header_upd_blk [simp]: "seg_header (upd_blk b f sg) = seg_header sg"
  by (simp add: upd_blk_def)

lemma header_set_avail [simp]:
  "avail (seg_header (set_avail v sg)) = v" "segsize (seg_header (set_avail v sg)) = segsize (seg_header sg)"
  "sma_lock (seg_header (set_avail v sg)) = sma_lock (seg_header sg)"
  by (simp_all add: set_avail_def)

section \<open>Tilings\<close>

type_synonym tiling = "(nat \<times> bool) list"

definition span :: "tiling \<Rightarrow> nat" where
  "span bs = sum_list (map fst bs)"

lemma span_simps [simp]:
  "span [] = 0" "span ((s, f) # bs) = s + span bs" "span (xs @ ys) = span xs + span ys"
  by (simp_all add: span_def)

text \<open>What \<open>prev_size\<close> must be behind a list of blocks that starts behind one with \<open>p\<close>.\<close>

fun lastp :: "nat \<Rightarrow> tiling \<Rightarrow> nat" where
  "lastp p [] = p"
| "lastp p ((s, f) # bs) = lastp (if f then s else 0) bs"

lemma lastp_snoc [simp]: "lastp p (bs @ [(s, f)]) = (if f then s else 0)"
  by (induction p bs rule: lastp.induct) auto

fun tpre :: "(nat \<Rightarrow> nat) \<Rightarrow> (nat \<Rightarrow> nat) \<Rightarrow> (nat \<Rightarrow> nat) \<Rightarrow> nat \<Rightarrow> nat \<Rightarrow> tiling \<Rightarrow> bool" where
  "tpre S P N a p [] \<longleftrightarrow> True"
| "tpre S P N a p ((s, f) # bs) \<longleftrightarrow>
     S a = s \<and> P a = p \<and> (N a \<noteq> 0) = f \<and> 32 \<le> s \<and> tpre S P N (a + s) (if f then s else 0) bs"

fun tiles :: "(nat \<Rightarrow> nat) \<Rightarrow> (nat \<Rightarrow> nat) \<Rightarrow> (nat \<Rightarrow> nat) \<Rightarrow> nat \<Rightarrow> nat \<Rightarrow> tiling \<Rightarrow> bool" where
  "tiles S P N a p [] \<longleftrightarrow> S a = 0 \<and> P a = p \<and> N a = 0"
| "tiles S P N a p ((s, f) # bs) \<longleftrightarrow>
     S a = s \<and> P a = p \<and> (N a \<noteq> 0) = f \<and> 32 \<le> s \<and> tiles S P N (a + s) (if f then s else 0) bs"

lemma tiles_append:
  "tiles S P N a p (xs @ ys) \<longleftrightarrow> tpre S P N a p xs \<and> tiles S P N (a + span xs) (lastp p xs) ys"
  by (induction S P N a p xs rule: tpre.induct) (auto simp: add.assoc)

lemma tpre_append:
  "tpre S P N a p (xs @ ys) \<longleftrightarrow> tpre S P N a p xs \<and> tpre S P N (a + span xs) (lastp p xs) ys"
  by (induction S P N a p xs rule: tpre.induct) (auto simp: add.assoc)

lemma tpre_cong:
  assumes "\<And>x. a \<le> x \<Longrightarrow> x < a + span bs \<Longrightarrow> S' x = S x \<and> P' x = P x \<and> (N' x = 0) = (N x = 0)"
  shows "tpre S P N a p bs \<Longrightarrow> tpre S' P' N' a p bs"
  using assms
proof (induction bs arbitrary: a p)
  case Nil
  then show ?case by simp
next
  case (Cons b bs)
  obtain s f where b [simp]: "b = (s, f)" by (cases b)
  have s: "32 \<le> s" using Cons.prems(1) by simp
  have "tpre S' P' N' (a + s) (if f then s else 0) bs"
    using Cons.prems s by (intro Cons.IH) auto
  then show ?case using Cons.prems(1) Cons.prems(2) [of a] s by auto
qed

lemma tiles_cong:
  assumes "\<And>x. a \<le> x \<Longrightarrow> x \<le> a + span bs \<Longrightarrow> S' x = S x \<and> P' x = P x \<and> (N' x = 0) = (N x = 0)"
  shows "tiles S P N a p bs \<Longrightarrow> tiles S' P' N' a p bs"
  using assms
proof (induction bs arbitrary: a p)
  case Nil
  then show ?case by force
next
  case (Cons b bs)
  obtain s f where b [simp]: "b = (s, f)" by (cases b)
  have s: "32 \<le> s" using Cons.prems(1) by simp
  have "tiles S' P' N' (a + s) (if f then s else 0) bs"
    using Cons.prems s by (intro Cons.IH) auto
  then show ?case using Cons.prems(1) Cons.prems(2) [of a] s by auto
qed

text \<open>Only the first header of a tiling depends on what lies in front of it.\<close>

lemma tiles_prev:
  assumes "tiles S P N a p bs"
  shows "tiles S (P(a := p')) N a p' bs"
proof (cases bs)
  case Nil
  with assms show ?thesis by simp
next
  case (Cons b bs')
  obtain s f where b: "b = (s, f)" by (cases b)
  have "tiles S P N (a + s) (if f then s else 0) bs'" "32 \<le> s" using assms Cons b by auto
  then have "tiles S (P(a := p')) N (a + s) (if f then s else 0) bs'"
    by (intro tiles_cong [of "a + s" bs' S S "P(a := p')" P N N]) auto
  with assms Cons b show ?thesis by simp
qed

lemma tiles_first: "tiles S P N a p bs \<Longrightarrow> P a = p"
  by (cases "(S, P, N, a, p, bs)" rule: tiles.cases) auto

lemma tiles_end: "tiles S P N a p bs \<Longrightarrow> S (a + span bs) = 0 \<and> N (a + span bs) = 0"
  by (induction S P N a p bs rule: tiles.induct) (auto simp: add.assoc)

fun frees :: "nat \<Rightarrow> tiling \<Rightarrow> nat list" where
  "frees a [] = []"
| "frees a ((s, f) # bs) = (if f then [a] else []) @ frees (a + s) bs"

fun lives :: "nat \<Rightarrow> tiling \<Rightarrow> (nat \<times> nat) list" where
  "lives a [] = []"
| "lives a ((s, f) # bs) = (if f then [] else [(a + 32, s - 32)]) @ lives (a + s) bs"

definition free_total :: "tiling \<Rightarrow> nat" where
  "free_total bs = sum_list (map fst (filter snd bs))"

lemma free_total_simps [simp]:
  "free_total [] = 0" "free_total ((s, f) # bs) = (if f then s else 0) + free_total bs"
  "free_total (xs @ ys) = free_total xs + free_total ys"
  by (simp_all add: free_total_def)

lemma free_total_le_span: "free_total bs \<le> span bs"
  by (induction bs) auto

lemma frees_append [simp]: "frees a (xs @ ys) = frees a xs @ frees (a + span xs) ys"
  by (induction a xs rule: frees.induct) (auto simp: add.assoc)

lemma lives_append [simp]: "lives a (xs @ ys) = lives a xs @ lives (a + span xs) ys"
  by (induction a xs rule: lives.induct) (auto simp: add.assoc)

lemma frees_range:
  assumes "tpre S P N a p bs" "x \<in> set (frees a bs)"
  shows "a \<le> x \<and> x + 32 \<le> a + span bs"
  using assms
proof (induction S P N a p bs rule: tpre.induct)
  case (2 S P N a p s f bs)
  then show ?case by (cases "x \<in> set (frees (a + s) bs)") (auto split: if_splits)
qed simp

lemma lives_range:
  assumes "tpre S P N a p bs" "(x, l) \<in> set (lives a bs)"
  shows "a + 32 \<le> x \<and> x + l \<le> a + span bs"
  using assms
proof (induction S P N a p bs rule: tpre.induct)
  case (2 S P N a p s f bs)
  then show ?case by (cases "(x, l) \<in> set (lives (a + s) bs)") (auto split: if_splits)
qed simp

lemma tiles_tpre: "tiles S P N a p bs \<Longrightarrow> tpre S P N a p bs"
  by (induction S P N a p bs rule: tiles.induct) auto

lemma distinct_frees: "tpre S P N a p bs \<Longrightarrow> distinct (frees a bs)"
proof (induction S P N a p bs rule: tpre.induct)
  case (2 S P N a p s f bs)
  then have "tpre S P N (a + s) (if f then s else 0) bs" "32 \<le> s" by auto
  then have "a \<notin> set (frees (a + s) bs)" using frees_range by fastforce
  with 2 show ?case by auto
qed simp

lemma frees_fnext: "tpre S P N a p bs \<Longrightarrow> x \<in> set (frees a bs) \<Longrightarrow> N x \<noteq> 0"
  by (induction S P N a p bs rule: tpre.induct) (auto split: if_splits)

text \<open>A free block of the tiling, found by its offset.\<close>

lemma frees_split:
  "x \<in> set (frees a bs) \<Longrightarrow> \<exists>pre s post. bs = pre @ (s, True) # post \<and> x = a + span pre"
proof (induction a bs rule: frees.induct)
  case (2 a s f bs)
  show ?case
  proof (cases "f \<and> x = a")
    case True
    then have "(s, f) # bs = [] @ (s, True) # bs \<and> x = a + span []" by simp
    then show ?thesis by blast
  next
    case False
    with 2 obtain pre t post where "bs = pre @ (t, True) # post" "x = a + s + span pre"
      by (auto split: if_splits)
    then have "(s, f) # bs = ((s, f) # pre) @ (t, True) # post \<and> x = a + span ((s, f) # pre)" by simp
    then show ?thesis by blast
  qed
qed simp

lemma lives_split:
  "(x, l) \<in> set (lives a bs) \<Longrightarrow>
   \<exists>pre s post. bs = pre @ (s, False) # post \<and> x = a + span pre + 32 \<and> l = s - 32"
proof (induction a bs rule: lives.induct)
  case (2 a s f bs)
  show ?case
  proof (cases "\<not> f \<and> (x, l) = (a + 32, s - 32)")
    case True
    then have "(s, f) # bs = [] @ (s, False) # bs \<and> x = a + span [] + 32 \<and> l = s - 32" by simp
    then show ?thesis by blast
  next
    case False
    with 2 obtain pre t post where "bs = pre @ (t, False) # post" "x = a + s + span pre + 32" "l = t - 32"
      by (auto split: if_splits)
    then have "(s, f) # bs = ((s, f) # pre) @ (t, False) # post \<and>
      x = a + span ((s, f) # pre) + 32 \<and> l = t - 32" by simp
    then show ?thesis by blast
  qed
qed simp

text \<open>Live blocks are pairwise disjoint.\<close>

lemma lives_disjoint:
  assumes "tpre S P N a p bs" "(x, l) \<in> set (lives a bs)" "(y, m) \<in> set (lives a bs)" "x \<noteq> y"
  shows "x + l + 32 \<le> y \<or> y + m + 32 \<le> x"
  using assms
proof (induction S P N a p bs rule: tpre.induct)
  case (2 S P N a p s f bs)
  then have r: "tpre S P N (a + s) (if f then s else 0) bs" "32 \<le> s" by auto
  have "(z, k) \<in> set (lives (a + s) bs) \<Longrightarrow> a + s + 32 \<le> z" for z k
    using lives_range [OF r(1)] by blast
  with 2 r show ?case by (fastforce split: if_splits)
qed simp

lemma lives_functional:
  assumes "tpre S P N a p bs" "(x, l) \<in> set (lives a bs)" "(x, m) \<in> set (lives a bs)"
  shows "l = m"
  using assms
proof (induction S P N a p bs rule: tpre.induct)
  case (2 S P N a p s f bs)
  then have r: "tpre S P N (a + s) (if f then s else 0) bs" "32 \<le> s" by auto
  have "(a + 32, k) \<notin> set (lives (a + s) bs)" for k
    using lives_range [OF r(1), of "a + 32" k] r(2) by auto
  with 2 r show ?case by (auto split: if_splits)
qed simp

fun noadj :: "tiling \<Rightarrow> bool" where
  "noadj ((s, f) # (t, g) # bs) \<longleftrightarrow> \<not> (f \<and> g) \<and> noadj ((t, g) # bs)"
| "noadj bs \<longleftrightarrow> True"

lemma noadj_append:
  "noadj (xs @ ys) \<longleftrightarrow>
     noadj xs \<and> noadj ys \<and> (xs \<noteq> [] \<longrightarrow> ys \<noteq> [] \<longrightarrow> \<not> (snd (last xs) \<and> snd (hd ys)))"
proof (induction xs rule: induct_list012)
  case (2 v)
  obtain s f where "v = (s, f)" by (cases v)
  then show ?case by (cases ys) auto
next
  case (3 x y zs)
  then show ?case by (cases x; cases y) auto
qed simp

lemma noadj_Cons: "noadj (b # bs) \<longleftrightarrow> noadj bs \<and> (bs \<noteq> [] \<longrightarrow> \<not> (snd b \<and> snd (hd bs)))"
  by (cases b; cases bs) auto

lemma noadj_alloc: "noadj (pre @ (s, f) # post) \<Longrightarrow> noadj (pre @ (t, False) # post)"
  by (simp add: noadj_append noadj_Cons)

section \<open>The doubly linked free list\<close>

fun dll :: "(nat \<Rightarrow> nat) \<Rightarrow> (nat \<Rightarrow> nat) \<Rightarrow> nat list \<Rightarrow> bool" where
  "dll N F (x # y # zs) \<longleftrightarrow> N x = y \<and> F y = x \<and> dll N F (y # zs)"
| "dll N F xs \<longleftrightarrow> True"

lemma in_set_tlD: "x \<in> set (tl xs) \<Longrightarrow> x \<in> set xs"
  by (cases xs) auto

lemma dll_append: "dll N F (xs @ a # ys) \<longleftrightarrow> dll N F (xs @ [a]) \<and> dll N F (a # ys)"
proof (induction xs)
  case Nil
  then show ?case by simp
next
  case (Cons x xs)
  then show ?case by (cases xs) auto
qed

lemma dll_cong:
  assumes "dll N F xs" "\<And>x. x \<in> set (butlast xs) \<Longrightarrow> N' x = N x"
    "\<And>x. x \<in> set (tl xs) \<Longrightarrow> F' x = F x"
  shows "dll N' F' xs"
  using assms
proof (induction xs)
  case Nil
  then show ?case by simp
next
  case (Cons x xs)
  show ?case
  proof (cases xs)
    case Nil
    then show ?thesis by simp
  next
    case (Cons y zs)
    have "dll N' F' xs"
      by (rule Cons.IH) (use Cons.prems Cons in \<open>auto dest: in_set_tlD\<close>)
    with Cons.prems Cons show ?thesis by auto
  qed
qed

text \<open>The neighbours of an inner element.\<close>

lemma dll_neighbours:
  assumes "dll N F (xs @ a # b # c # ys)"
  shows "F b = a" "N b = c" "N a = b" "F c = b"
  using assms dll_append [of N F xs a "b # c # ys"] by auto

lemma dll_left:
  assumes "dll N F (xs @ [a])" "\<forall>x \<in> set xs. N' x = N x" "\<forall>x \<in> insert a (set xs). F' x = F x"
  shows "dll N' F' (xs @ [a])"
  by (rule dll_cong [OF assms(1)]) (use assms(2,3) in \<open>auto dest!: in_set_tlD\<close>)

lemma dll_right:
  assumes "dll N F (c # ys)" "\<forall>x \<in> insert c (set ys). N' x = N x" "\<forall>x \<in> set ys. F' x = F x"
  shows "dll N' F' (c # ys)"
  by (rule dll_cong [OF assms(1)]) (use assms(2,3) in \<open>auto dest!: in_set_butlastD split: if_splits\<close>)

text \<open>
  Three edits of the list, each given by what the new link functions are at the places the
  edit touches.
\<close>

lemma dll_unlink:
  assumes "dll N F (xs @ a # b # c # ys)" "distinct (xs @ a # b # c # ys)"
    "\<forall>x. x \<notin> {a, b} \<longrightarrow> N' x = N x" "N' a = c" "\<forall>x. x \<notin> {b, c} \<longrightarrow> F' x = F x" "F' c = a"
  shows "dll N' F' (xs @ a # c # ys)"
proof -
  have d: "dll N F (xs @ [a])" "dll N F (c # ys)"
    using assms(1) dll_append [of N F xs a "b # c # ys"] by auto
  have nm: "\<forall>x \<in> set xs. x \<notin> {a, b, c}" "\<forall>x \<in> set ys. x \<notin> {a, b, c}" "c \<notin> {a, b}" "a \<notin> {b, c}"
    using assms(2) by auto
  have "dll N' F' (xs @ [a])"
    by (rule dll_left [OF d(1)]; use nm assms(3,5) in blast)
  moreover have "dll N' F' (c # ys)"
    by (rule dll_right [OF d(2)]; use nm assms(3,5) in blast)
  ultimately show ?thesis using assms(4,6) dll_append [of N' F' xs a "c # ys"] by simp
qed

lemma dll_replace:
  assumes "dll N F (xs @ a # b # c # ys)" "distinct (xs @ a # b # c # ys)" "d \<notin> set (xs @ a # c # ys)"
    "\<forall>x. x \<notin> {a, b, d} \<longrightarrow> N' x = N x" "N' a = d" "N' d = c"
    "\<forall>x. x \<notin> {b, c, d} \<longrightarrow> F' x = F x" "F' d = a" "F' c = d"
  shows "dll N' F' (xs @ a # d # c # ys)"
proof -
  have d: "dll N F (xs @ [a])" "dll N F (c # ys)"
    using assms(1) dll_append [of N F xs a "b # c # ys"] by auto
  have nm: "\<forall>x \<in> set xs. x \<notin> {a, b, c, d}" "\<forall>x \<in> set ys. x \<notin> {a, b, c, d}" "c \<notin> {a, b, d}" "a \<notin> {b, c, d}"
    using assms(2,3) by auto
  have "dll N' F' (xs @ [a])"
    by (rule dll_left [OF d(1)]; use nm assms(4,7) in blast)
  moreover have "dll N' F' (c # ys)"
    by (rule dll_right [OF d(2)]; use nm assms(4,7) in blast)
  ultimately show ?thesis using assms(5,6,8,9) dll_append [of N' F' xs a "d # c # ys"] by simp
qed

lemma dll_insert_front:
  assumes "dll N F (a # c # ys)" "distinct (a # c # ys)" "d \<notin> set (a # c # ys)"
    "\<forall>x. x \<notin> {a, d} \<longrightarrow> N' x = N x" "N' a = d" "N' d = c"
    "\<forall>x. x \<notin> {c, d} \<longrightarrow> F' x = F x" "F' d = a" "F' c = d"
  shows "dll N' F' (a # d # c # ys)"
proof -
  have d: "dll N F (c # ys)" using assms(1) by simp
  have nm: "\<forall>x \<in> set ys. x \<notin> {a, c, d}" "c \<notin> {a, d}"
    using assms(2,3) by auto
  have "dll N' F' (c # ys)"
    by (rule dll_right [OF d]; use nm assms(4,7) in blast)
  with assms show ?thesis by simp
qed

section \<open>Well-formed segments\<close>

definition seg_rep :: "sma_seg \<Rightarrow> tiling \<Rightarrow> nat list \<Rightarrow> bool" where
  "seg_rep sg bs fs \<longleftrightarrow>
     tiles (bsz sg) (bpv sg) (bfn sg) 88 0 bs \<and>
     dll (bfn sg) (bfp sg) (56 # fs @ [88 + span bs]) \<and>
     distinct fs \<and> set fs = set (frees 88 bs) \<and> noadj bs \<and>
     avail (seg_header sg) = 32 + free_total bs \<and>
     segsize (seg_header sg) = 152 + span bs \<and> segsize (seg_header sg) < SIZE_LIMIT"

definition seg_ok :: "sma_seg \<Rightarrow> bool" where
  "seg_ok sg \<longleftrightarrow> (\<exists>bs fs. seg_rep sg bs fs)"

lemma seg_repD:
  assumes "seg_rep sg bs fs"
  shows "tiles (bsz sg) (bpv sg) (bfn sg) 88 0 bs"
    "tpre (bsz sg) (bpv sg) (bfn sg) 88 0 bs"
    "dll (bfn sg) (bfp sg) (56 # fs @ [88 + span bs])"
    "distinct fs" "set fs = set (frees 88 bs)" "noadj bs"
    "avail (seg_header sg) = 32 + free_total bs"
    "segsize (seg_header sg) = 152 + span bs" "152 + span bs < SIZE_LIMIT"
  using assms by (auto simp: seg_rep_def intro: tiles_tpre)

lemma seg_rep_free_range:
  assumes "seg_rep sg bs fs" "x \<in> set fs"
  shows "88 \<le> x" "x + 32 \<le> 88 + span bs"
  using frees_range [OF seg_repD(2) [OF assms(1)]] seg_repD(5) [OF assms(1)] assms(2) by auto

lemma seg_rep_distinct:
  assumes "seg_rep sg bs fs"
  shows "distinct (56 # fs @ [88 + span bs])"
proof -
  have "56 \<notin> set fs" "88 + span bs \<notin> set fs"
    using seg_rep_free_range [OF assms, of 56] seg_rep_free_range [OF assms, of "88 + span bs"] by auto
  then show ?thesis using seg_repD(4) [OF assms] by simp
qed

text \<open>
  The blocks read off the memory by walking from header to header; a block of size 0 is the
  last sentinel. The walk has as much fuel as the segment has bytes; every block of a
  well-formed segment takes at least 32 of them, so it never runs out (\<open>seg_walk_tiles\<close>).
\<close>

primrec seg_walk :: "nat \<Rightarrow> sma_seg \<Rightarrow> nat \<Rightarrow> tiling" where
  "seg_walk 0 sg a = []"
| "seg_walk (Suc n) sg a =
     (if bsz sg a = 0 then []
      else (bsz sg a, bfn sg a \<noteq> 0) # seg_walk n sg (a + bsz sg a))"

definition seg_blocks :: "sma_seg \<Rightarrow> tiling" where
  "seg_blocks sg = seg_walk (segsize (seg_header sg)) sg 88"

text \<open>Payload start and payload length of every allocated block.\<close>

definition seg_live :: "sma_seg \<Rightarrow> (nat \<times> nat) set" where
  "seg_live sg = set (lives 88 (seg_blocks sg))"

lemma seg_walk_tiles:
  "tiles (bsz sg) (bpv sg) (bfn sg) a p bs \<Longrightarrow> span bs < n \<Longrightarrow> seg_walk n sg a = bs"
proof (induction n arbitrary: a p bs)
  case (Suc n)
  show ?case
  proof (cases bs)
    case Nil
    with Suc.prems show ?thesis by simp
  next
    case (Cons b bs')
    obtain s f where b: "b = (s, f)" by (cases b)
    with Suc.prems Cons have "seg_walk n sg (a + s) = bs'" by (intro Suc.IH) auto
    with Suc.prems Cons b show ?thesis by auto
  qed
qed simp

lemma seg_rep_blocks: "seg_rep sg bs fs \<Longrightarrow> seg_blocks sg = bs"
  unfolding seg_blocks_def by (rule seg_walk_tiles [OF seg_repD(1)]) (auto dest: seg_repD(8))

lemma seg_rep_live: "seg_rep sg bs fs \<Longrightarrow> seg_live sg = set (lives 88 bs)"
  by (simp add: seg_live_def seg_rep_blocks)

lemma seg_live_bounds:
  assumes "seg_ok sg" "(x, l) \<in> seg_live sg"
  shows "120 \<le> x" "x + l + 64 \<le> segsize (seg_header sg)"
proof -
  from assms obtain bs fs where r: "seg_rep sg bs fs" by (auto simp: seg_ok_def)
  with assms have "(x, l) \<in> set (lives 88 bs)" by (simp add: seg_rep_live)
  from lives_range [OF seg_repD(2) [OF r] this] seg_repD(8) [OF r]
  show "120 \<le> x" "x + l + 64 \<le> segsize (seg_header sg)" by auto
qed

lemma seg_live_disjoint:
  assumes "seg_ok sg" "(x, l) \<in> seg_live sg" "(y, m) \<in> seg_live sg" "x \<noteq> y"
  shows "x + l + 32 \<le> y \<or> y + m + 32 \<le> x"
proof -
  from assms obtain bs fs where r: "seg_rep sg bs fs" by (auto simp: seg_ok_def)
  with assms show ?thesis using lives_disjoint [OF seg_repD(2) [OF r]] by (simp add: seg_rep_live)
qed

lemma seg_live_functional:
  "seg_ok sg \<Longrightarrow> (x, l) \<in> seg_live sg \<Longrightarrow> (x, m) \<in> seg_live sg \<Longrightarrow> l = m"
  by (auto simp: seg_ok_def seg_rep_live dest: lives_functional [OF seg_repD(2)])

end
