(* ===== verification/Apc_Sma_Alloc.thy ===== *)
theory Apc_Sma_Alloc imports Apc_Sma_Inv begin

text \<open>
  Functional correctness of the segment allocator: what \<open>find_block\<close> returns, that
  \<open>sma_allocate\<close> and \<open>sma_deallocate\<close> return on every well-formed segment, and how they change
  the tiling. The last section states this as the contract of an allocator and interprets it.
\<close>

section \<open>Alignment\<close>

lemma ALIGNWORD_exact:
  assumes "Suc y + 7 < SIZE_LIMIT"
  shows "ALIGNWORD (Suc y) = 8 * (1 + y div 8)"
proof -
  have "8 * (y div 8) \<le> y" by simp
  then have l: "8 * (1 + y div 8) < SIZE_LIMIT" using assms by simp
  have "sz_sub (Suc y) 1 = y" using assms by (simp add: sz_simps)
  moreover have "sz_add 1 (y div 8) = 1 + y div 8" using l by (simp add: sz_simps)
  ultimately show ?thesis using l
    by (simp add: ALIGNWORD_def ALIGNSIZE_def SIZEOF_WORD_def sz_mul_exact)
qed

lemma ALIGNWORD_bounds:
  assumes "0 < x" "x + 7 < SIZE_LIMIT"
  shows "x \<le> ALIGNWORD x" "ALIGNWORD x < x + 8" "8 dvd ALIGNWORD x"
proof -
  obtain y where x: "x = Suc y" using assms(1) gr0_implies_Suc by blast
  have e: "ALIGNWORD x = 8 + 8 * (y div 8)" using ALIGNWORD_exact [of y] assms x by simp
  have "y = 8 * (y div 8) + y mod 8" "y mod 8 < 8" by simp_all
  then show "x \<le> ALIGNWORD x" "ALIGNWORD x < x + 8"
    using e x by linarith+
  show "8 dvd ALIGNWORD x" unfolding e by simp
qed

text \<open>The size of a block that serves a request of \<open>n\<close> bytes.\<close>

definition realsize_of :: "nat \<Rightarrow> nat" where
  "realsize_of n = ALIGNWORD (sz_add n (ALIGNWORD SIZEOF_BLOCK))"

lemma realsize_of_bounds:
  assumes "n + 39 < SIZE_LIMIT"
  shows "n + 32 \<le> realsize_of n" "realsize_of n < n + 40" "8 dvd realsize_of n" "32 \<le> realsize_of n"
proof -
  have "sz_add n 32 = n + 32" using assms by (simp add: sz_simps)
  with ALIGNWORD_bounds [of "n + 32"] assms
  show "n + 32 \<le> realsize_of n" "realsize_of n < n + 40" "8 dvd realsize_of n"
    by (simp_all add: realsize_of_def)
  then show "32 \<le> realsize_of n" by simp
qed

section \<open>find_block\<close>

lemma find_fit_list:
  assumes "dll (bfn sg) F (x # ys @ [l])" "0 \<notin> set ys" "l \<noteq> 0" "bfn sg l = 0" "bsz sg l < r"
  shows "find_fit sg r x = Some (find (\<lambda>y. r \<le> bsz sg y) ys)"
  using assms
proof (induction ys arbitrary: x)
  case Nil
  then have "bfn sg x = l" by simp
  moreover have "find_fit sg r l = Some None"
    using Nil.prems by (subst find_fit.simps) (simp add: field_folds)
  ultimately show ?case using Nil.prems by (subst find_fit.simps) (simp add: field_folds)
next
  case (Cons y ys)
  then have "bfn sg x = y" "find_fit sg r y = Some (find (\<lambda>y. r \<le> bsz sg y) ys)"
    by (cases ys; auto)+
  with Cons.prems show ?case by (subst find_fit.simps) (simp add: field_folds)
qed

lemma find_better_end: "bfn sg l = 0 \<Longrightarrow> find_better sg r i l found = found"
  by (cases i) (simp_all add: field_folds)

lemma find_better_list:
  assumes "dll (bfn sg) F (x # ys @ [l])" "0 \<notin> set ys" "l \<noteq> 0" "bfn sg l = 0" "bsz sg l < r"
    "r \<le> bsz sg found"
  shows "find_better sg r i x found \<in> insert found {y \<in> set (take i ys). r \<le> bsz sg y} \<and>
    bsz sg (find_better sg r i x found) \<le> bsz sg found \<and>
    (\<forall>y \<in> set (take i ys). r \<le> bsz sg y \<longrightarrow> bsz sg (find_better sg r i x found) \<le> bsz sg y)"
  using assms
proof (induction i arbitrary: x ys found)
  case 0
  then show ?case by simp
next
  case (Suc i)
  show ?case
  proof (cases ys)
    case Nil
    with Suc.prems have x: "bfn sg x = l" by simp
    have "\<not> r \<le> bsz sg l" using Suc.prems by simp
    with x Suc.prems have "find_better sg r (Suc i) x found = found"
      by (simp add: field_folds Let_def find_better_end)
    with Nil show ?thesis by simp
  next
    case (Cons y zs)
    define f2 where "f2 = (if r \<le> bsz sg y \<and> bsz sg y < bsz sg found then y else found)"
    from Suc.prems Cons have x: "bfn sg x = y" "y \<noteq> 0" by auto
    then have st: "find_better sg r (Suc i) x found = find_better sg r i y f2"
      by (simp add: field_folds Let_def f2_def)
    have "find_better sg r i y f2 \<in> insert f2 {z \<in> set (take i zs). r \<le> bsz sg z} \<and>
      bsz sg (find_better sg r i y f2) \<le> bsz sg f2 \<and>
      (\<forall>z \<in> set (take i zs). r \<le> bsz sg z \<longrightarrow> bsz sg (find_better sg r i y f2) \<le> bsz sg z)"
      by (rule Suc.IH) (use Suc.prems Cons x in \<open>auto simp: f2_def split: if_splits\<close>)
    then show ?thesis unfolding st Cons by (auto simp: f2_def split: if_splits)
  qed
qed

text \<open>
  First fit, then the tightest of it and the \<open>BEST_FIT_LIMIT\<close> blocks behind it.
\<close>

lemma find_block_rep:
  assumes rep: "seg_rep sg bs fs" and r: "0 < r"
  shows "find_block sg r = Some None \<and> (\<forall>y \<in> set fs. bsz sg y < r) \<or>
    (\<exists>us f vs cur. fs = us @ f # vs \<and> (\<forall>y \<in> set us. bsz sg y < r) \<and> r \<le> bsz sg f \<and>
       find_block sg r = Some (Some cur) \<and> cur \<in> set (f # take BEST_FIT_LIMIT vs) \<and> r \<le> bsz sg cur \<and>
       (\<forall>y \<in> set (f # take BEST_FIT_LIMIT vs). r \<le> bsz sg y \<longrightarrow> bsz sg cur \<le> bsz sg y))"
proof -
  let ?l = "88 + span bs"
  have d: "dll (bfn sg) (bfp sg) (56 # fs @ [?l])" by (rule seg_repD(3) [OF rep])
  have l: "bfn sg ?l = 0" "bsz sg ?l < r" using tiles_end [OF seg_repD(1) [OF rep]] r by auto
  have z: "0 \<notin> set fs" using seg_rep_free_range [OF rep] by force
  have ff: "find_fit sg r 56 = Some (find (\<lambda>y. r \<le> bsz sg y) fs)"
    by (rule find_fit_list [OF d z _ l]) simp
  show ?thesis
  proof (cases "find (\<lambda>y. r \<le> bsz sg y) fs")
    case None
    then have "\<forall>y \<in> set fs. bsz sg y < r" by (auto simp: find_None_iff)
    with None ff show ?thesis by (simp add: find_block_def)
  next
    case (Some f)
    then obtain us vs where fs: "fs = us @ f # vs" "r \<le> bsz sg f" "\<forall>y \<in> set us. bsz sg y < r"
      using find_Some_split [of "\<lambda>y. r \<le> bsz sg y" fs f] by (auto simp: not_le)
    have d2: "dll (bfn sg) (bfp sg) (f # vs @ [?l])"
      using d dll_append [of "bfn sg" "bfp sg" "56 # us" f "vs @ [?l]"] fs by simp
    from z fs(1) have "0 \<notin> set vs" by simp
    note fb = find_better_list [OF d2 this _ l fs(2), of BEST_FIT_LIMIT]
    let ?c = "find_better sg r BEST_FIT_LIMIT f f"
    have c: "?c \<in> insert f {y \<in> set (take BEST_FIT_LIMIT vs). r \<le> bsz sg y}" "bsz sg ?c \<le> bsz sg f"
      "\<forall>y \<in> set (take BEST_FIT_LIMIT vs). r \<le> bsz sg y \<longrightarrow> bsz sg ?c \<le> bsz sg y"
      using fb by auto
    have fbk: "find_block sg r = Some (Some ?c)" using ff Some by (simp add: find_block_def)
    have "?c \<in> set (f # take BEST_FIT_LIMIT vs)" "r \<le> bsz sg ?c" using c(1) fs(2) by auto
    moreover have "\<forall>y \<in> set (f # take BEST_FIT_LIMIT vs). r \<le> bsz sg y \<longrightarrow> bsz sg ?c \<le> bsz sg y"
      using c(2,3) by simp
    ultimately show ?thesis using fs fbk by blast
  qed
qed

section \<open>The edits of sma_allocate\<close>

text \<open>A free block with its neighbours on the free list.\<close>

lemma free_block_context:
  assumes rep: "seg_rep sg bs fs" and c: "cur \<in> set fs"
  obtains pre s post xs ys us A Z vs where
    "bs = pre @ (s, True) # post" "cur = 88 + span pre" "bsz sg cur = s" "32 \<le> s"
    "fs = xs @ cur # ys" "56 # xs = us @ [A]" "ys @ [88 + span bs] = Z # vs"
    "bfp sg cur = A" "bfn sg cur = Z" "A \<noteq> 0" "Z \<noteq> 0" "distinct (us @ A # cur # Z # vs)"
    "dll (bfn sg) (bfp sg) (us @ A # cur # Z # vs)"
    "bfn sg A \<noteq> 0" "set (xs @ ys) = set fs - {cur}"
proof -
  let ?l = "88 + span bs"
  from c have "cur \<in> set (frees 88 bs)" using seg_repD(5) [OF rep] by simp
  then obtain pre s post where bs: "bs = pre @ (s, True) # post" "cur = 88 + span pre"
    using frees_split by blast
  from seg_repD(1) [OF rep] have s: "bsz sg cur = s" "32 \<le> s"
    unfolding bs(1) tiles_append by (auto simp: bs(2))
  from c obtain xs ys where fs: "fs = xs @ cur # ys" by (auto dest: split_list)
  obtain us A where A: "56 # xs = us @ [A]" by (metis append_butlast_last_id list.distinct(1))
  obtain Z vs where Z: "ys @ [?l] = Z # vs" by (metis append_is_Nil_conv list.exhaust list.distinct(1))
  have L: "56 # fs @ [?l] = us @ A # cur # Z # vs"
    using A Z fs by (metis Cons_eq_appendI append.assoc append_Cons append_Nil)
  have d: "dll (bfn sg) (bfp sg) (us @ A # cur # Z # vs)" using seg_repD(3) [OF rep] L by simp
  have di: "distinct (us @ A # cur # Z # vs)" using seg_rep_distinct [OF rep] L by simp
  have "0 \<notin> set (56 # fs @ [?l])" using seg_rep_free_range [OF rep] by force
  then have "A \<noteq> 0" "Z \<noteq> 0" "cur \<noteq> 0" unfolding L by auto
  note nb = dll_neighbours [OF d]
  have "set (xs @ ys) = set fs - {cur}" using seg_repD(4) [OF rep] fs by auto
  with that [OF bs s fs A Z nb(1,2) \<open>A \<noteq> 0\<close> \<open>Z \<noteq> 0\<close> di d] nb(3) \<open>cur \<noteq> 0\<close> show ?thesis by simp
qed

lemma unlink_whole_rep:
  assumes rep: "seg_rep sg bs fs" and c: "cur \<in> set fs"
  defines "sg' \<equiv> set_fnext cur 0 (sma_unlink_whole cur sg)"
  defines "sg3 \<equiv> set_avail (sz_sub (avail (seg_header sg')) (bsz sg' cur)) sg'"
  obtains pre s post fs' where "bs = pre @ (s, True) # post" "cur = 88 + span pre" "bsz sg cur = s"
    "seg_rep sg3 (pre @ (s, False) # post) fs'"
proof -
  obtain pre s post xs ys us A Z vs where ctx:
    "bs = pre @ (s, True) # post" "cur = 88 + span pre" "bsz sg cur = s" "32 \<le> s"
    "fs = xs @ cur # ys" "56 # xs = us @ [A]" "ys @ [88 + span bs] = Z # vs"
    "bfp sg cur = A" "bfn sg cur = Z" "A \<noteq> 0" "Z \<noteq> 0" "distinct (us @ A # cur # Z # vs)"
    "dll (bfn sg) (bfp sg) (us @ A # cur # Z # vs)"
    "bfn sg A \<noteq> 0" "set (xs @ ys) = set fs - {cur}"
    by (rule free_block_context [OF rep c])
  let ?bs = "pre @ (s, False) # post"
  have "A \<noteq> cur" "Z \<noteq> cur" "A \<noteq> Z" using ctx(12) by auto
  then have flds: "bsz sg' = bsz sg" "bpv sg' = (bpv sg)(cur + s := 0)"
    "bfn sg' = (bfn sg)(A := Z, cur := 0)" "bfp sg' = (bfp sg)(Z := A)"
    using ctx by (simp_all add: sg'_def sma_unlink_whole_def Let_def field_folds NEXT_SBLOCK_def)
  have n0: "x \<noteq> cur \<Longrightarrow> (bfn sg' x = 0) = (bfn sg x = 0)" for x
    using ctx(11,14) flds by auto
  have t: "tpre (bsz sg) (bpv sg) (bfn sg) 88 0 pre" "bpv sg cur = lastp 0 pre"
    "tiles (bsz sg) (bpv sg) (bfn sg) (cur + s) s post"
    using seg_repD(1) [OF rep] unfolding ctx(1) tiles_append by (auto simp: ctx(2))
  have "tiles (bsz sg) (bpv sg) (bfn sg') (cur + s) s post"
    by (rule tiles_cong [OF _ t(3)]) (use n0 ctx(4) in auto)
  then have "tiles (bsz sg') (bpv sg') (bfn sg') (cur + s) 0 post"
    unfolding flds(1,2) by (rule tiles_prev)
  moreover have "tpre (bsz sg') (bpv sg') (bfn sg') 88 0 pre"
    by (rule tpre_cong [OF _ t(1)]) (use n0 flds ctx(2,4) in auto)
  ultimately have tl: "tiles (bsz sg') (bpv sg') (bfn sg') 88 0 ?bs"
    unfolding tiles_append using flds ctx(2,3,4) t(2) by simp
  have "dll (bfn sg') (bfp sg') (us @ A # Z # vs)"
    by (rule dll_unlink [OF ctx(13,12)]) (use flds \<open>A \<noteq> cur\<close> in auto)
  moreover have "us @ A # Z # vs = 56 # (xs @ ys) @ [88 + span ?bs]"
  proof -
    have "us @ A # Z # vs = (us @ [A]) @ (Z # vs)" by simp
    also have "\<dots> = 56 # (xs @ ys) @ [88 + span bs]" unfolding ctx(6,7) [symmetric] by simp
    finally show ?thesis by (simp add: ctx(1))
  qed
  ultimately have dl: "dll (bfn sg') (bfp sg') (56 # (xs @ ys) @ [88 + span ?bs])" by simp
  have "distinct (frees 88 bs)" by (rule distinct_frees [OF seg_repD(2) [OF rep]])
  then have fr: "set (xs @ ys) = set (frees 88 ?bs)"
    using ctx(15) seg_repD(5) [OF rep] by (auto simp: ctx(1,2))
  have na: "noadj ?bs" using seg_repD(6) [OF rep] unfolding ctx(1) by (rule noadj_alloc)
  have hd: "seg_header sg' = seg_header sg" by (simp add: sg'_def sma_unlink_whole_def Let_def)
  have "32 + free_total bs < SIZE_LIMIT" using seg_repD(9) [OF rep] free_total_le_span [of bs] by linarith
  then have av: "sz_sub (avail (seg_header sg')) (bsz sg' cur) = 32 + free_total ?bs"
    using seg_repD(7) [OF rep] by (simp add: hd flds ctx(1,3) sz_sub_exact)
  have "seg_rep sg3 ?bs (xs @ ys)"
    unfolding seg_rep_def sg3_def using tl dl fr na av seg_repD(4,8,9) [OF rep]
    by (simp add: hd ctx(1,5))
  with that ctx show ?thesis by blast
qed

lemma split_rep:
  assumes rep: "seg_rep sg bs fs" and c: "cur \<in> set fs" and r: "32 \<le> r" "r + 32 \<le> bsz sg cur"
  defines "sg' \<equiv> set_fnext cur 0 (sma_split cur r sg)"
  defines "sg3 \<equiv> set_avail (sz_sub (avail (seg_header sg')) (bsz sg' cur)) sg'"
  obtains pre s post fs' where "bs = pre @ (s, True) # post" "cur = 88 + span pre" "bsz sg cur = s"
    "seg_rep sg3 (pre @ (r, False) # (s - r, True) # post) fs'"
proof -
  obtain pre s post xs ys us A Z vs where ctx:
    "bs = pre @ (s, True) # post" "cur = 88 + span pre" "bsz sg cur = s" "32 \<le> s"
    "fs = xs @ cur # ys" "56 # xs = us @ [A]" "ys @ [88 + span bs] = Z # vs"
    "bfp sg cur = A" "bfn sg cur = Z" "A \<noteq> 0" "Z \<noteq> 0" "distinct (us @ A # cur # Z # vs)"
    "dll (bfn sg) (bfp sg) (us @ A # cur # Z # vs)"
    "bfn sg A \<noteq> 0" "set (xs @ ys) = set fs - {cur}"
    by (rule free_block_context [OF rep c])
  let ?n = "cur + r"
  let ?bs = "pre @ (r, False) # (s - r, True) # post"
  have r': "r + 32 \<le> s" using r(2) ctx(3) by simp
  have sl: "s < SIZE_LIMIT" using seg_repD(9) [OF rep] by (simp add: ctx(1))
  have t: "tpre (bsz sg) (bpv sg) (bfn sg) 88 0 pre" "bpv sg cur = lastp 0 pre"
    "tiles (bsz sg) (bpv sg) (bfn sg) (cur + s) s post"
    using seg_repD(1) [OF rep] unfolding ctx(1) tiles_append by (auto simp: ctx(2))
  have fr0: "x \<in> set (frees 88 pre) \<union> set (frees (cur + s) post) \<Longrightarrow> x \<noteq> ?n" for x
    using frees_range [OF t(1), of x] frees_range [OF tiles_tpre [OF t(3)], of x] r r' ctx(2) by auto
  have sl2: "set (us @ A # cur # Z # vs) = set (56 # fs @ [88 + span bs])"
    using ctx(5,6,7) by (metis Cons_eq_appendI append.assoc append_Cons append_Nil)
  then have nl: "?n \<notin> set (us @ A # cur # Z # vs)"
    using fr0 [of ?n] seg_repD(5) [OF rep] r r' by (auto simp: ctx(1,2) add.assoc)
  have ne: "A \<noteq> cur" "Z \<noteq> cur" "A \<noteq> Z" "?n \<noteq> A" "?n \<noteq> cur" "?n \<noteq> Z" using ctx(12) nl by auto
  have sr: "sz_sub s r = s - r" using r' sl by (simp add: sz_simps)
  have flds: "bsz sg' = (bsz sg)(cur := r, ?n := s - r)"
    "bpv sg' = (bpv sg)(?n := 0, cur + s := s - r)"
    "bfn sg' = (bfn sg)(?n := Z, A := ?n, cur := 0)" "bfp sg' = (bfp sg)(?n := A, Z := ?n)"
    using ctx ne r' sr
    by (simp_all add: sg'_def sma_split_def Let_def field_folds NEXT_SBLOCK_def add.assoc)
  have n0: "x \<noteq> cur \<Longrightarrow> x \<noteq> ?n \<Longrightarrow> (bfn sg' x = 0) = (bfn sg x = 0)" for x
    using ctx(14) r flds by auto
  have "tiles (bsz sg') (bpv sg) (bfn sg') (cur + s) s post"
    by (rule tiles_cong [OF _ t(3)]) (use n0 r r' flds in auto)
  then have "tiles (bsz sg') ((bpv sg)(cur + s := s - r)) (bfn sg') (cur + s) (s - r) post"
    by (rule tiles_prev)
  then have "tiles (bsz sg') (bpv sg') (bfn sg') (cur + s) (s - r) post"
    by (rule tiles_cong [rotated]) (use flds r r' in auto)
  moreover have "tpre (bsz sg') (bpv sg') (bfn sg') 88 0 pre"
    by (rule tpre_cong [OF _ t(1)]) (use n0 flds ctx(2,4) in auto)
  moreover have "cur + r + (s - r) = cur + s" "32 \<le> s - r" using r' by auto
  ultimately have "tiles (bsz sg') (bpv sg') (bfn sg') cur (lastp 0 pre) ((r, False) # (s - r, True) # post)"
      "tpre (bsz sg') (bpv sg') (bfn sg') 88 0 pre"
    using r ctx(11) ne t(2) r' by (simp_all add: flds)
  then have tl: "tiles (bsz sg') (bpv sg') (bfn sg') 88 0 ?bs"
    unfolding tiles_append by (simp add: ctx(2))
  have "dll (bfn sg') (bfp sg') (us @ A # ?n # Z # vs)"
    by (rule dll_replace [OF ctx(13,12)]) (use flds ne nl in auto)
  moreover have "us @ A # ?n # Z # vs = 56 # (xs @ ?n # ys) @ [88 + span ?bs]"
  proof -
    have "us @ A # ?n # Z # vs = (us @ [A]) @ ?n # (Z # vs)" by simp
    also have "\<dots> = 56 # (xs @ ?n # ys) @ [88 + span bs]" unfolding ctx(6,7) [symmetric] by simp
    finally show ?thesis using r' by (simp add: ctx(1))
  qed
  ultimately have dl: "dll (bfn sg') (bfp sg') (56 # (xs @ ?n # ys) @ [88 + span ?bs])" by simp
  have "distinct (frees 88 bs)" by (rule distinct_frees [OF seg_repD(2) [OF rep]])
  then have fr: "set (xs @ ?n # ys) = set (frees 88 ?bs)"
    using ctx(15) seg_repD(5) [OF rep] r' by (auto simp: ctx(1,2) add.assoc)
  have "?n \<notin> set fs" using nl unfolding sl2 by simp
  then have di: "distinct (xs @ ?n # ys)" using seg_repD(4) [OF rep] ctx(5) by auto
  have na: "noadj ?bs"
    using seg_repD(6) [OF rep] unfolding ctx(1) by (simp add: noadj_append noadj_Cons)
  have hd: "seg_header sg' = seg_header sg" by (simp add: sg'_def sma_split_def Let_def)
  have "32 + free_total bs < SIZE_LIMIT" using seg_repD(9) [OF rep] free_total_le_span [of bs] by linarith
  then have av: "sz_sub (avail (seg_header sg')) (bsz sg' cur) = 32 + free_total ?bs"
    using seg_repD(7) [OF rep] r' ne by (simp add: hd flds ctx(1,3) sz_sub_exact)
  have sp: "span ?bs = span bs" using r' by (simp add: ctx(1))
  have "seg_rep sg3 ?bs (xs @ ?n # ys)"
    unfolding seg_rep_def sg3_def using tl dl fr na av di seg_repD(8,9) [OF rep] sp
    by (simp add: hd)
  with that ctx show ?thesis by blast
qed

section \<open>sma_allocate\<close>

text \<open>
  The three outcomes of an allocation on a well-formed segment: no free block is large enough
  and nothing changes; the whole block is handed out because the rest would be too small to be
  a block; or the block is split.
\<close>

lemma free_block_listed:
  assumes rep: "seg_rep sg bs fs" and s: "(s, True) \<in> set bs"
  shows "\<exists>x \<in> set fs. bsz sg x = s"
proof -
  from s obtain pre post where bs: "bs = pre @ (s, True) # post" by (auto dest: split_list)
  have "88 + span pre \<in> set fs" using seg_repD(5) [OF rep] by (simp add: bs)
  moreover have "bsz sg (88 + span pre) = s"
    using seg_repD(1) [OF rep] unfolding bs tiles_append by simp
  ultimately show ?thesis by blast
qed

text \<open>The block that was found is used whole, or cut in two.\<close>

lemma sma_allocate_found:
  assumes rep: "seg_rep sg bs fs" and n: "n + 39 < SIZE_LIMIT" and frag: "frag \<le> 64"
    and av: "\<not> avail (seg_header sg) < realsize_of n"
    and f: "find_block sg (realsize_of n) = Some (Some cur)" "cur \<in> set fs" "realsize_of n \<le> bsz sg cur"
  obtains (whole) pre s post sg' fs' where "bs = pre @ (s, True) # post" "realsize_of n \<le> s" "s < realsize_of n + (40 + frag)"
      "sma_allocate sg n frag al = Some (88 + span pre + 32, s - 32, sg')" "seg_rep sg' (pre @ (s, False) # post) fs'"
  | (cut) pre s post sg' fs' where "bs = pre @ (s, True) # post" "realsize_of n + (40 + frag) \<le> s"
      "sma_allocate sg n frag al = Some (88 + span pre + 32, realsize_of n - 32, sg')"
      "seg_rep sg' (pre @ (realsize_of n, False) # (s - realsize_of n, True) # post) fs'"
proof -
  let ?r = "realsize_of n"
  note rb = realsize_of_bounds [OF n]
  have rr: "ALIGNWORD (sz_add n 32) = ?r" by (simp add: realsize_of_def)
  have lim: "152 + span bs < SIZE_LIMIT" by (rule seg_repD(9) [OF rep])
  obtain pre s post where c: "bs = pre @ (s, True) # post" "cur = 88 + span pre" "bsz sg cur = s"
    using free_block_context [OF rep f(2)] by metis
  have thr: "sz_add ?r (sz_add 40 frag) = ?r + (40 + frag)" using f(3) c lim frag by (simp add: sz_simps)
  have off: "sz_add cur 32 = 88 + span pre + 32" using c lim by (simp add: sz_simps)
  have sl: "s < SIZE_LIMIT" "?r < SIZE_LIMIT" using lim f(3) c by simp_all
  show thesis
  proof (cases "s < ?r + (40 + frag)")
    case True
    let ?sg = "set_fnext cur 0 (sma_unlink_whole cur sg)"
    obtain pre' s' post' fs' where u: "bs = pre' @ (s', True) # post'" "cur = 88 + span pre'" "bsz sg cur = s'"
      and rep': "seg_rep (set_avail (sz_sub (avail (seg_header ?sg)) (bsz ?sg cur)) ?sg) (pre' @ (s', False) # post') fs'"
      by (rule unlink_whole_rep [OF rep f(2)])
    have "sz_sub s 32 = s - 32" using f(3) c(3) rb(4) sl by (simp add: sz_simps)
    then have al: "sma_allocate sg n frag al = Some (88 + span pre' + 32, s' - 32,
      set_avail (sz_sub (avail (seg_header ?sg)) (bsz ?sg cur)) ?sg)"
      using f av True thr off c(2,3) u(2,3) by (auto simp: sma_allocate_def rr Let_def field_folds)
    show thesis by (rule whole [OF u(1) _ _ al rep']) (use True f(3) c(3) u(3) in simp_all)
  next
    case False
    let ?sg = "set_fnext cur 0 (sma_split cur ?r sg)"
    have "?r + 32 \<le> bsz sg cur" using c(3) False by simp
    then obtain pre' s' post' fs' where u: "bs = pre' @ (s', True) # post'" "cur = 88 + span pre'" "bsz sg cur = s'"
      and rep': "seg_rep (set_avail (sz_sub (avail (seg_header ?sg)) (bsz ?sg cur)) ?sg) (pre' @ (?r, False) # (s' - ?r, True) # post') fs'"
      by (rule split_rep [OF rep f(2) rb(4)])
    have "sz_sub ?r 32 = ?r - 32" using rb(4) sl by (simp add: sz_simps)
    then have al: "sma_allocate sg n frag al = Some (88 + span pre' + 32, ?r - 32,
      set_avail (sz_sub (avail (seg_header ?sg)) (bsz ?sg cur)) ?sg)"
      using f av False thr off c(2,3) u(2,3) by (auto simp: sma_allocate_def rr Let_def field_folds)
    show thesis by (rule cut [OF u(1) _ al rep']) (use False c(3) u(3) in simp)
  qed
qed

lemma sma_allocate_rep:
  assumes rep: "seg_rep sg bs fs" and n: "n + 39 < SIZE_LIMIT" and frag: "frag \<le> 64"
  defines "r \<equiv> realsize_of n"
  shows "(sma_allocate sg n frag al = Some (SIZE_MAX, al, sg) \<and> (\<forall>s. (s, True) \<in> set bs \<longrightarrow> s < r)) \<or>
   (\<exists>pre s post sg' fs'. bs = pre @ (s, True) # post \<and> r \<le> s \<and> s < r + (40 + frag) \<and>
      sma_allocate sg n frag al = Some (88 + span pre + 32, s - 32, sg') \<and>
      seg_rep sg' (pre @ (s, False) # post) fs') \<or>
   (\<exists>pre s post sg' fs'. bs = pre @ (s, True) # post \<and> r + (40 + frag) \<le> s \<and>
      sma_allocate sg n frag al = Some (88 + span pre + 32, r - 32, sg') \<and>
      seg_rep sg' (pre @ (r, False) # (s - r, True) # post) fs')"
proof -
  note rb = realsize_of_bounds [OF n, folded r_def]
  have rr: "ALIGNWORD (sz_add n 32) = r" by (simp add: r_def realsize_of_def)
  show ?thesis
  proof (cases "avail (seg_header sg) < r")
    case True
    then have "32 + free_total bs < r" using seg_repD(7) [OF rep] by simp
    then have "\<forall>s. (s, True) \<in> set bs \<longrightarrow> s < r" by (auto dest!: split_list)
    with True show ?thesis by (simp add: sma_allocate_def rr Let_def)
  next
    case av: False
    consider (none) "find_block sg r = Some None" "\<forall>y \<in> set fs. bsz sg y < r"
      | (some) cur where "find_block sg r = Some (Some cur)" "cur \<in> set fs" "r \<le> bsz sg cur"
      using find_block_rep [OF rep, of r] rb(4) by (fastforce dest: in_set_takeD)
    then show ?thesis
    proof cases
      case none
      then have "\<forall>s. (s, True) \<in> set bs \<longrightarrow> s < r" using free_block_listed [OF rep] by fastforce
      with none av show ?thesis by (simp add: sma_allocate_def rr Let_def)
    next
      case some
      note f = some [unfolded r_def] and av' = av [unfolded r_def]
      show ?thesis
      proof (cases rule: sma_allocate_found [OF rep n frag av' f, of al])
        case (1 pre s post sg' fs')
        show ?thesis unfolding r_def by (intro disjI2 disjI1 exI conjI) (rule 1)+
      next
        case (2 pre s post sg' fs')
        show ?thesis unfolding r_def by (intro disjI2 exI conjI) (rule 2)+
      qed
    qed
  qed
qed

end
