(* ===== verification/Apc_Sma_Free.thy ===== *)
theory Apc_Sma_Free imports Apc_Sma_Alloc begin

text \<open>
  Functional correctness of \<open>sma_deallocate\<close>. While a block is being given back the segment is
  not well-formed: the area being freed is a hole between two well-formed stretches of the
  tiling. \<open>seg_hole\<close> describes that; the three steps of the source grow the hole to the left,
  grow it to the right, and close it.
\<close>

definition seg_hole :: "sma_seg \<Rightarrow> tiling \<Rightarrow> nat \<Rightarrow> tiling \<Rightarrow> nat list \<Rightarrow> nat \<Rightarrow> bool" where
  "seg_hole sg pre s post fs r \<longleftrightarrow>
     tpre (bsz sg) (bpv sg) (bfn sg) 88 0 pre \<and>
     bsz sg (88 + span pre) = s \<and> bpv sg (88 + span pre) = lastp 0 pre \<and> 32 \<le> s \<and>
     tiles (bsz sg) (bpv sg) (bfn sg) (88 + span pre + s) r post \<and>
     dll (bfn sg) (bfp sg) (56 # fs @ [88 + span pre + s + span post]) \<and>
     distinct fs \<and> set fs = set (frees 88 pre) \<union> set (frees (88 + span pre + s) post) \<and>
     avail (seg_header sg) = 32 + free_total pre + s + free_total post \<and>
     segsize (seg_header sg) = 152 + span pre + s + span post \<and>
     segsize (seg_header sg) < SIZE_LIMIT"

lemma seg_holeD:
  assumes "seg_hole sg pre s post fs r"
  shows "tpre (bsz sg) (bpv sg) (bfn sg) 88 0 pre"
    "bsz sg (88 + span pre) = s" "bpv sg (88 + span pre) = lastp 0 pre" "32 \<le> s"
    "tiles (bsz sg) (bpv sg) (bfn sg) (88 + span pre + s) r post"
    "dll (bfn sg) (bfp sg) (56 # fs @ [88 + span pre + s + span post])"
    "distinct fs" "set fs = set (frees 88 pre) \<union> set (frees (88 + span pre + s) post)"
    "avail (seg_header sg) = 32 + free_total pre + s + free_total post"
    "segsize (seg_header sg) = 152 + span pre + s + span post"
    "152 + span pre + s + span post < SIZE_LIMIT"
  using assms by (auto simp: seg_hole_def)

lemma seg_hole_free_range:
  assumes "seg_hole sg pre s post fs r" "x \<in> set fs"
  shows "88 \<le> x" "x + 32 \<le> 88 + span pre \<or> 88 + span pre + s \<le> x" "x + 32 \<le> 88 + span pre + s + span post"
proof -
  note h = seg_holeD [OF assms(1)]
  consider "x \<in> set (frees 88 pre)" | "x \<in> set (frees (88 + span pre + s) post)"
    using assms(2) h(8) by auto
  then have "88 \<le> x \<and> (x + 32 \<le> 88 + span pre \<or> 88 + span pre + s \<le> x) \<and> x + 32 \<le> 88 + span pre + s + span post"
  proof cases
    case 1
    from frees_range [OF h(1) this] show ?thesis by auto
  next
    case 2
    from frees_range [OF tiles_tpre [OF h(5)] this] show ?thesis by auto
  qed
  then show "88 \<le> x" "x + 32 \<le> 88 + span pre \<or> 88 + span pre + s \<le> x"
    "x + 32 \<le> 88 + span pre + s + span post" by auto
qed

lemma seg_hole_distinct:
  assumes "seg_hole sg pre s post fs r"
  shows "distinct (56 # fs @ [88 + span pre + s + span post])"
    "0 \<notin> set (56 # fs @ [88 + span pre + s + span post])"
    "88 + span pre \<notin> set (56 # fs @ [88 + span pre + s + span post])"
proof -
  let ?l = "88 + span pre + s + span post"
  have "56 \<notin> set fs" "?l \<notin> set fs" "0 \<notin> set fs" "88 + span pre \<notin> set fs"
    using seg_hole_free_range [OF assms, of 56] seg_hole_free_range [OF assms, of ?l]
      seg_hole_free_range [OF assms, of 0] seg_hole_free_range [OF assms, of "88 + span pre"]
      seg_holeD(4) [OF assms] by auto
  then show "distinct (56 # fs @ [?l])" "0 \<notin> set (56 # fs @ [?l])" "88 + span pre \<notin> set (56 # fs @ [?l])"
    using seg_holeD(4,7) [OF assms] by auto
qed

text \<open>Taking a block off the free list.\<close>

lemma sma_unlink_list:
  assumes d: "dll (bfn sg) (bfp sg) (56 # fs @ [l])" and di: "distinct (56 # fs @ [l])"
    and z: "0 \<notin> set (56 # fs @ [l])" and b: "b \<in> set fs"
  shows "bsz (sma_unlink b sg) = bsz sg" "bpv (sma_unlink b sg) = bpv sg"
    "\<And>x. (bfn (sma_unlink b sg) x = 0) = (bfn sg x = 0)"
    "dll (bfn (sma_unlink b sg)) (bfp (sma_unlink b sg)) (56 # remove1 b fs @ [l])"
    "seg_header (sma_unlink b sg) = seg_header sg"
proof -
  from b obtain xs ys where fs: "fs = xs @ b # ys" "b \<notin> set xs" by (auto dest: split_list_first)
  obtain us A where A: "56 # xs = us @ [A]" by (metis append_butlast_last_id list.distinct(1))
  obtain Z vs where Z: "ys @ [l] = Z # vs" by (metis append_is_Nil_conv list.exhaust list.distinct(1))
  have L: "56 # fs @ [l] = us @ A # b # Z # vs"
    using A Z fs by (metis Cons_eq_appendI append.assoc append_Cons append_Nil)
  have L': "56 # remove1 b fs @ [l] = us @ A # Z # vs"
  proof -
    have "us @ A # Z # vs = (us @ [A]) @ (Z # vs)" by simp
    also have "\<dots> = 56 # (xs @ ys) @ [l]" unfolding A [symmetric] Z [symmetric] by simp
    finally show ?thesis using fs by (simp add: remove1_append)
  qed
  have d': "dll (bfn sg) (bfp sg) (us @ A # b # Z # vs)" and di': "distinct (us @ A # b # Z # vs)"
    using d di unfolding L by simp_all
  note nb = dll_neighbours [OF d']
  have nz: "A \<noteq> 0" "Z \<noteq> 0" "b \<noteq> 0" using z unfolding L by auto
  have ne: "A \<noteq> b" "Z \<noteq> b" using di' by auto
  have flds: "bfn (sma_unlink b sg) = (bfn sg)(A := Z)" "bfp (sma_unlink b sg) = (bfp sg)(Z := A)"
    using nb ne by (simp_all add: sma_unlink_def Let_def field_folds)
  show "bsz (sma_unlink b sg) = bsz sg" "bpv (sma_unlink b sg) = bpv sg"
    "seg_header (sma_unlink b sg) = seg_header sg"
    by (simp_all add: sma_unlink_def Let_def)
  show "(bfn (sma_unlink b sg) x = 0) = (bfn sg x = 0)" for x
    using nz nb flds by auto
  show "dll (bfn (sma_unlink b sg)) (bfp (sma_unlink b sg)) (56 # remove1 b fs @ [l])"
    unfolding L' by (rule dll_unlink [OF d' di']) (use flds in auto)
qed

lemma hole_open:
  assumes "seg_rep sg (pre @ (s, False) # post) fs"
  shows "seg_hole (set_avail (sz_add (avail (seg_header sg)) (bsz sg (88 + span pre))) sg) pre s post fs 0"
proof -
  note r = seg_repD [OF assms]
  have "free_total pre + free_total post \<le> span pre + span post"
    using free_total_le_span [of pre] free_total_le_span [of post] by simp
  then have lim: "32 + free_total pre + s + free_total post < SIZE_LIMIT" using r(9) by simp
  have t: "tpre (bsz sg) (bpv sg) (bfn sg) 88 0 pre" "bsz sg (88 + span pre) = s"
    "bpv sg (88 + span pre) = lastp 0 pre" "32 \<le> s"
    "tiles (bsz sg) (bpv sg) (bfn sg) (88 + span pre + s) 0 post"
    using r(1) unfolding tiles_append by auto
  have "sz_add (avail (seg_header sg)) s = 32 + free_total pre + s + free_total post"
    using lim r(7) by (simp add: sz_add_exact)
  with t r show ?thesis by (simp add: seg_hole_def add.assoc)
qed

lemma merge_prev_hole:
  assumes h: "seg_hole sg pre s post fs r"
  obtains (same) "sma_merge_prev (88 + span pre) sg = (88 + span pre, sg)" "pre = [] \<or> \<not> snd (last pre)"
  | (merged) pre' t sg' fs' where "pre = pre' @ [(t, True)]"
      "sma_merge_prev (88 + span pre) sg = (88 + span pre', sg')" "seg_hole sg' pre' (t + s) post fs' r"
proof (cases "pre = [] \<or> \<not> snd (last pre)")
  case True
  then have "lastp 0 pre = 0" by (cases pre rule: rev_cases) auto
  then have "sma_merge_prev (88 + span pre) sg = (88 + span pre, sg)"
    using seg_holeD(3) [OF h] by (simp add: sma_merge_prev_def PREV_SBLOCK_def field_folds)
  with True same show ?thesis by blast
next
  case False
  then obtain pre' t where pre: "pre = pre' @ [(t, True)]"
    by (cases pre rule: rev_cases) auto
  note hd = seg_holeD [OF h]
  let ?p = "88 + span pre'"
  let ?l = "88 + span pre + s + span post"
  have t: "tpre (bsz sg) (bpv sg) (bfn sg) 88 0 pre'" "bsz sg ?p = t" "bpv sg ?p = lastp 0 pre'"
    "bfn sg ?p \<noteq> 0" "32 \<le> t"
    using hd(1) unfolding pre tpre_append by auto
  have pin: "?p \<in> set fs" using hd(8) by (simp add: pre)
  note u = sma_unlink_list [OF hd(6) seg_hole_distinct(1,2) [OF h] pin]
  define sg' where "sg' = set_size ?p (t + s) (sma_unlink ?p sg)"
  have pv: "PREV_SBLOCK sg (88 + span pre) = Some ?p"
    using hd(3) t(5) by (simp add: PREV_SBLOCK_def field_folds pre)
  have add: "sz_add t s = t + s" using hd(11) by (simp add: pre sz_simps)
  have cs: "bsz sg (88 + span pre) = s" by (rule hd(2))
  have m: "sma_merge_prev (88 + span pre) sg = (?p, sg')"
    using pv add t(2) cs by (simp add: sma_merge_prev_def Let_def field_folds u(1) sg'_def)
  have "?p \<notin> set (frees 88 pre')" "?p \<notin> set (frees (88 + span pre + s) post)"
    using frees_range [OF t(1), of ?p] frees_range [OF tiles_tpre [OF hd(5)], of ?p] hd(4) t(5)
    by (auto simp: pre)
  then have fr: "set (remove1 ?p fs) = set (frees 88 pre') \<union> set (frees (?p + (t + s)) post)"
    using hd(7,8) by (auto simp: pre add.assoc)
  have "tpre (bsz sg') (bpv sg') (bfn sg') 88 0 pre'"
    by (rule tpre_cong [OF _ t(1)]) (use u in \<open>auto simp: sg'_def\<close>)
  moreover have "tiles (bsz sg') (bpv sg') (bfn sg') (88 + span pre + s) r post"
    by (rule tiles_cong [OF _ hd(5)]) (use u t(5) in \<open>auto simp: sg'_def pre\<close>)
  moreover have "dll (bfn sg') (bfp sg') (56 # remove1 ?p fs @ [?l])" using u(4) by (simp add: sg'_def)
  ultimately have "seg_hole sg' pre' (t + s) post (remove1 ?p fs) r"
    unfolding seg_hole_def using fr hd t u
    by (simp add: sg'_def pre add.assoc add.left_commute distinct_remove1)
  with merged m pre show ?thesis by blast
qed

lemma merge_next_hole:
  assumes h: "seg_hole sg pre s post fs r"
  obtains (same) "sma_merge_next (88 + span pre) sg = Some sg" "post = [] \<or> \<not> snd (hd post)"
  | (merged) t post' sg' fs' where "post = (t, True) # post'"
      "sma_merge_next (88 + span pre) sg = Some sg'" "seg_hole sg' pre (s + t) post' fs' t"
proof -
  note hd = seg_holeD [OF h]
  let ?c = "88 + span pre"
  let ?n = "88 + span pre + s"
  let ?l = "88 + span pre + s + span post"
  have nx: "NEXT_SBLOCK sg ?c = ?n" using hd(2) by (simp add: NEXT_SBLOCK_def field_folds)
  show ?thesis
  proof (cases "post = [] \<or> \<not> snd (hd post)")
    case True
    then have "bfn sg ?n = 0" using hd(5) by (cases post) (auto split: prod.splits)
    then have "sma_merge_next ?c sg = Some sg" by (simp add: sma_merge_next_def nx Let_def field_folds)
    with True same show ?thesis by blast
  next
    case False
    then obtain t post' where post: "post = (t, True) # post'"
      by (cases post) auto
    have t: "bsz sg ?n = t" "bfn sg ?n \<noteq> 0" "32 \<le> t" "tiles (bsz sg) (bpv sg) (bfn sg) (?n + t) t post'"
      using hd(5) by (auto simp: post)
    have nin: "?n \<in> set fs" using hd(8) by (simp add: post)
    note u = sma_unlink_list [OF hd(6) seg_hole_distinct(1,2) [OF h] nin]
    define sg' where "sg' = set_size ?c (s + t) (sma_unlink ?n sg)"
    have nn: "NEXT_SBLOCK sg ?n = ?n + t" using t by (simp add: NEXT_SBLOCK_def field_folds)
    have pv: "bpv sg (?n + t) = t" by (rule tiles_first [OF t(4)])
    have add: "sz_add s t = s + t" using hd(11) by (simp add: post sz_simps)
    have m: "sma_merge_next ?c sg = Some sg'"
      using t pv add hd(2) by (simp add: sma_merge_next_def nx nn Let_def field_folds u(1) sg'_def)
    have "?n \<notin> set (frees 88 pre)" "?n \<notin> set (frees (?n + t) post')"
      using frees_range [OF hd(1), of ?n] frees_range [OF tiles_tpre [OF t(4)], of ?n] t(3) by auto
    then have fr: "set (remove1 ?n fs) = set (frees 88 pre) \<union> set (frees (?c + (s + t)) post')"
      using hd(7,8) by (auto simp: post add.assoc)
    have "tpre (bsz sg') (bpv sg') (bfn sg') 88 0 pre"
      by (rule tpre_cong [OF _ hd(1)]) (use u in \<open>auto simp: sg'_def\<close>)
    moreover have "tiles (bsz sg') (bpv sg') (bfn sg') (?n + t) t post'"
      by (rule tiles_cong [OF _ t(4)]) (use u hd(4) in \<open>auto simp: sg'_def\<close>)
    moreover have "dll (bfn sg') (bfp sg') (56 # remove1 ?n fs @ [?l])" using u(4) by (simp add: sg'_def)
    ultimately have "seg_hole sg' pre (s + t) post' (remove1 ?n fs) t"
      unfolding seg_hole_def using fr hd t u
      by (simp add: sg'_def post add.assoc add.left_commute distinct_remove1)
    with merged m post show ?thesis by blast
  qed
qed

lemma insert_free_rep:
  assumes h: "seg_hole sg pre s post fs r"
    and adj: "noadj pre" "noadj post" "pre = [] \<or> \<not> snd (last pre)" "post = [] \<or> \<not> snd (hd post)"
  shows "seg_rep (sma_insert_free (88 + span pre) sg) (pre @ (s, True) # post) ((88 + span pre) # fs)"
proof -
  note hd = seg_holeD [OF h]
  let ?c = "88 + span pre"
  let ?n = "88 + span pre + s"
  let ?l = "88 + span pre + s + span post"
  let ?sg = "sma_insert_free ?c sg"
  note di = seg_hole_distinct [OF h]
  obtain Z vs where Z: "fs @ [?l] = Z # vs" by (metis append_is_Nil_conv list.exhaust list.distinct(1))
  have d: "dll (bfn sg) (bfp sg) (56 # Z # vs)" using hd(6) Z by simp
  have di': "distinct (56 # Z # vs)" "0 \<notin> set (56 # Z # vs)" "?c \<notin> set (56 # Z # vs)"
    using di Z by auto
  have N56: "bfn sg 56 = Z" using d by simp
  have ne: "Z \<noteq> 0" "Z \<noteq> 56" "Z \<noteq> ?c" "?c \<noteq> 56" using di' by auto
  have nx: "NEXT_SBLOCK sg ?c = ?n" using hd(2) by (simp add: NEXT_SBLOCK_def field_folds)
  have flds: "bsz ?sg = bsz sg" "bpv ?sg = (bpv sg)(?n := s)"
    "bfn ?sg = (bfn sg)(?c := Z, 56 := ?c)" "bfp ?sg = (bfp sg)(?c := 56, Z := ?c)"
    using N56 ne hd(2) by (simp_all add: sma_insert_free_def Let_def field_folds nx)
  have n0: "x \<ge> 88 \<Longrightarrow> x \<noteq> ?c \<Longrightarrow> (bfn ?sg x = 0) = (bfn sg x = 0)" for x using flds by auto
  have "tiles (bsz ?sg) (bpv sg) (bfn ?sg) ?n r post"
    by (rule tiles_cong [OF _ hd(5)]) (use n0 flds hd(4) in auto)
  then have "tiles (bsz ?sg) (bpv ?sg) (bfn ?sg) ?n s post" unfolding flds(2) by (rule tiles_prev)
  moreover have "tpre (bsz ?sg) (bpv ?sg) (bfn ?sg) 88 0 pre"
    by (rule tpre_cong [OF _ hd(1)]) (use n0 flds hd(4) in auto)
  ultimately have tl: "tiles (bsz ?sg) (bpv ?sg) (bfn ?sg) 88 0 (pre @ (s, True) # post)"
    unfolding tiles_append using hd(2,3,4) ne by (simp add: flds)
  have "dll (bfn ?sg) (bfp ?sg) (56 # ?c # Z # vs)"
    by (rule dll_insert_front [OF d di'(1,3)]) (use flds ne in auto)
  then have dl: "dll (bfn ?sg) (bfp ?sg) (56 # (?c # fs) @ [?l])" using Z by simp
  have "noadj (pre @ (s, True) # post)" using adj by (auto simp: noadj_append noadj_Cons)
  moreover have "seg_header ?sg = seg_header sg" by (simp add: sma_insert_free_def Let_def)
  ultimately show ?thesis
    unfolding seg_rep_def using tl dl hd di
    by (simp add: add.assoc)
qed

text \<open>
  What freeing does to the tiling: the freed block and the free blocks at its two edges become
  one free block.
\<close>

definition drop_last_free :: "tiling \<Rightarrow> tiling \<times> nat" where
  "drop_last_free pre = (if pre \<noteq> [] \<and> snd (last pre) then (butlast pre, fst (last pre)) else (pre, 0))"

definition drop_first_free :: "tiling \<Rightarrow> nat \<times> tiling" where
  "drop_first_free post = (case post of (t, True) # post' \<Rightarrow> (t, post') | _ \<Rightarrow> (0, post))"

definition coalesce :: "tiling \<Rightarrow> nat \<Rightarrow> tiling \<Rightarrow> tiling" where
  "coalesce pre s post =
     fst (drop_last_free pre) @ (snd (drop_last_free pre) + s + fst (drop_first_free post), True) #
     snd (drop_first_free post)"

lemma sma_deallocate_rep:
  assumes rep: "seg_rep sg (pre @ (s, False) # post) fs"
  shows "\<exists>sg' fs'. sma_deallocate sg (88 + span pre + 32) = Some (s, sg') \<and>
    seg_rep sg' (coalesce pre s post) fs'"
proof -
  define sg1 where "sg1 = set_avail (sz_add (avail (seg_header sg)) (bsz sg (88 + span pre))) sg"
  have h1: "seg_hole sg1 pre s post fs 0" unfolding sg1_def by (rule hole_open [OF rep])
  have na: "noadj pre" "noadj post"
    using seg_repD(6) [OF rep] by (auto simp: noadj_append noadj_Cons)
  obtain pre2 s2 sg2 fs2 where
    m: "sma_merge_prev (88 + span pre) sg1 = (88 + span pre2, sg2)"
    and h2: "seg_hole sg2 pre2 s2 post fs2 0" and p2: "pre2 = fst (drop_last_free pre)"
    and s2: "s2 = snd (drop_last_free pre) + s" and l2: "noadj pre2" "pre2 = [] \<or> \<not> snd (last pre2)"
  proof (cases rule: merge_prev_hole [OF h1])
    case 1
    then have d: "drop_last_free pre = (pre, 0)" by (auto simp: drop_last_free_def)
    show ?thesis by (rule that [OF 1(1) h1 _ _ na(1) 1(2)]) (simp_all add: d)
  next
    case (2 pre' t sg' fs')
    have l: "pre' = [] \<or> \<not> snd (last pre')" "noadj pre'"
      using na(1) unfolding 2(1) by (auto simp: noadj_append)
    have d: "drop_last_free pre = (pre', t)" by (simp add: drop_last_free_def 2(1))
    show ?thesis by (rule that [OF 2(2,3) _ _ l(2,1)]) (simp_all add: d)
  qed
  obtain post3 s3 sg3 fs3 r3 where
    m3: "sma_merge_next (88 + span pre2) sg2 = Some sg3"
    and h3: "seg_hole sg3 pre2 s3 post3 fs3 r3" and p3: "post3 = snd (drop_first_free post)"
    and s3: "s3 = s2 + fst (drop_first_free post)" and l3: "noadj post3" "post3 = [] \<or> \<not> snd (hd post3)"
  proof (cases rule: merge_next_hole [OF h2])
    case 1
    then have d: "drop_first_free post = (0, post)"
      by (auto simp: drop_first_free_def split: list.splits bool.splits)
    show ?thesis by (rule that [OF 1(1) h2 _ _ na(2) 1(2)]) (simp_all add: d)
  next
    case (2 t post' sg' fs')
    have l: "post' = [] \<or> \<not> snd (hd post')" "noadj post'"
      using na(2) unfolding 2(1) by (auto simp: noadj_Cons)
    have d: "drop_first_free post = (t, post')" by (simp add: drop_first_free_def 2(1))
    show ?thesis by (rule that [OF 2(2,3) _ _ l(2,1)]) (simp_all add: d)
  qed
  have "sma_deallocate sg (88 + span pre + 32) = Some (s, sma_insert_free (88 + span pre2) sg3)"
    using m m3 seg_holeD(2) [OF h1]
    by (simp add: sma_deallocate_def Let_def field_folds sg1_def [symmetric])
      (simp add: sg1_def)
  moreover have "seg_rep (sma_insert_free (88 + span pre2) sg3) (coalesce pre s post) ((88 + span pre2) # fs3)"
    using insert_free_rep [OF h3 l2(1) l3(1) l2(2) l3(2)]
    by (simp add: coalesce_def p2 p3 s2 s3)
  ultimately show ?thesis by blast
qed

end
