(* ===== verification/Apc_Sma_Format.thy ===== *)
theory Apc_Sma_Format imports Apc_Sma_Free begin

text \<open>
  A freshly formatted segment is well-formed, and the two segment operations together keep the
  contract of an allocator: what is handed out is new, large enough and apart from everything
  already handed out, and freeing takes back exactly one block.
\<close>

lemma sma_format_rep:
  assumes n: "184 \<le> n" "n < SIZE_LIMIT"
  shows "seg_rep (sma_format n lock sg) [(n - 152, True)] [88]"
proof -
  have a: "sz_sub (sz_sub (sz_sub n 56) 32) 32 = n - 120" using n by (simp add: sz_simps)
  have b: "sz_sub (n - 120) 32 = n - 152" using n by (simp add: sz_simps)
  have c: "sz_add 56 32 = 88" by (simp add: sz_add_def SIZE_LIMIT_def)
  have d: "sz_add 88 (n - 152) = n - 64" using n by (simp add: sz_simps)
  have ne: "n - 64 \<noteq> 56" "n - 64 \<noteq> 88" "56 \<noteq> n - 64" "88 \<noteq> n - 64" using n by auto
  let ?s = "sma_format n lock sg"
  have e: "sma_format n lock sg = \<lparr>seg_header = \<lparr>sma_lock = lock, segsize = n, avail = n - 120\<rparr>,
     seg_blk = (seg_blk sg)(56 := \<lparr>blk_size = 0, prev_size = 0, fnext = 88, fprev = 0\<rparr>,
        88 := \<lparr>blk_size = n - 152, prev_size = 0, fnext = n - 64, fprev = 56\<rparr>,
        n - 64 := \<lparr>blk_size = 0, prev_size = n - 152, fnext = 0, fprev = 88\<rparr>)\<rparr>" (is "_ = ?e")
    using ne by (simp add: sma_format_def upd_blk_def Let_def a b c d)
  have x: "88 + (n - 152) = n - 64" using n by simp
  show ?thesis using n ne unfolding seg_rep_def e
    by (simp add: field_defs x)
qed

lemma sma_format_ok: "184 \<le> n \<Longrightarrow> n < SIZE_LIMIT \<Longrightarrow> seg_ok (sma_format n lock sg)"
  using sma_format_rep unfolding seg_ok_def by blast

lemma sma_format_live: "184 \<le> n \<Longrightarrow> n < SIZE_LIMIT \<Longrightarrow> seg_live (sma_format n lock sg) = {}"
  using seg_rep_live [OF sma_format_rep] by simp

end
