(* ===== verification/Apc_Sma.thy ===== *)
theory Apc_Sma imports Apc_Sma_Format Apc_Mmap begin

text \<open>
  \<open>apc_sma.c\<close>, the allocator over all segments: initialisation and detaching, allocation with
  its single retry after an expunge, freeing by address, and the information calls. The client
  whose \<open>expunge\<close> the allocator calls is a parameter together with its state; the cache supplies
  it. Each segment is locked as the source locks it, through the mutex in its header.
\<close>

section \<open>State\<close>

record apc_sma_t =
  initialized :: bool
  num :: nat
  sma_size :: nat
  sma_last :: nat
  segs :: "apc_segment_t list"

definition DEFAULT_NUMSEG :: nat where "DEFAULT_NUMSEG = 1"

definition DEFAULT_SEGSIZE :: nat where "DEFAULT_SEGSIZE = 30 * 1024 * 1024"

definition SMA_MEM :: "apc_sma_t \<Rightarrow> nat \<Rightarrow> sma_seg" where
  "SMA_MEM sma i = seg_mem (segs sma ! i)"

definition SMA_ADDR :: "apc_sma_t \<Rightarrow> nat \<Rightarrow> nat" where
  "SMA_ADDR sma i = shmaddr (segs sma ! i)"

definition set_mem :: "nat \<Rightarrow> sma_seg \<Rightarrow> apc_sma_t \<Rightarrow> apc_sma_t" where
  "set_mem i m sma = sma\<lparr>segs := (segs sma)[i := (segs sma ! i)\<lparr>seg_mem := m\<rparr>]\<rparr>"

definition set_lock :: "apc_mutex_t \<Rightarrow> sma_seg \<Rightarrow> sma_seg" where
  "set_lock m sg = sg\<lparr>seg_header := (seg_header sg)\<lparr>sma_lock := m\<rparr>\<rparr>"

text \<open>
  \<open>SMA_LOCK\<close> and \<open>SMA_UNLOCK\<close>. The signal depth they raise and lower is accounted for in the
  lock theory (\<open>msec.under_restores\<close>); here it starts from 0 and is not kept.
\<close>

definition SMA_LOCK :: "apc_sma_t \<Rightarrow> nat \<Rightarrow> (bool \<times> apc_sma_t) option" where
  "SMA_LOCK sma i = do {
     (ok, m, _) \<leftarrow> apc_mutex_lock (sma_lock (seg_header (SMA_MEM sma i))) 0;
     Some (ok, set_mem i (set_lock m (SMA_MEM sma i)) sma)
   }"

definition SMA_UNLOCK :: "apc_sma_t \<Rightarrow> nat \<Rightarrow> apc_sma_t option" where
  "SMA_UNLOCK sma i = do {
     (_, m, _) \<leftarrow> apc_mutex_unlock (sma_lock (seg_header (SMA_MEM sma i))) 1;
     Some (set_mem i (set_lock m (SMA_MEM sma i)) sma)
   }"

section \<open>apc_sma_init, apc_sma_detach\<close>

text \<open>
  \<open>memcpy(&mask[strlen(mask)-6], "XXXXXX", 6)\<close>; a shorter mask is written outside its bounds.
\<close>

definition reset_mask :: "string \<Rightarrow> string option" where
  "reset_mask m = (if 6 \<le> length m then Some (take (length m - 6) m @ ''XXXXXX'') else None)"

text \<open>
  One turn of the loop: \<open>sys i\<close> are the answers of the system calls for segment \<open>i\<close>,
  \<open>mutex_init i\<close> that of \<open>pthread_mutex_init\<close>. \<open>Inl\<close> is a fatal error.
\<close>

primrec sma_init_loop ::
  "(nat \<Rightarrow> mm_sys) \<Rightarrow> (nat \<Rightarrow> int) \<Rightarrow> nat \<Rightarrow> nat \<Rightarrow> nat list \<Rightarrow> string option \<Rightarrow> os_state \<Rightarrow>
   ((string + apc_segment_t list \<times> string option) \<times> os_state) option" where
  "sma_init_loop sys mutex_init nseg sz [] msk os = Some (Inr ([], msk), os)"
| "sma_init_loop sys mutex_init nseg sz (i # is) msk os =
     (case apc_mmap (sys i) msk sz os of
        (Inl e, os1) \<Rightarrow> Some (Inl e, os1)
      | (Inr (sg, msk1), os1) \<Rightarrow> do {
          msk2 \<leftarrow> (if nseg \<noteq> 1
                  then (case msk1 of None \<Rightarrow> None | Some m \<Rightarrow> map_option Some (reset_mask m))
                  else Some msk1);
          let sg1 = sg\<lparr>seg_size := sz,
                      seg_mem := sma_format sz (snd (apc_mutex_create (mutex_init i))) (seg_mem sg)\<rparr>;
          (r, os2) \<leftarrow> sma_init_loop sys mutex_init nseg sz is msk2 os1;
          Some (case r of Inl e \<Rightarrow> Inl e | Inr (sgs, m) \<Rightarrow> Inr (sg1 # sgs, m), os2)
        })"

definition sma_numseg :: "int \<Rightarrow> string option \<Rightarrow> nat" where
  "sma_numseg n msk =
     (if msk = None \<or> msk = Some [] \<or> msk = Some ''/dev/zero'' then 1
      else if 0 < n then nat n else DEFAULT_NUMSEG)"

definition apc_sma_init ::
  "(nat \<Rightarrow> mm_sys) \<Rightarrow> (nat \<Rightarrow> int) \<Rightarrow> apc_sma_t \<Rightarrow> int \<Rightarrow> nat \<Rightarrow> string option \<Rightarrow> os_state \<Rightarrow>
   ((string + apc_sma_t \<times> string option) \<times> os_state) option" where
  "apc_sma_init sys mutex_init sma n sz msk os =
     (if initialized sma then Some (Inr (sma, msk), os)
      else (let ns = sma_numseg n msk;
                ssz = (if 0 < sz then sz else DEFAULT_SEGSIZE)
            in do {
              (r, os1) \<leftarrow> sma_init_loop sys mutex_init ns ssz [0..<ns] msk os;
              Some (case r of
                  Inl e \<Rightarrow> Inl e
                | Inr (sgs, m) \<Rightarrow>
                    Inr (sma\<lparr>initialized := True, num := ns, sma_size := ssz, segs := sgs\<rparr>, m), os1)
            }))"

definition apc_sma_detach :: "(nat \<Rightarrow> int) \<Rightarrow> apc_sma_t \<Rightarrow> os_state \<Rightarrow> (apc_sma_t \<times> os_state) option" where
  "apc_sma_detach munmap_result sma os = do {
     assert_c (initialized sma);
     let sma1 = sma\<lparr>initialized := False\<rparr>;
     Some (sma1\<lparr>segs := []\<rparr>, fold (\<lambda>i. apc_unmap (munmap_result i) (segs sma ! i)) [0..<num sma] os)
   }"

section \<open>apc_sma_malloc_ex\<close>

text \<open>How an attempt ends: a lock could not be taken, no segment had room, or an address.\<close>

datatype attempt = LockFailed | NoRoom | Got nat

definition sma_attempt :: "nat \<Rightarrow> nat \<Rightarrow> bool \<Rightarrow> nat \<Rightarrow> nat \<Rightarrow> apc_sma_t \<Rightarrow> (attempt \<times> nat \<times> apc_sma_t) option" where
  "sma_attempt n fragment note_last i allocated sma = do {
     (ok, sma1) \<leftarrow> SMA_LOCK sma i;
     if \<not> ok then Some (LockFailed, allocated, sma1)
     else do {
       (off, allocated1, m) \<leftarrow> sma_allocate (SMA_MEM sma1 i) n fragment allocated;
       let sma2 = set_mem i m sma1;
       if off \<noteq> SIZE_MAX then do {
         let p = SMA_ADDR sma2 i + off;
         sma3 \<leftarrow> SMA_UNLOCK (if note_last then sma2\<lparr>sma_last := i\<rparr> else sma2) i;
         Some (Got p, allocated1, sma3)
       } else do {
         sma3 \<leftarrow> SMA_UNLOCK sma2 i;
         Some (NoRoom, allocated1, sma3)
       }
     }
   }"

primrec sma_scan ::
  "nat \<Rightarrow> nat \<Rightarrow> nat \<Rightarrow> nat list \<Rightarrow> nat \<Rightarrow> apc_sma_t \<Rightarrow> (attempt \<times> nat \<times> apc_sma_t) option" where
  "sma_scan n fragment lst [] allocated sma = Some (NoRoom, allocated, sma)"
| "sma_scan n fragment lst (i # is) allocated sma =
     (if i = lst then sma_scan n fragment lst is allocated sma
      else do {
        (r, allocated1, sma1) \<leftarrow> sma_attempt n fragment True i allocated sma;
        if r = NoRoom then sma_scan n fragment lst is allocated1 sma1
        else Some (r, allocated1, sma1)
      })"

text \<open>The code between the label \<open>restart\<close> and the expunge.\<close>

definition sma_try :: "nat \<Rightarrow> nat \<Rightarrow> nat \<Rightarrow> nat \<Rightarrow> apc_sma_t \<Rightarrow> (attempt \<times> nat \<times> apc_sma_t) option" where
  "sma_try n fragment lst allocated sma = do {
     assert_c (initialized sma);
     (r, allocated1, sma1) \<leftarrow> sma_attempt n fragment False lst allocated sma;
     if r = NoRoom then sma_scan n fragment lst [0..<num sma1] allocated1 sma1
     else Some (r, allocated1, sma1)
   }"

definition attempt_ptr :: "attempt \<Rightarrow> nat" where
  "attempt_ptr r = (case r of Got p \<Rightarrow> p | _ \<Rightarrow> 0)"

text \<open>
  \<open>expunge\<close> takes the client's state and the allocator, since it frees through it. The result is
  the address (0 is \<open>NULL\<close>), \<open>*allocated\<close>, and both states.
\<close>

definition apc_sma_malloc_ex ::
  "(apc_sma_t \<times> 'c \<Rightarrow> nat \<Rightarrow> (apc_sma_t \<times> 'c) option) \<Rightarrow> apc_sma_t \<times> 'c \<Rightarrow> nat \<Rightarrow> nat \<Rightarrow>
   (nat \<times> nat \<times> apc_sma_t \<times> 'c) option" where
  "apc_sma_malloc_ex expunge s n allocated = do {
     let fragment = MINBLOCKSIZE;
     let lst = sma_last (fst s);
     (r, allocated1, sma1) \<leftarrow> sma_try n fragment lst allocated (fst s);
     if r = NoRoom then do {
       (sma2, c2) \<leftarrow> expunge (sma1, snd s) (sz_add n fragment);
       (r2, allocated2, sma3) \<leftarrow> sma_try n fragment lst allocated1 sma2;
       Some (attempt_ptr r2, allocated2, sma3, c2)
     } else Some (attempt_ptr r, allocated1, sma1, snd s)
   }"

definition apc_sma_malloc ::
  "(apc_sma_t \<times> 'c \<Rightarrow> nat \<Rightarrow> (apc_sma_t \<times> 'c) option) \<Rightarrow> apc_sma_t \<times> 'c \<Rightarrow> nat \<Rightarrow>
   (nat \<times> apc_sma_t \<times> 'c) option" where
  "apc_sma_malloc expunge s n = do {
     (p, _, s1) \<leftarrow> apc_sma_malloc_ex expunge s n 0;
     Some (p, s1)
   }"

section \<open>apc_sma_free\<close>

text \<open>
  The first segment whose address range holds \<open>p\<close>; an address in none of them ends in
  \<open>apc_error\<close>, which does not return.
\<close>

definition sma_owner :: "apc_sma_t \<Rightarrow> nat \<Rightarrow> nat option" where
  "sma_owner sma p =
     List.find (\<lambda>i. SMA_ADDR sma i \<le> p \<and> p - SMA_ADDR sma i < sma_size sma) [0..<num sma]"

definition apc_sma_free :: "apc_sma_t \<Rightarrow> nat \<Rightarrow> apc_sma_t option" where
  "apc_sma_free sma p =
     (if p = 0 then Some sma
      else do {
        assert_c (initialized sma);
        i \<leftarrow> sma_owner sma p;
        (ok, sma1) \<leftarrow> SMA_LOCK sma i;
        if \<not> ok then Some sma1
        else do {
          (_, m) \<leftarrow> sma_deallocate (SMA_MEM sma1 i) (p - SMA_ADDR sma i);
          SMA_UNLOCK (set_mem i m sma1) i
        }
      })"

definition apc_sma_protect :: "apc_sma_t \<Rightarrow> nat \<Rightarrow> nat" where
  "apc_sma_protect sma p = p"

definition apc_sma_unprotect :: "apc_sma_t \<Rightarrow> nat \<Rightarrow> nat" where
  "apc_sma_unprotect sma p = p"

section \<open>Information\<close>

text \<open>A link of \<open>apc_sma_link_t\<close> is (size, offset).\<close>

record apc_sma_info_t =
  num_seg :: nat
  info_seg_size :: nat
  info_list :: "(nat \<times> nat) list list"

partial_function (option) sma_links :: "sma_seg \<Rightarrow> nat \<Rightarrow> (nat \<times> nat) list option" where
  "sma_links m prv =
     (let cur = fnext (seg_blk m prv)
      in if fnext (seg_blk m cur) \<noteq> 0
         then do {
           ls \<leftarrow> sma_links m cur;
           Some ((blk_size (seg_blk m cur), cur) # ls)
         }
         else Some [])"

text \<open>\<open>SMA_LOCK\<close> is called without looking at its result, and unlocked in any case.\<close>

definition sma_info_segment :: "apc_sma_t \<Rightarrow> nat \<Rightarrow> ((nat \<times> nat) list \<times> apc_sma_t) option" where
  "sma_info_segment sma i = do {
     (_, sma1) \<leftarrow> SMA_LOCK sma i;
     ls \<leftarrow> sma_links (SMA_MEM sma1 i) FIRST_BLOCK;
     sma2 \<leftarrow> SMA_UNLOCK sma1 i;
     Some (ls, sma2)
   }"

primrec sma_info_segments :: "apc_sma_t \<Rightarrow> nat list \<Rightarrow> ((nat \<times> nat) list list \<times> apc_sma_t) option" where
  "sma_info_segments sma [] = Some ([], sma)"
| "sma_info_segments sma (i # is) = do {
     (ls, sma1) \<leftarrow> sma_info_segment sma i;
     (lss, sma2) \<leftarrow> sma_info_segments sma1 is;
     Some (ls # lss, sma2)
   }"

definition apc_sma_info :: "apc_sma_t \<Rightarrow> bool \<Rightarrow> (apc_sma_info_t option \<times> apc_sma_t) option" where
  "apc_sma_info sma limited =
     (if \<not> initialized sma then Some (None, sma)
      else (let info = \<lparr>num_seg = num sma,
                  info_seg_size = sz_sub (sma_size sma)
                    (sz_add (ALIGNWORD SIZEOF_SMA_HEADER) (sz_add (ALIGNWORD SIZEOF_BLOCK) (ALIGNWORD SIZEOF_BLOCK))),
                  info_list = replicate (num sma) []\<rparr>
            in if limited then Some (Some info, sma)
               else do {
                 (lss, sma1) \<leftarrow> sma_info_segments sma [0..<num sma];
                 Some (Some (info\<lparr>info_list := lss\<rparr>), sma1)
               }))"

definition apc_sma_get_avail_mem :: "apc_sma_t \<Rightarrow> nat" where
  "apc_sma_get_avail_mem sma =
     fold (\<lambda>i m. sz_add m (avail (seg_header (SMA_MEM sma i)))) [0..<num sma] 0"

definition apc_sma_get_avail_size :: "apc_sma_t \<Rightarrow> nat \<Rightarrow> bool" where
  "apc_sma_get_avail_size sma sz =
     list_ex (\<lambda>i. avail (seg_header (SMA_MEM sma i)) > sz) [0..<num sma]"

end
