(* ===== verification/Apc_Sma_Contract.thy ===== *)
theory Apc_Sma_Contract imports Apc_Sma begin

text \<open>
  The two segment operations stated over the set of live blocks, and the allocator contract as
  a locale, which one segment already satisfies.
\<close>

section \<open>The lock inside the header\<close>

lemma fields_set_lock [simp]:
  "bsz (set_lock k m) = bsz m" "bpv (set_lock k m) = bpv m" "bfn (set_lock k m) = bfn m"
  "bfp (set_lock k m) = bfp m"
  by (simp_all add: set_lock_def field_defs fun_eq_iff)

lemma header_set_lock [simp]:
  "avail (seg_header (set_lock k m)) = avail (seg_header m)"
  "segsize (seg_header (set_lock k m)) = segsize (seg_header m)"
  "sma_lock (seg_header (set_lock k m)) = k" "seg_blk (set_lock k m) = seg_blk m"
  by (simp_all add: set_lock_def)

lemma set_lock_twice [simp]: "set_lock k (set_lock k' m) = set_lock k m"
  by (simp add: set_lock_def)

lemma set_lock_same: "k = sma_lock (seg_header m) \<Longrightarrow> set_lock k m = m"
  by (simp add: set_lock_def)

lemma seg_rep_set_lock [simp]: "seg_rep (set_lock k m) bs fs = seg_rep m bs fs"
  by (simp add: seg_rep_def)

lemma seg_ok_set_lock [simp]: "seg_ok (set_lock k m) = seg_ok m"
  by (simp add: seg_ok_def)

lemma seg_walk_set_lock: "seg_walk n (set_lock k m) a = seg_walk n m a"
  by (induction n arbitrary: a) simp_all

lemma seg_live_set_lock [simp]: "seg_live (set_lock k m) = seg_live m"
  by (simp add: seg_live_def seg_blocks_def seg_walk_set_lock)

lemma header_steps [simp]:
  "seg_header (sma_unlink_whole c m) = seg_header m" "seg_header (sma_split c r m) = seg_header m"
  by (simp_all add: sma_unlink_whole_def sma_split_def Let_def)

lemma sma_allocate_lock:
  assumes "sma_allocate m n fr al = Some (off, al', m')"
  shows "sma_lock (seg_header m') = sma_lock (seg_header m)"
proof -
  have if_header: "seg_header (if b then sma_unlink_whole c m else sma_split c r m) = seg_header m" for b c r
    by simp
  have lock: "sma_lock (seg_header (set_avail v (upd_blk c f k))) = sma_lock (seg_header k)" for v c f k
    by (simp add: set_avail_def)
  define r where "r = ALIGNWORD (sz_add n 32)"
  note rr = r_def [symmetric]
  consider (small) "avail (seg_header m) < r" | (diverges) "\<not> avail (seg_header m) < r" "find_block m r = None"
    | (none) "\<not> avail (seg_header m) < r" "find_block m r = Some None"
    | (found) c where "\<not> avail (seg_header m) < r" "find_block m r = Some (Some c)"
    by (metis not_Some_eq)
  then show ?thesis
  proof cases
    case small
    then have "sma_allocate m n fr al = Some (SIZE_MAX, al, m)" by (simp add: sma_allocate_def rr Let_def)
    with assms show ?thesis by simp
  next
    case diverges
    then have "sma_allocate m n fr al = None" by (simp add: sma_allocate_def rr Let_def)
    with assms show ?thesis by simp
  next
    case none
    then have "sma_allocate m n fr al = Some (SIZE_MAX, al, m)" by (simp add: sma_allocate_def rr Let_def)
    with assms show ?thesis by simp
  next
    case found
    define bb where "bb = (blk_size (seg_blk m c) = r \<or> r < blk_size (seg_blk m c) \<and>
      blk_size (seg_blk m c) < sz_add r (sz_add 40 fr))"
    define m1 where "m1 = (if bb then sma_unlink_whole c m else sma_split c r m)"
    define v where "v = sz_sub (avail (seg_header (set_fnext c 0 m1))) (blk_size (seg_blk (set_fnext c 0 m1) c))"
    have "sma_allocate m n fr al = Some (sz_add c 32, sz_sub (if bb then blk_size (seg_blk m c) else r) 32,
        set_avail v (set_fnext c 0 m1))"
      by (simp only: sma_allocate_def rr Let_def layout_constants bind.bind_lunit found if_False
          option.case bb_def [symmetric] m1_def [symmetric] v_def [symmetric])
    then have "m' = set_avail v (set_fnext c 0 m1)" using assms by simp
    then show ?thesis by (simp only: lock m1_def if_header)
  qed
qed

lemma sma_deallocate_lock:
  assumes "sma_deallocate m off = Some (sz, m')"
  shows "sma_lock (seg_header m') = sma_lock (seg_header m)"
proof -
  have a: "seg_header (snd (sma_merge_prev c m1)) = seg_header m1" for c m1
    by (simp add: sma_merge_prev_def sma_unlink_def Let_def split: option.splits)
  have b: "sma_merge_next c m1 = Some m2 \<Longrightarrow> seg_header m2 = seg_header m1" for c m1 m2
    by (auto simp: sma_merge_next_def sma_unlink_def Let_def split: if_splits Option.bind_splits)
  have c: "seg_header (sma_insert_free c m1) = seg_header m1" for c m1
    by (simp add: sma_insert_free_def Let_def)
  define m1 where "m1 = set_avail (sz_add (avail (seg_header m)) (blk_size (seg_blk m (off - 32)))) m"
  obtain c2 m2 where mp: "sma_merge_prev (off - 32) m1 = (c2, m2)" by (cases "sma_merge_prev (off - 32) m1")
  have e: "sma_deallocate m off = do {
      assert_c (32 \<le> off);
      m3 \<leftarrow> sma_merge_next c2 m2;
      Some (blk_size (seg_blk m1 (off - 32)), sma_insert_free c2 m3)}"
    by (simp only: sma_deallocate_def Let_def layout_constants m1_def [symmetric] mp prod.case)
  then obtain m3 where m3: "sma_merge_next c2 m2 = Some m3" "m' = sma_insert_free c2 m3"
    using assms by (cases "32 \<le> off"; cases "sma_merge_next c2 m2") auto
  have "seg_header m2 = seg_header m1" using a [of "off - 32" m1] mp by simp
  moreover have "sma_lock (seg_header m1) = sma_lock (seg_header m)" by (simp add: m1_def set_avail_def)
  ultimately show ?thesis using m3 b [OF m3(1)] c by simp
qed

section \<open>Live blocks\<close>

lemma sma_allocate_live:
  assumes ok: "seg_ok m" and n: "n + 39 < SIZE_LIMIT" and fr: "fr \<le> 64"
  obtains (full) "sma_allocate m n fr al = Some (SIZE_MAX, al, m)"
      "\<forall>s. (s, True) \<in> set (seg_blocks m) \<longrightarrow> s < realsize_of n"
  | (got) x l m' where "sma_allocate m n fr al = Some (x, l, m')" "x \<noteq> SIZE_MAX" "seg_ok m'"
      "n \<le> l" "l < n + 8 + 40 + fr" "seg_live m' = insert (x, l) (seg_live m)" "x \<notin> fst ` seg_live m"
      "segsize (seg_header m') = segsize (seg_header m)"
      "avail (seg_header m') + l + 32 = avail (seg_header m)"
      "sma_lock (seg_header m') = sma_lock (seg_header m)"
proof -
  from ok obtain bs fs where rep: "seg_rep m bs fs" unfolding seg_ok_def by blast
  note b = realsize_of_bounds [OF n]
  note lim = seg_repD(8,9) [OF rep]
  consider (a) "sma_allocate m n fr al = Some (SIZE_MAX, al, m)" "\<forall>s. (s, True) \<in> set bs \<longrightarrow> s < realsize_of n"
    | (b) pre s post k fs' m' where "bs = pre @ (s, True) # post"
        "sma_allocate m n fr al = Some (88 + span pre + 32, k - 32, m')" "realsize_of n \<le> k" "k \<le> s"
        "k < realsize_of n + (40 + fr)"
        "seg_rep m' (pre @ (s, False) # post) fs' \<and> k = s \<or>
         seg_rep m' (pre @ (k, False) # (s - k, True) # post) fs' \<and> k < s"
    using sma_allocate_rep [OF rep n fr, of al]
    apply (elim disjE exE conjE)
    subgoal by blast
    subgoal premises p for pre s post m' fs' using p that(2) [of pre s post s m' fs'] by auto
    subgoal premises p for pre s post m' fs' using p that(2) [of pre s post "realsize_of n" m' fs'] b by auto
    done
  then show ?thesis
  proof cases
    case a
    with full show ?thesis by (simp add: seg_rep_blocks [OF rep])
  next
    case bb: (b pre s post k fs' m')
    let ?x = "88 + span pre + 32"
    have s32: "32 \<le> k" using bb b by simp
    define bs' where "bs' = (if k = s then pre @ (s, False) # post else pre @ (k, False) # (s - k, True) # post)"
    have rep': "seg_rep m' bs' fs'" using bb(6) by (auto simp: bs'_def)
    have lv: "set (lives 88 bs') = insert (?x, k - 32) (set (lives 88 bs))"
      and av: "free_total bs' + k = free_total bs" and sp: "span bs' = span bs"
      using bb(4) by (simp_all add: bs'_def bb(1) add.assoc)
    have "(?x, l') \<notin> set (lives 88 bs)" for l'
    proof
      assume h: "(?x, l') \<in> set (lives 88 bs)"
      have r: "tpre (bsz m) (bpv m) (bfn m) 88 0 pre" "tpre (bsz m) (bpv m) (bfn m) (88 + span pre + s) s post"
        using seg_repD(2) [OF rep] unfolding bb(1) tpre_append by auto
      have "32 \<le> s" using s32 bb by simp
      with h show False using lives_range [OF r(1)] lives_range [OF r(2)] unfolding bb(1) by fastforce
    qed
    then have "?x \<notin> fst ` seg_live m" using seg_rep_live [OF rep] by auto
    moreover have "?x \<noteq> SIZE_MAX"
      using lim(2) unfolding bb(1) by (simp add: SIZE_MAX_def SIZE_LIMIT_def)
    moreover have "seg_live m' = insert (?x, k - 32) (seg_live m)"
      using seg_rep_live [OF rep] seg_rep_live [OF rep'] lv by simp
    moreover have "segsize (seg_header m') = segsize (seg_header m)"
      using seg_repD(8) [OF rep'] lim sp by simp
    moreover have "avail (seg_header m') + (k - 32) + 32 = avail (seg_header m)"
      using seg_repD(7) [OF rep'] seg_repD(7) [OF rep] av s32 by simp
    moreover have "seg_ok m'" using rep' unfolding seg_ok_def by blast
    moreover have "n \<le> k - 32" "k - 32 < n + 8 + 40 + fr" using bb(3,5) b by simp_all
    ultimately show ?thesis using sma_allocate_lock [OF bb(2)]
      by (intro got [OF bb(2)]) simp_all
  qed
qed

lemma span_coalesce: "span (coalesce pre s post) = span pre + s + span post"
  by (cases pre rule: rev_cases; cases post)
    (auto simp: coalesce_def drop_last_free_def drop_first_free_def split: bool.splits)

lemma lives_coalesce:
  "set (lives a (coalesce pre s post)) = set (lives a pre) \<union> set (lives (a + span pre + s) post)"
  by (cases pre rule: rev_cases; cases post)
    (auto simp: coalesce_def drop_last_free_def drop_first_free_def add.assoc split: bool.splits)

lemma free_total_coalesce: "free_total (coalesce pre s post) = free_total pre + s + free_total post"
  by (cases pre rule: rev_cases; cases post)
    (auto simp: coalesce_def drop_last_free_def drop_first_free_def split: bool.splits)

lemma sma_deallocate_live:
  assumes ok: "seg_ok m" and x: "(x, l) \<in> seg_live m"
  obtains m' where "sma_deallocate m x = Some (l + 32, m')" "seg_ok m'" "seg_live m' = seg_live m - {(x, l)}"
      "segsize (seg_header m') = segsize (seg_header m)"
      "avail (seg_header m') = avail (seg_header m) + l + 32"
      "sma_lock (seg_header m') = sma_lock (seg_header m)"
proof -
  from ok obtain bs fs where rep: "seg_rep m bs fs" unfolding seg_ok_def by blast
  have lv: "seg_live m = set (lives 88 bs)" by (rule seg_rep_live [OF rep])
  from x lv obtain pre s post where bs: "bs = pre @ (s, False) # post"
    and xx: "x = 88 + span pre + 32" and ll: "l = s - 32"
    using lives_split [of x l 88 bs] by auto
  from sma_deallocate_rep [OF rep [unfolded bs]] obtain m' fs'
    where d: "sma_deallocate m x = Some (s, m')" and rep': "seg_rep m' (coalesce pre s post) fs'"
    unfolding xx by blast
  have r: "tpre (bsz m) (bpv m) (bfn m) 88 0 pre" "tpre (bsz m) (bpv m) (bfn m) (88 + span pre + s) 0 post"
    and s32: "32 \<le> s"
    using seg_repD(2) [OF rep] unfolding bs tpre_append by auto
  have "(x, l') \<notin> set (lives 88 pre)" "(x, l') \<notin> set (lives (88 + span pre + s) post)" for l'
    using lives_range [OF r(1)] lives_range [OF r(2)] s32 unfolding xx by fastforce+
  then have "seg_live m' = seg_live m - {(x, l)}"
    using seg_rep_live [OF rep'] unfolding lives_coalesce lv bs by (auto simp: xx ll)
  moreover have "segsize (seg_header m') = segsize (seg_header m)"
    using seg_repD(8) [OF rep'] seg_repD(8) [OF rep] by (simp add: span_coalesce bs)
  moreover have "avail (seg_header m') = avail (seg_header m) + l + 32"
    using seg_repD(7) [OF rep'] seg_repD(7) [OF rep] s32 by (simp add: free_total_coalesce bs ll)
  moreover have "seg_ok m'" using rep' unfolding seg_ok_def by blast
  moreover have "sma_deallocate m x = Some (l + 32, m')" using d s32 by (simp add: ll)
  ultimately show ?thesis using sma_deallocate_lock [OF d] by (intro that)
qed

section \<open>The contract of an allocator\<close>

text \<open>
  What a client of an allocator does: it asks for memory and later gives back what it got.
  \<open>owned\<close> lists the address and the requested size of everything it holds; \<open>Release k\<close> gives
  back the \<open>k\<close>-th of them.
\<close>

datatype request = Request nat | Release nat

definition drop_nth :: "nat \<Rightarrow> 'a list \<Rightarrow> 'a list" where
  "drop_nth k xs = take k xs @ drop (Suc k) xs"

fun alloc_session ::
  "(nat \<Rightarrow> 's \<Rightarrow> (nat option \<times> 's) option) \<Rightarrow> (nat \<Rightarrow> 's \<Rightarrow> 's option) \<Rightarrow> request list \<Rightarrow>
   (nat \<times> nat) list \<Rightarrow> 's \<Rightarrow> ((nat \<times> nat) list \<times> 's) option" where
  "alloc_session alloc dealloc [] owned s = Some (owned, s)"
| "alloc_session alloc dealloc (Request n # rs) owned s = do {
     (r, s1) \<leftarrow> alloc n s;
     alloc_session alloc dealloc rs (case r of None \<Rightarrow> owned | Some p \<Rightarrow> (p, n) # owned) s1
   }"
| "alloc_session alloc dealloc (Release k # rs) owned s =
     (if k < length owned
      then do {
        s1 \<leftarrow> dealloc (fst (owned ! k)) s;
        alloc_session alloc dealloc rs (drop_nth k owned) s1
      }
      else alloc_session alloc dealloc rs owned s)"

lemma drop_nth_keys:
  assumes "k < length xs" "distinct (map f xs)"
  shows "f ` set (drop_nth k xs) = f ` set xs - {f (xs ! k)}" "distinct (map f (drop_nth k xs))"
    "set (drop_nth k xs) \<subseteq> set xs"
proof -
  obtain us y vs where xs: "xs = us @ y # vs" "length us = k"
    using id_take_nth_drop [OF assms(1)] assms(1) by (metis length_take min.absorb4)
  have "drop_nth k xs = us @ vs" "xs ! k = y" using xs by (simp_all add: drop_nth_def nth_append)
  then show "f ` set (drop_nth k xs) = f ` set xs - {f (xs ! k)}" "distinct (map f (drop_nth k xs))"
    "set (drop_nth k xs) \<subseteq> set xs"
    using assms(2) by (simp_all add: xs(1) image_Un Diff_insert0 Un_Diff)  auto
qed

text \<open>
  Everything the client owns is live with at least the size requested, nothing else is live,
  and the ranges it owns do not overlap.
\<close>

definition owns :: "(nat \<times> nat) set \<Rightarrow> (nat \<times> nat) list \<Rightarrow> bool" where
  "owns lv owned \<longleftrightarrow> distinct (map fst owned) \<and> fst ` lv = fst ` set owned \<and>
     (\<forall>(p, n) \<in> set owned. \<exists>l \<ge> n. (p, l) \<in> lv)"

definition ranges_apart :: "(nat \<times> nat) list \<Rightarrow> bool" where
  "ranges_apart owned \<longleftrightarrow> (\<forall>i < length owned. \<forall>j < length owned. i \<noteq> j \<longrightarrow>
     fst (owned ! i) + snd (owned ! i) \<le> fst (owned ! j) \<or>
     fst (owned ! j) + snd (owned ! j) \<le> fst (owned ! i))"

definition requests_fit :: "nat \<Rightarrow> request list \<Rightarrow> bool" where
  "requests_fit b rs \<longleftrightarrow> (\<forall>n. Request n \<in> set rs \<longrightarrow> n < b)"

lemma owns_size: "owns lv owned \<Longrightarrow> (p, n) \<in> set owned \<Longrightarrow> \<exists>l \<ge> n. (p, l) \<in> lv"
  by (auto simp: owns_def)

locale allocator =
  fixes inv :: "'s \<Rightarrow> bool"
    and live :: "'s \<Rightarrow> (nat \<times> nat) set"
    and alloc :: "nat \<Rightarrow> 's \<Rightarrow> (nat option \<times> 's) option"
    and dealloc :: "nat \<Rightarrow> 's \<Rightarrow> 's option"
    and bound :: nat
  assumes alloc_law: "inv s \<Longrightarrow> n < bound \<Longrightarrow> \<exists>r s'. alloc n s = Some (r, s') \<and> inv s' \<and>
      (case r of None \<Rightarrow> live s' = live s
       | Some p \<Rightarrow> p \<notin> fst ` live s \<and> (\<exists>l \<ge> n. live s' = insert (p, l) (live s)))"
    and dealloc_law: "inv s \<Longrightarrow> (p, l) \<in> live s \<Longrightarrow>
      \<exists>s'. dealloc p s = Some s' \<and> inv s' \<and> live s' = live s - {(p, l)}"
    and apart_law: "inv s \<Longrightarrow> (p, l) \<in> live s \<Longrightarrow> (q, m) \<in> live s \<Longrightarrow> p \<noteq> q \<Longrightarrow> p + l \<le> q \<or> q + m \<le> p"
    and functional_law: "inv s \<Longrightarrow> (p, l) \<in> live s \<Longrightarrow> (p, m) \<in> live s \<Longrightarrow> l = m"
begin

lemma owns_apart:
  assumes "inv s" "owns (live s) owned"
  shows "ranges_apart owned"
  unfolding ranges_apart_def
proof (intro allI impI)
  fix i j assume ij: "i < length owned" "j < length owned" "i \<noteq> j"
  obtain p n q k where o: "owned ! i = (p, n)" "owned ! j = (q, k)" by (cases "owned ! i"; cases "owned ! j")
  have "map fst owned ! i \<noteq> map fst owned ! j"
    using assms(2) ij unfolding owns_def distinct_conv_nth by simp
  then have "p \<noteq> q" using ij o by simp
  moreover have "(p, n) \<in> set owned" "(q, k) \<in> set owned" using ij o by (metis nth_mem)+
  then obtain l m where "(p, l) \<in> live s" "n \<le> l" "(q, m) \<in> live s" "k \<le> m"
    using owns_size [OF assms(2)] by blast
  ultimately have "p + l \<le> q \<or> q + m \<le> p" using apart_law [OF assms(1)] by blast
  with \<open>n \<le> l\<close> \<open>k \<le> m\<close> show "fst (owned ! i) + snd (owned ! i) \<le> fst (owned ! j) \<or>
     fst (owned ! j) + snd (owned ! j) \<le> fst (owned ! i)" by (auto simp: o)
qed

lemma owns_release:
  assumes "inv s" "owns (live s) owned" "k < length owned" "(fst (owned ! k), l) \<in> live s"
  shows "owns (live s - {(fst (owned ! k), l)}) (drop_nth k owned)"
proof -
  let ?p = "fst (owned ! k)"
  have d: "distinct (map fst owned)" using assms(2) by (simp add: owns_def)
  note dn = drop_nth_keys [where f = fst, OF assms(3) d]
  have "fst ` (live s - {(?p, l)}) = fst ` live s - {?p}"
    using functional_law [OF assms(1,4)] by force
  moreover have "\<exists>l' \<ge> n. (q, l') \<in> live s - {(?p, l)}" if m: "(q, n) \<in> set (drop_nth k owned)" for q n
  proof -
    have "(q, n) \<in> set owned" using m dn(3) by blast
    moreover have "q \<in> fst ` set (drop_nth k owned)" using m by (metis fst_conv image_eqI)
    then have "q \<noteq> ?p" unfolding dn(1) by blast
    ultimately show ?thesis using owns_size [OF assms(2)] by blast
  qed
  ultimately show ?thesis using assms(2) dn(1,2) by (auto simp: owns_def)
qed

lemma session_ok:
  "inv s \<Longrightarrow> owns (live s) owned \<Longrightarrow> requests_fit bound rs \<Longrightarrow>
   \<exists>owned' s'. alloc_session alloc dealloc rs owned s = Some (owned', s') \<and> inv s' \<and>
     owns (live s') owned' \<and> ranges_apart owned'"
proof (induction rs arbitrary: owned s)
  case Nil
  then show ?case using owns_apart by simp
next
  case (Cons q rs)
  have fit: "requests_fit bound rs" using Cons.prems(3) by (auto simp: requests_fit_def)
  show ?case
  proof (cases q)
    case (Request n)
    then have "n < bound" using Cons.prems(3) by (simp add: requests_fit_def)
    from alloc_law [OF Cons.prems(1) this] obtain r s1 where al: "alloc n s = Some (r, s1)" "inv s1"
      and r: "case r of None \<Rightarrow> live s1 = live s
        | Some p \<Rightarrow> p \<notin> fst ` live s \<and> (\<exists>l \<ge> n. live s1 = insert (p, l) (live s))" by blast
    have "owns (live s1) (case r of None \<Rightarrow> owned | Some p \<Rightarrow> (p, n) # owned)"
    proof (cases r)
      case None
      with Cons.prems(2) r show ?thesis by simp
    next
      case (Some p)
      with r obtain l where "p \<notin> fst ` live s" "n \<le> l" "live s1 = insert (p, l) (live s)" by auto
      with Some Cons.prems(2) show ?thesis by (auto simp: owns_def)
    qed
    from Cons.IH [OF al(2) this fit] show ?thesis by (simp add: Request al)
  next
    case (Release k)
    show ?thesis
    proof (cases "k < length owned")
      case True
      then have "owned ! k \<in> set owned" by simp
      then obtain l where l: "(fst (owned ! k), l) \<in> live s"
        using Cons.prems(2) by (fastforce simp: owns_def)
      from dealloc_law [OF Cons.prems(1) this] obtain s1 where
        de: "dealloc (fst (owned ! k)) s = Some s1" "inv s1" "live s1 = live s - {(fst (owned ! k), l)}" by blast
      from Cons.IH [OF de(2) _ fit, of "drop_nth k owned"] owns_release [OF Cons.prems(1,2) True l] de
      show ?thesis by (simp add: Release True)
    next
      case False
      with Cons.IH [OF Cons.prems(1,2) fit] show ?thesis by (simp add: Release)
    qed
  qed
qed

end

text \<open>One segment is an allocator: \<open>sma_allocate\<close> and \<open>sma_deallocate\<close> with the fragment size
  \<open>apc_sma_malloc_ex\<close> passes.\<close>

definition seg_alloc :: "nat \<Rightarrow> sma_seg \<Rightarrow> (nat option \<times> sma_seg) option" where
  "seg_alloc n m = do {
     (off, _, m1) \<leftarrow> sma_allocate m n MINBLOCKSIZE 0;
     Some (if off = SIZE_MAX then None else Some off, m1)
   }"

definition seg_free :: "nat \<Rightarrow> sma_seg \<Rightarrow> sma_seg option" where
  "seg_free off m = map_option snd (sma_deallocate m off)"

interpretation seg: allocator seg_ok seg_live seg_alloc seg_free "SIZE_LIMIT - 39"
proof
  show "\<exists>r s'. seg_alloc n m = Some (r, s') \<and> seg_ok s' \<and>
      (case r of None \<Rightarrow> seg_live s' = seg_live m
       | Some p \<Rightarrow> p \<notin> fst ` seg_live m \<and> (\<exists>l \<ge> n. seg_live s' = insert (p, l) (seg_live m)))"
    if ok: "seg_ok m" and n: "n < SIZE_LIMIT - 39" for m n
  proof -
    have n': "n + 39 < SIZE_LIMIT" using n by simp
    show ?thesis
      by (rule sma_allocate_live [OF ok n', of 40 0]) (auto simp: seg_alloc_def ok)
  qed
  show "\<exists>s'. seg_free p m = Some s' \<and> seg_ok s' \<and> seg_live s' = seg_live m - {(p, l)}"
    if "seg_ok m" "(p, l) \<in> seg_live m" for m p l
    by (rule sma_deallocate_live [OF that]) (simp add: seg_free_def)
  show "p + l \<le> q \<or> q + k \<le> p"
    if "seg_ok m" "(p, l) \<in> seg_live m" "(q, k) \<in> seg_live m" "p \<noteq> q" for m p l q k
    using seg_live_disjoint [OF that] by linarith
qed (rule seg_live_functional)

end
