(* ===== verification/Apc_Sma_Props.thy ===== *)
theory Apc_Sma_Props imports Apc_Sma_Contract begin

text \<open>
  The allocator over all segments: its invariant, what a call of \<open>apc_sma_malloc_ex\<close> and
  \<open>apc_sma_free\<close> does to the set of live blocks, initialisation, and the information calls.
\<close>

section \<open>Invariant\<close>

text \<open>
  The address ranges of the segments are mapped (not at \<open>NULL\<close>, within the address space) and
  apart; in each, the memory is a well-formed segment whose lock this process does not hold.
\<close>

definition sma_ok :: "apc_sma_t \<Rightarrow> bool" where
  "sma_ok sma \<longleftrightarrow> initialized sma \<and> num sma = length (segs sma) \<and> sma_last sma < num sma \<and>
     (\<forall>i < num sma. seg_ok (SMA_MEM sma i) \<and> segsize (seg_header (SMA_MEM sma i)) = sma_size sma \<and>
        \<not> mx_held (sma_lock (seg_header (SMA_MEM sma i))) \<and>
        0 < SMA_ADDR sma i \<and> SMA_ADDR sma i + sma_size sma \<le> SIZE_LIMIT) \<and>
     (\<forall>i < num sma. \<forall>j < num sma. i \<noteq> j \<longrightarrow>
        SMA_ADDR sma i + sma_size sma \<le> SMA_ADDR sma j \<or> SMA_ADDR sma j + sma_size sma \<le> SMA_ADDR sma i)"

definition sma_live :: "apc_sma_t \<Rightarrow> (nat \<times> nat) set" where
  "sma_live sma = (\<Union>i < num sma. (\<lambda>(x, l). (SMA_ADDR sma i + x, l)) ` seg_live (SMA_MEM sma i))"

text \<open>What no operation changes once the segments are mapped.\<close>

definition sma_frame :: "apc_sma_t \<Rightarrow> bool \<times> nat \<times> nat \<times> nat list \<times> apc_mutex_t list" where
  "sma_frame sma = (initialized sma, num sma, sma_size sma, map shmaddr (segs sma),
     map (\<lambda>sg. sma_lock (seg_header (seg_mem sg))) (segs sma))"

lemma sma_okD:
  assumes "sma_ok sma"
  shows "initialized sma" "num sma = length (segs sma)" "sma_last sma < num sma"
    "i < num sma \<Longrightarrow> seg_ok (SMA_MEM sma i)"
    "i < num sma \<Longrightarrow> segsize (seg_header (SMA_MEM sma i)) = sma_size sma"
    "i < num sma \<Longrightarrow> \<not> mx_held (sma_lock (seg_header (SMA_MEM sma i)))"
    "i < num sma \<Longrightarrow> 0 < SMA_ADDR sma i" "i < num sma \<Longrightarrow> SMA_ADDR sma i + sma_size sma \<le> SIZE_LIMIT"
    "i < num sma \<Longrightarrow> j < num sma \<Longrightarrow> i \<noteq> j \<Longrightarrow>
       SMA_ADDR sma i + sma_size sma \<le> SMA_ADDR sma j \<or> SMA_ADDR sma j + sma_size sma \<le> SMA_ADDR sma i"
  using assms by (simp_all add: sma_ok_def)

section \<open>Replacing the memory of one segment\<close>

lemma set_mem_simps [simp]:
  "initialized (set_mem i m sma) = initialized sma" "num (set_mem i m sma) = num sma"
  "sma_size (set_mem i m sma) = sma_size sma" "sma_last (set_mem i m sma) = sma_last sma"
  "length (segs (set_mem i m sma)) = length (segs sma)"
  by (simp_all add: set_mem_def not_less list_update_beyond)

lemma set_mem_addr [simp]: "SMA_ADDR (set_mem i m sma) j = SMA_ADDR sma j"
  by (cases "i < length (segs sma)") (auto simp: set_mem_def SMA_ADDR_def nth_list_update not_less list_update_beyond)

lemma set_mem_mem: "i < length (segs sma) \<Longrightarrow>
  SMA_MEM (set_mem i m sma) j = (if j = i then m else SMA_MEM sma j)"
  by (auto simp: set_mem_def SMA_MEM_def nth_list_update)

lemma set_mem_twice [simp]: "set_mem i m (set_mem i m' sma) = set_mem i m sma"
  by (cases "i < length (segs sma)") (simp_all add: set_mem_def not_less list_update_beyond)

lemma set_mem_same: "set_mem i (SMA_MEM sma i) sma = sma"
  by (cases "i < length (segs sma)") (simp_all add: set_mem_def SMA_MEM_def)

lemma last_simps [simp]:
  "SMA_MEM (sma\<lparr>sma_last := k\<rparr>) = SMA_MEM sma" "SMA_ADDR (sma\<lparr>sma_last := k\<rparr>) = SMA_ADDR sma"
  "sma_live (sma\<lparr>sma_last := k\<rparr>) = sma_live sma" "sma_frame (sma\<lparr>sma_last := k\<rparr>) = sma_frame sma"
  "set_mem i m (sma\<lparr>sma_last := k\<rparr>) = (set_mem i m sma)\<lparr>sma_last := k\<rparr>"
  by (simp_all add: fun_eq_iff SMA_MEM_def SMA_ADDR_def sma_live_def sma_frame_def set_mem_def)

lemma sma_ok_last: "sma_ok sma \<Longrightarrow> k < num sma \<Longrightarrow> sma_ok (sma\<lparr>sma_last := k\<rparr>)"
  by (simp add: sma_ok_def)

lemma sma_frame_set_mem:
  assumes "sma_lock (seg_header m) = sma_lock (seg_header (SMA_MEM sma i))"
  shows "sma_frame (set_mem i m sma) = sma_frame sma"
proof (cases "i < length (segs sma)")
  case True
  then have "map shmaddr ((segs sma)[i := (segs sma ! i)\<lparr>seg_mem := m\<rparr>]) = map shmaddr (segs sma)"
    "map (\<lambda>sg. sma_lock (seg_header (seg_mem sg))) ((segs sma)[i := (segs sma ! i)\<lparr>seg_mem := m\<rparr>]) =
      map (\<lambda>sg. sma_lock (seg_header (seg_mem sg))) (segs sma)"
    using assms by (auto simp: map_update SMA_MEM_def list_update_same_conv)
  then show ?thesis by (simp add: sma_frame_def set_mem_def)
next
  case False
  then show ?thesis by (simp add: sma_frame_def set_mem_def not_less list_update_beyond)
qed

lemma sma_ok_set_mem:
  assumes "sma_ok sma" "i < num sma" "seg_ok m" "\<not> mx_held (sma_lock (seg_header m))"
    "segsize (seg_header m) = sma_size sma"
  shows "sma_ok (set_mem i m sma)"
  using assms sma_okD(2) [OF assms(1)] by (auto simp: sma_ok_def set_mem_mem)

lemma sma_live_set_mem:
  assumes "sma_ok sma" "i < num sma"
  shows "sma_live (set_mem i m sma) =
    (\<lambda>(x, l). (SMA_ADDR sma i + x, l)) ` seg_live m \<union>
    (\<Union>j \<in> {..<num sma} - {i}. (\<lambda>(x, l). (SMA_ADDR sma j + x, l)) ` seg_live (SMA_MEM sma j))"
proof -
  have i: "i < length (segs sma)" using assms sma_okD(2) [OF assms(1)] by simp
  have "{..<num sma} = insert i ({..<num sma} - {i})" using assms(2) by auto
  then have "sma_live (set_mem i m sma) = (\<Union>j \<in> insert i ({..<num sma} - {i}).
      (\<lambda>(x, l). (SMA_ADDR sma j + x, l)) ` seg_live (SMA_MEM (set_mem i m sma) j))"
    by (simp add: sma_live_def)
  then show ?thesis by (simp only: UN_insert) (auto simp: set_mem_mem [OF i])
qed

lemma sma_live_seg: "i < num sma \<Longrightarrow> (x, l) \<in> seg_live (SMA_MEM sma i) \<Longrightarrow> (SMA_ADDR sma i + x, l) \<in> sma_live sma"
  by (force simp: sma_live_def)

lemma sma_liveE:
  assumes "(p, l) \<in> sma_live sma"
  obtains i x where "i < num sma" "p = SMA_ADDR sma i + x" "(x, l) \<in> seg_live (SMA_MEM sma i)"
  using assms by (auto simp: sma_live_def)

lemma sma_live_range:
  assumes ok: "sma_ok sma" and i: "i < num sma" and x: "(x, l) \<in> seg_live (SMA_MEM sma i)"
  shows "120 \<le> x" "x + l + 64 \<le> sma_size sma"
  using seg_live_bounds [OF sma_okD(4) [OF ok i] x] sma_okD(5) [OF ok i] by auto

text \<open>An address belongs to one segment only.\<close>

lemma sma_live_owner:
  assumes ok: "sma_ok sma" and ij: "i < num sma" "j < num sma"
    and "(x, l) \<in> seg_live (SMA_MEM sma i)" "y < sma_size sma" "SMA_ADDR sma i + x = SMA_ADDR sma j + y"
  shows "i = j \<and> x = y"
  using sma_live_range [OF ok ij(1) assms(4)] sma_okD(9) [OF ok ij] assms(5,6) by fastforce

lemma sma_live_disjoint:
  assumes ok: "sma_ok sma" and p: "(p, l) \<in> sma_live sma" and q: "(q, k) \<in> sma_live sma" and ne: "p \<noteq> q"
  shows "p + l \<le> q \<or> q + k \<le> p"
proof -
  obtain i x where a: "i < num sma" "p = SMA_ADDR sma i + x" "(x, l) \<in> seg_live (SMA_MEM sma i)"
    by (rule sma_liveE [OF p])
  obtain j y where b: "j < num sma" "q = SMA_ADDR sma j + y" "(y, k) \<in> seg_live (SMA_MEM sma j)"
    by (rule sma_liveE [OF q])
  show ?thesis
  proof (cases "i = j")
    case True
    then show ?thesis using seg_live_disjoint [OF sma_okD(4) [OF ok a(1)] a(3), of y k] a b ne by auto
  next
    case False
    then show ?thesis
      using sma_okD(9) [OF ok a(1) b(1)] sma_live_range [OF ok a(1,3)] sma_live_range [OF ok b(1,3)] a b
      by auto
  qed
qed

lemma sma_live_functional:
  assumes ok: "sma_ok sma" and p: "(p, l) \<in> sma_live sma" and q: "(p, k) \<in> sma_live sma"
  shows "l = k"
proof -
  obtain i x where a: "i < num sma" "p = SMA_ADDR sma i + x" "(x, l) \<in> seg_live (SMA_MEM sma i)"
    by (rule sma_liveE [OF p])
  obtain j y where b: "j < num sma" "p = SMA_ADDR sma j + y" "(y, k) \<in> seg_live (SMA_MEM sma j)"
    by (rule sma_liveE [OF q])
  have "SMA_ADDR sma i + x = SMA_ADDR sma j + y" using a(2) b(2) by simp
  with sma_live_owner [OF ok a(1) b(1) a(3)] sma_live_range [OF ok b(1,3)]
  have "i = j \<and> x = y" by simp
  then show ?thesis using seg_live_functional [OF sma_okD(4) [OF ok a(1)] a(3)] b by simp
qed

section \<open>One attempt in one segment\<close>

lemma SMA_LOCK_ok:
  assumes "i < length (segs sma)" "\<not> mx_held k" "k = sma_lock (seg_header (SMA_MEM sma i))"
  shows "SMA_LOCK sma i = Some (if mx_broken k then (False, sma)
    else (True, set_mem i (set_lock (k\<lparr>mx_held := True\<rparr>) (SMA_MEM sma i)) sma))"
  using assms by (auto simp: SMA_LOCK_def mutex_broken_lock mutex_free_lock set_lock_same set_mem_same)

lemma SMA_UNLOCK_ok:
  assumes "i < length (segs sma)" "sma_lock (seg_header (SMA_MEM sma i)) = k\<lparr>mx_held := True\<rparr>"
    "\<not> mx_broken k" "\<not> mx_held k"
  shows "SMA_UNLOCK sma i = Some (set_mem i (set_lock k (SMA_MEM sma i)) sma)"
proof -
  have k: "k\<lparr>mx_held := False\<rparr> = k" using assms(4) by simp
  show ?thesis using assms(1-3) by (simp add: SMA_UNLOCK_def mutex_held_unlock) (simp only: k)
qed

definition sma_broken :: "apc_sma_t \<Rightarrow> nat \<Rightarrow> bool" where
  "sma_broken sma i = mx_broken (sma_lock (seg_header (SMA_MEM sma i)))"

text \<open>No free block of segment \<open>i\<close> is large enough for \<open>n\<close> bytes.\<close>

definition seg_full :: "nat \<Rightarrow> apc_sma_t \<Rightarrow> nat \<Rightarrow> bool" where
  "seg_full n sma i \<longleftrightarrow> (\<forall>s. (s, True) \<in> set (seg_blocks (SMA_MEM sma i)) \<longrightarrow> s < realsize_of n)"

text \<open>What a successful attempt has done.\<close>

definition sma_gave :: "nat \<Rightarrow> apc_sma_t \<Rightarrow> nat \<Rightarrow> nat \<Rightarrow> apc_sma_t \<Rightarrow> bool" where
  "sma_gave n sma p l sma' \<longleftrightarrow> sma_ok sma' \<and> p \<noteq> 0 \<and> n \<le> l \<and> p \<notin> fst ` sma_live sma \<and>
     sma_live sma' = insert (p, l) (sma_live sma) \<and> sma_frame sma' = sma_frame sma"

text \<open>Giving out a block of one segment, when the segment is put back with the lock as it was.\<close>

lemma gave_from_segment:
  assumes ok: "sma_ok sma" and i: "i < num sma" and m: "seg_ok m2" "segsize (seg_header m2) = sma_size sma"
    and x: "seg_live m2 = insert (x, l) (seg_live (SMA_MEM sma i))" "x \<notin> fst ` seg_live (SMA_MEM sma i)" "n \<le> l"
  shows "sma_gave n sma (SMA_ADDR sma i + x) l (set_mem i (set_lock (sma_lock (seg_header (SMA_MEM sma i))) m2) sma)"
proof -
  let ?k = "sma_lock (seg_header (SMA_MEM sma i))"
  let ?s3 = "set_mem i (set_lock ?k m2) sma"
  have ok3: "sma_ok ?s3" by (rule sma_ok_set_mem [OF ok i]) (simp_all add: m sma_okD(6) [OF ok i])
  have "(x, l) \<in> seg_live m2" using x(1) by simp
  from seg_live_bounds [OF m(1) this] have xr: "120 \<le> x" "x < sma_size sma" by (simp_all add: m(2))
  have fresh: "SMA_ADDR sma i + x \<notin> fst ` sma_live sma"
  proof
    assume "SMA_ADDR sma i + x \<in> fst ` sma_live sma"
    then obtain l' where "(SMA_ADDR sma i + x, l') \<in> sma_live sma" by auto
    then obtain j y where j: "j < num sma" "SMA_ADDR sma i + x = SMA_ADDR sma j + y"
      "(y, l') \<in> seg_live (SMA_MEM sma j)" by (rule sma_liveE)
    with sma_live_owner [OF ok j(1) i j(3) xr(2)] have "(x, l') \<in> seg_live (SMA_MEM sma i)" by simp
    then show False using x(2) by force
  qed
  have "sma_live ?s3 = insert (SMA_ADDR sma i + x, l) (sma_live sma)"
    unfolding sma_live_set_mem [OF ok i]
    using sma_live_set_mem [OF ok i, of "SMA_MEM sma i"] by (simp add: set_mem_same x(1))
  moreover have "sma_frame ?s3 = sma_frame sma" by (rule sma_frame_set_mem) simp
  ultimately show ?thesis using ok3 i xr x(3) fresh by (simp add: sma_gave_def)
qed

lemma sma_attempt_ok:
  assumes ok: "sma_ok sma" and i: "i < num sma" and n: "n + 39 < SIZE_LIMIT"
  obtains (broken) "sma_broken sma i" "sma_attempt n 40 nl i al sma = Some (LockFailed, al, sma)"
  | (full) "\<not> sma_broken sma i" "sma_attempt n 40 nl i al sma = Some (NoRoom, al, sma)" "seg_full n sma i"
  | (got) p l sma' where "\<not> sma_broken sma i" "sma_attempt n 40 nl i al sma = Some (Got p, l, sma')"
      "sma_gave n sma p l sma'"
proof -
  let ?m = "SMA_MEM sma i"
  define k where "k = sma_lock (seg_header ?m)"
  have il: "i < length (segs sma)" using i sma_okD(2) [OF ok] by simp
  have kh: "\<not> mx_held k" using sma_okD(6) [OF ok i] by (simp add: k_def)
  note lk = SMA_LOCK_ok [OF il kh k_def]
  show ?thesis
  proof (cases "mx_broken k")
    case True
    with lk have "sma_attempt n 40 nl i al sma = Some (LockFailed, al, sma)" by (simp add: sma_attempt_def)
    with broken True show ?thesis by (simp add: sma_broken_def k_def)
  next
    case False
    define m1 where "m1 = set_lock (k\<lparr>mx_held := True\<rparr>) ?m"
    define s1 where "s1 = set_mem i m1 sma"
    have lk': "SMA_LOCK sma i = Some (True, s1)" using lk False by (simp add: s1_def m1_def)
    have mem1: "SMA_MEM s1 i = m1" by (simp add: s1_def set_mem_mem [OF il])
    have ok1: "seg_ok m1" "seg_live m1 = seg_live ?m" using sma_okD(4) [OF ok i] by (simp_all add: m1_def)
    have nb: "\<not> sma_broken sma i" using False by (simp add: sma_broken_def k_def)
    have bk: "set_lock k m1 = ?m" by (simp add: m1_def k_def set_lock_same)
    have fr: "40 \<le> (64::nat)" by simp
    show ?thesis
    proof (cases rule: sma_allocate_live [OF ok1(1) n fr, of al])
      case 1
      have "SMA_UNLOCK s1 i = Some sma"
        using SMA_UNLOCK_ok [of i s1 k] il False kh
        by (simp add: mem1 bk) (simp add: s1_def m1_def set_mem_same)
      moreover have "set_mem i m1 s1 = s1" by (simp add: s1_def)
      ultimately have "sma_attempt n 40 nl i al sma = Some (NoRoom, al, sma)"
        using 1(1) by (simp add: sma_attempt_def lk' mem1)
      moreover have "seg_full n sma i"
        using 1(2) by (simp add: seg_full_def m1_def seg_blocks_def seg_walk_set_lock)
      ultimately show ?thesis using nb full by blast
    next
      case (2 x l m2)
      let ?m3 = "set_lock k m2"
      define s3 where "s3 = set_mem i ?m3 sma"
      have sz: "segsize (seg_header m2) = sma_size sma" using 2(8) sma_okD(5) [OF ok i] by (simp add: m1_def)
      have g3: "sma_gave n sma (SMA_ADDR sma i + x) l s3"
        unfolding s3_def k_def by (rule gave_from_segment [OF ok i 2(3) sz]) (use 2(4,6,7) ok1(2) in simp_all)
      define s4 where "s4 = (if nl then s3\<lparr>sma_last := i\<rparr> else s3)"
      have "sma_gave n sma (SMA_ADDR sma i + x) l s4"
        using g3 i by (simp add: sma_gave_def s4_def s3_def sma_ok_last)
      moreover have "sma_attempt n 40 nl i al sma = Some (Got (SMA_ADDR sma i + x), l, s4)"
      proof -
        let ?s2 = "set_mem i m2 sma"
        have s1m: "set_mem i m2 s1 = ?s2" "SMA_ADDR s1 i = SMA_ADDR sma i" by (simp_all add: s1_def)
        have "SMA_UNLOCK (if nl then ?s2\<lparr>sma_last := i\<rparr> else ?s2) i = Some s4"
          using SMA_UNLOCK_ok [of i ?s2 k] SMA_UNLOCK_ok [of i "?s2\<lparr>sma_last := i\<rparr>" k] il False kh 2(10)
          by (simp add: set_mem_mem [OF il] m1_def s4_def s3_def)
        then show ?thesis using 2(1,2) by (cases nl) (simp_all add: sma_attempt_def lk' mem1 s1m Let_def)
      qed
      ultimately show ?thesis using nb got by blast
    qed
  qed
qed

section \<open>All segments, and the retry\<close>

lemma sma_scan_ok:
  assumes ok: "sma_ok sma" and n: "n + 39 < SIZE_LIMIT" and "set is \<subseteq> {..<num sma}"
  obtains (broken) i where "i < num sma" "sma_broken sma i" "sma_scan n 40 lst is al sma = Some (LockFailed, al, sma)"
  | (full) "sma_scan n 40 lst is al sma = Some (NoRoom, al, sma)" "\<forall>i \<in> set is. i \<noteq> lst \<longrightarrow> seg_full n sma i"
  | (got) p l sma' where "sma_scan n 40 lst is al sma = Some (Got p, l, sma')" "sma_gave n sma p l sma'"
  using assms(3)
proof (induction "is" arbitrary: thesis)
  case Nil
  then show ?case by simp
next
  case (Cons i "is")
  have sub: "set is \<subseteq> {..<num sma}" and i: "i < num sma" using Cons.prems(4) by auto
  show ?case
  proof (cases "i = lst")
    case True
    then have e: "sma_scan n 40 lst (i # is) al sma = sma_scan n 40 lst is al sma" by simp
    show ?thesis
      by (rule Cons.IH [OF _ _ _ sub]) (use Cons.prems(1-3) e True in auto)
  next
    case False
    show ?thesis
    proof (cases rule: sma_attempt_ok [OF ok i n, of True al])
      case 1
      then show ?thesis using Cons.prems(1) [OF i] False by simp
    next
      case 2
      then have e: "sma_scan n 40 lst (i # is) al sma = sma_scan n 40 lst is al sma"
        using False by simp
      show ?thesis
        by (rule Cons.IH [OF _ _ _ sub]) (use Cons.prems(1-3) e 2(3) in auto)
    next
      case (3 p l sma')
      then show ?thesis using Cons.prems(3) False by simp
    qed
  qed
qed

lemma sma_try_ok:
  assumes ok: "sma_ok sma" and n: "n + 39 < SIZE_LIMIT" and l: "lst < num sma"
  obtains (broken) i where "i < num sma" "sma_broken sma i" "sma_try n 40 lst al sma = Some (LockFailed, al, sma)"
  | (full) "sma_try n 40 lst al sma = Some (NoRoom, al, sma)" "\<forall>i < num sma. seg_full n sma i"
  | (got) p l sma' where "sma_try n 40 lst al sma = Some (Got p, l, sma')" "sma_gave n sma p l sma'"
proof (cases rule: sma_attempt_ok [OF ok l n, of False al])
  case 1
  then show ?thesis using broken [OF l] sma_okD(1) [OF ok] by (simp add: sma_try_def)
next
  case 2
  then have e: "sma_try n 40 lst al sma = sma_scan n 40 lst [0..<num sma] al sma"
    using sma_okD(1) [OF ok] by (simp add: sma_try_def)
  have sub: "set [0..<num sma] \<subseteq> {..<num sma}" by auto
  show ?thesis
  proof (cases rule: sma_scan_ok [OF ok n sub, of lst al])
    case (1 i)
    with broken e show ?thesis by simp
  next
    case f: 2
    have "\<forall>i < num sma. seg_full n sma i" using f(2) 2(3) by (metis atLeastLessThan_iff le0 set_upt)
    with full e f show ?thesis by simp
  next
    case (3 p l sma')
    with got e show ?thesis by simp
  qed
next
  case (3 p l sma')
  then show ?thesis using got sma_okD(1) [OF ok] by (simp add: sma_try_def)
qed

text \<open>
  The whole call, for a client whose \<open>expunge\<close> keeps an invariant \<open>I\<close> that contains \<open>sma_ok\<close>
  and leaves the number of segments alone. The state from which the block was finally taken is
  the initial one or the one after the single expunge.
\<close>

definition expunge_keeps :: "(apc_sma_t \<times> 'c \<Rightarrow> bool) \<Rightarrow> (apc_sma_t \<times> 'c \<Rightarrow> nat \<Rightarrow> (apc_sma_t \<times> 'c) option) \<Rightarrow> bool" where
  "expunge_keeps I expunge \<longleftrightarrow>
     (\<forall>s. I s \<longrightarrow> sma_ok (fst s)) \<and>
     (\<forall>s n. I s \<longrightarrow> (\<exists>s'. expunge s n = Some s' \<and> I s' \<and> sma_frame (fst s') = sma_frame (fst s)))"

lemma sma_frameD:
  assumes "sma_frame s' = sma_frame s"
  shows "num s' = num s" "sma_size s' = sma_size s"
  using assms by (simp_all add: sma_frame_def)

lemma sma_frame_locks:
  assumes "sma_frame s' = sma_frame s" "i < length (segs s)"
  shows "sma_broken s' i = sma_broken s i" "SMA_ADDR s' i = SMA_ADDR s i"
proof -
  from assms have e: "map shmaddr (segs s') = map shmaddr (segs s)"
    "map (\<lambda>sg. sma_lock (seg_header (seg_mem sg))) (segs s') = map (\<lambda>sg. sma_lock (seg_header (seg_mem sg))) (segs s)"
    by (simp_all add: sma_frame_def)
  then have l: "length (segs s') = length (segs s)" by (metis length_map)
  show "sma_broken s' i = sma_broken s i" "SMA_ADDR s' i = SMA_ADDR s i"
    using arg_cong [OF e(2), of "\<lambda>xs. xs ! i"] arg_cong [OF e(1), of "\<lambda>xs. xs ! i"] assms(2) l
    by (simp_all add: sma_broken_def SMA_MEM_def SMA_ADDR_def)
qed

lemma apc_sma_malloc_ex_ok:
  assumes ex: "expunge_keeps I expunge" and I: "I s" and n: "n + 39 < SIZE_LIMIT"
  obtains (broken) i s' where "i < num (fst s)" "sma_broken (fst s) i" "I s'"
      "s' = s \<or> expunge s (sz_add n 40) = Some s'"
      "apc_sma_malloc_ex expunge s n al = Some (0, al, s')" "sma_frame (fst s') = sma_frame (fst s)"
  | (full) s' where "apc_sma_malloc_ex expunge s n al = Some (0, al, s')" "I s'"
      "expunge s (sz_add n 40) = Some s'"
      "\<forall>i < num (fst s). seg_full n (fst s) i \<and> seg_full n (fst s') i" "sma_frame (fst s') = sma_frame (fst s)"
  | (got) p l s0 sma' where "apc_sma_malloc_ex expunge s n al = Some (p, l, sma', snd s0)" "I s0"
      "s0 = s \<or> (\<forall>i < num (fst s). seg_full n (fst s) i) \<and> expunge s (sz_add n 40) = Some s0"
      "sma_gave n (fst s0) p l sma'" "sma_frame sma' = sma_frame (fst s)"
proof -
  have Iok: "I s \<Longrightarrow> sma_ok (fst s)" for s using ex unfolding expunge_keeps_def by blast
  note ok = Iok [OF I]
  note lst = sma_okD(3) [OF ok]
  show ?thesis
  proof (cases rule: sma_try_ok [OF ok n lst, of al])
    case (1 i)
    then show ?thesis using broken [OF 1(1,2) I] by (simp add: apc_sma_malloc_ex_def attempt_ptr_def)
  next
    case 2
    define k where "k = sz_add n 40"
    note k = k_def
    obtain s2 where s2: "expunge s k = Some s2" "I s2" "sma_frame (fst s2) = sma_frame (fst s)"
      using ex I unfolding expunge_keeps_def by blast
    note ok2 = Iok [OF s2(2)]
    have ns: "num (fst s2) = num (fst s)" by (rule sma_frameD [OF s2(3)])
    have e: "apc_sma_malloc_ex expunge s n al =
      map_option (\<lambda>(r, a, sma3). (attempt_ptr r, a, sma3, snd s2)) (sma_try n 40 (sma_last (fst s)) al (fst s2))"
      using 2(1) s2(1) by (cases s; cases s2)
        (auto simp: apc_sma_malloc_ex_def k_def [symmetric] map_option_case split: option.splits)
    show ?thesis
    proof (cases rule: sma_try_ok [OF ok2 n lst [folded ns], of al])
      case (1 i)
      then have "sma_broken (fst s) i"
        using sma_frame_locks(1) [OF s2(3)] sma_okD(2) [OF ok] ns by simp
      with 1 show ?thesis using broken [of i s2] ns s2 by (simp add: e attempt_ptr_def k_def)
    next
      case f: 2
      show ?thesis by (rule full [of s2]) (use f 2(2) e s2 k ns in \<open>auto simp: attempt_ptr_def\<close>)
    next
      case (3 p l sma')
      show ?thesis by (rule got [of p l sma' s2]) (use 3 2(2) e s2 k ns in \<open>auto simp: attempt_ptr_def sma_gave_def\<close>)
    qed
  next
    case (3 p l sma')
    show ?thesis by (rule got [of p l sma' s]) (use 3 I in \<open>auto simp: apc_sma_malloc_ex_def attempt_ptr_def sma_gave_def\<close>)
  qed
qed

end
