(* ===== verification/Apc_Sma_Api.thy ===== *)
theory Apc_Sma_Api imports Apc_Sma_Props begin

text \<open>
  Freeing, initialising, detaching and reporting over all segments, and the whole allocator as
  an instance of the allocator contract.
\<close>

section \<open>apc_sma_free\<close>

lemma sma_owner_live:
  assumes ok: "sma_ok sma" and i: "i < num sma" and x: "(x, l) \<in> seg_live (SMA_MEM sma i)"
  shows "sma_owner sma (SMA_ADDR sma i + x) = Some i"
proof -
  let ?P = "\<lambda>j. SMA_ADDR sma j \<le> SMA_ADDR sma i + x \<and> SMA_ADDR sma i + x - SMA_ADDR sma j < sma_size sma"
  have xs: "x < sma_size sma" using sma_live_range [OF ok i x] by simp
  then have P: "?P i" by simp
  have only: "j = i" if "j < num sma" "?P j" for j
    using sma_live_owner [OF ok i that(1) x that(2) [THEN conjunct2]] that(2) by simp
  obtain j where j: "List.find ?P [0..<num sma] = Some j"
  proof -
    have "\<exists>j. j \<in> set [0..<num sma] \<and> ?P j" using P i by (intro exI [of _ i]) simp
    then have "List.find ?P [0..<num sma] \<noteq> None" unfolding find_None_iff by blast
    then show ?thesis using that by blast
  qed
  then have "?P j" "j < num sma" by (auto simp: find_Some_iff)
  with only have "j = i" by blast
  with j show ?thesis by (simp add: sma_owner_def)
qed

lemma apc_sma_free_ok:
  assumes ok: "sma_ok sma" and p: "(p, l) \<in> sma_live sma"
  obtains (broken) i where "i < num sma" "sma_broken sma i" "apc_sma_free sma p = Some sma"
  | (freed) sma' where "apc_sma_free sma p = Some sma'" "sma_ok sma'" "sma_live sma' = sma_live sma - {(p, l)}"
      "sma_frame sma' = sma_frame sma" "sma_last sma' = sma_last sma"
proof -
  obtain i x where i: "i < num sma" and px: "p = SMA_ADDR sma i + x" and x: "(x, l) \<in> seg_live (SMA_MEM sma i)"
    by (rule sma_liveE [OF p])
  let ?m = "SMA_MEM sma i"
  define k where "k = sma_lock (seg_header ?m)"
  have il: "i < length (segs sma)" using i sma_okD(2) [OF ok] by simp
  have kh: "\<not> mx_held k" using sma_okD(6) [OF ok i] by (simp add: k_def)
  have own: "sma_owner sma p = Some i" unfolding px by (rule sma_owner_live [OF ok i x])
  have p0: "p \<noteq> 0" using sma_okD(7) [OF ok i] px by simp
  note lk = SMA_LOCK_ok [OF il kh k_def]
  show ?thesis
  proof (cases "mx_broken k")
    case True
    with lk own p0 have "apc_sma_free sma p = Some sma"
      using sma_okD(1) [OF ok] by (simp add: apc_sma_free_def)
    with broken i True show ?thesis by (simp add: sma_broken_def k_def)
  next
    case False
    define m1 where "m1 = set_lock (k\<lparr>mx_held := True\<rparr>) ?m"
    define s1 where "s1 = set_mem i m1 sma"
    have lk': "SMA_LOCK sma i = Some (True, s1)" using lk False by (simp add: s1_def m1_def)
    have mem1: "SMA_MEM s1 i = m1" by (simp add: s1_def set_mem_mem [OF il])
    have ok1: "seg_ok m1" "(x, l) \<in> seg_live m1" using sma_okD(4) [OF ok i] x by (simp_all add: m1_def)
    obtain m2 where m2: "sma_deallocate m1 x = Some (l + 32, m2)" "seg_ok m2" "seg_live m2 = seg_live m1 - {(x, l)}"
      "segsize (seg_header m2) = segsize (seg_header m1)"
      "sma_lock (seg_header m2) = sma_lock (seg_header m1)"
      by (rule sma_deallocate_live [OF ok1])
    define s3 where "s3 = set_mem i (set_lock k m2) sma"
    have sz: "segsize (seg_header m1) = sma_size sma" using sma_okD(5) [OF ok i] by (simp add: m1_def)
    have ok3: "sma_ok s3" unfolding s3_def by (rule sma_ok_set_mem [OF ok i]) (simp_all add: m2(2,4) sz kh)
    have fr: "sma_frame s3 = sma_frame sma" unfolding s3_def by (rule sma_frame_set_mem) (simp add: k_def)
    let ?f = "\<lambda>j. \<lambda>(x, l). (SMA_ADDR sma j + x, l :: nat)"
    let ?others = "\<Union>j \<in> {..<num sma} - {i}. ?f j ` seg_live (SMA_MEM sma j)"
    have apart: "(p, l) \<notin> ?others"
    proof
      assume "(p, l) \<in> ?others"
      then obtain j y where j: "j < num sma" "j \<noteq> i" "p = SMA_ADDR sma j + y" "(y, l) \<in> seg_live (SMA_MEM sma j)"
        by auto
      have "y < sma_size sma" using sma_live_range [OF ok j(1,4)] by simp
      then show False using sma_live_owner [OF ok i j(1) x] j px by simp
    qed
    have inj: "inj (?f i)" by (auto simp: inj_def)
    have "sma_live s3 = ?f i ` (seg_live ?m - {(x, l)}) \<union> ?others"
      unfolding s3_def sma_live_set_mem [OF ok i] using m2(3) by (simp add: m1_def)
    also have "\<dots> = ?f i ` seg_live ?m \<union> ?others - {(p, l)}"
      using apart unfolding image_set_diff [OF inj] by (simp add: px Un_Diff)
    also have "?f i ` seg_live ?m \<union> ?others = sma_live sma"
      using sma_live_set_mem [OF ok i, of ?m] by (simp add: set_mem_same)
    finally have lv: "sma_live s3 = sma_live sma - {(p, l)}" .
    have "0 < SMA_ADDR sma i" by (rule sma_okD(7) [OF ok i])
    moreover have "SMA_UNLOCK (set_mem i m2 s1) i = Some s3"
      using SMA_UNLOCK_ok [of i "set_mem i m2 sma" k] il False kh m2(5)
      by (simp add: s1_def s3_def m1_def set_mem_mem [OF il])
    ultimately have "apc_sma_free sma p = Some s3"
      using own m2(1) sma_okD(1) [OF ok] by (simp add: apc_sma_free_def lk' mem1 px)
    then show ?thesis using ok3 lv fr by (intro freed [of s3]) (simp_all add: s3_def)
  qed
qed

section \<open>The allocator contract\<close>

text \<open>
  The allocator as its clients see it, with an expunge that frees nothing. \<open>sma_usable\<close> adds to
  the invariant that the locks could be set up.
\<close>

definition sma_usable :: "apc_sma_t \<Rightarrow> bool" where
  "sma_usable sma \<longleftrightarrow> sma_ok sma \<and> (\<forall>i < num sma. \<not> sma_broken sma i)"

definition no_expunge :: "apc_sma_t \<times> unit \<Rightarrow> nat \<Rightarrow> (apc_sma_t \<times> unit) option" where
  "no_expunge s n = Some s"

definition sma_alloc :: "nat \<Rightarrow> apc_sma_t \<Rightarrow> (nat option \<times> apc_sma_t) option" where
  "sma_alloc n sma = do {
     (p, _, sma1, _) \<leftarrow> apc_sma_malloc_ex no_expunge (sma, ()) n 0;
     Some (if p = 0 then None else Some p, sma1)
   }"

definition sma_dealloc :: "nat \<Rightarrow> apc_sma_t \<Rightarrow> apc_sma_t option" where
  "sma_dealloc p sma = apc_sma_free sma p"

lemma sma_usable_frame:
  assumes "sma_usable sma" "sma_ok sma'" "sma_frame sma' = sma_frame sma"
  shows "sma_usable sma'"
  using assms sma_frame_locks(1) [OF assms(3)] sma_frameD(1) [OF assms(3)] sma_okD(2) [of sma]
  by (simp add: sma_usable_def)

lemma no_expunge_keeps: "expunge_keeps (\<lambda>s. sma_ok (fst s)) no_expunge"
  by (simp add: expunge_keeps_def no_expunge_def)

interpretation smapi: allocator sma_usable sma_live sma_alloc sma_dealloc "SIZE_LIMIT - 39"
proof
  show "\<exists>r s'. sma_alloc n sma = Some (r, s') \<and> sma_usable s' \<and>
      (case r of None \<Rightarrow> sma_live s' = sma_live sma
       | Some p \<Rightarrow> p \<notin> fst ` sma_live sma \<and> (\<exists>l \<ge> n. sma_live s' = insert (p, l) (sma_live sma)))"
    if us: "sma_usable sma" and n: "n < SIZE_LIMIT - 39" for sma n
  proof -
    have n': "n + 39 < SIZE_LIMIT" using n by simp
    have ok: "sma_ok (fst (sma, ()))" using us by (simp add: sma_usable_def)
    from us have us': "sma_usable (fst s)" if "s = (sma, ()) \<or> no_expunge (sma, ()) k = Some s" for s k
      using that by (auto simp: no_expunge_def)
    show ?thesis
    proof (rule apc_sma_malloc_ex_ok [where al = 0 and s = "(sma, ())", OF no_expunge_keeps ok n'], goal_cases)
      case (1 i s')
      then have "s' = (sma, ())" by (auto simp: no_expunge_def)
      with 1 show ?case using us by (simp add: sma_alloc_def)
    next
      case (2 s')
      then have "s' = (sma, ())" by (auto simp: no_expunge_def)
      with 2 show ?case using us by (simp add: sma_alloc_def)
    next
      case (3 p l s0 sma')
      then have "s0 = (sma, ())" by (auto simp: no_expunge_def)
      with 3 show ?case using sma_usable_frame [OF us, of sma']
        by (auto simp: sma_alloc_def sma_gave_def)
    qed
  qed
  show "\<exists>s'. sma_dealloc p sma = Some s' \<and> sma_usable s' \<and> sma_live s' = sma_live sma - {(p, l)}"
    if us: "sma_usable sma" and p: "(p, l) \<in> sma_live sma" for sma p l
  proof -
    have ok: "sma_ok sma" using us by (simp add: sma_usable_def)
    show ?thesis
    proof (cases rule: apc_sma_free_ok [OF ok p])
      case (1 i)
      then show ?thesis using us by (simp add: sma_usable_def)
    next
      case (2 sma')
      then show ?thesis using sma_usable_frame [OF us] by (auto simp: sma_dealloc_def)
    qed
  qed
qed (auto simp: sma_usable_def dest: sma_live_disjoint sma_live_functional)

end
