(* ===== verification/Apc_Sma_Init.thy ===== *)
theory Apc_Sma_Init imports Apc_Sma_Api begin

text \<open>
  What \<open>apc_sma_init\<close> sets up, that \<open>apc_sma_detach\<close> gives all of it back, and what the
  information calls report.
\<close>

section \<open>Initialisation\<close>

text \<open>
  What the kernel guarantees of mappings: not at address 0, inside the address space, not
  overlapping.
\<close>

definition map_apart :: "nat \<times> nat \<Rightarrow> nat \<times> nat \<Rightarrow> bool" where
  "map_apart a b \<longleftrightarrow> fst a + snd a \<le> fst b \<or> fst b + snd b \<le> fst a"

definition maps_sound :: "(nat \<times> nat) list \<Rightarrow> bool" where
  "maps_sound ms \<longleftrightarrow> sorted_wrt map_apart ms \<and> (\<forall>(a, n) \<in> set ms. 0 < a \<and> 0 < n \<and> a + n \<le> SIZE_LIMIT)"

lemma map_apart_sym: "map_apart a b = map_apart b a"
  by (auto simp: map_apart_def)

lemma sorted_wrt_sym_nth:
  assumes "sorted_wrt R xs" "\<And>x y. R x y = R y x" "i < length xs" "j < length xs" "i \<noteq> j"
  shows "R (xs ! i) (xs ! j)"
  using assms by (metis nat_neq_iff sorted_wrt_nth_less)

definition init_seg :: "nat \<Rightarrow> apc_segment_t \<Rightarrow> bool" where
  "init_seg sz sg \<longleftrightarrow> seg_size sg = sz \<and> (\<exists>lk m. seg_mem sg = sma_format sz lk m \<and> \<not> mx_held lk)"

lemma sma_init_loop_result:
  "sma_init_loop sys mi ns sz is msk os = Some (Inr (sgs, msk'), os') \<Longrightarrow>
     length sgs = length is \<and> (\<forall>sg \<in> set sgs. init_seg sz sg) \<and>
     os_maps os' = rev (map (\<lambda>sg. (shmaddr sg, sz)) sgs) @ os_maps os \<and> os_rest os' = os_rest os"
proof (induction "is" arbitrary: msk os sgs)
  case (Cons i "is")
  from Cons.prems obtain sg msk1 os1 msk2 sgs1 where
    m: "apc_mmap (sys i) msk sz os = (Inr (sg, msk1), os1)"
    and r: "sma_init_loop sys mi ns sz is msk2 os1 = Some (Inr (sgs1, msk'), os')"
    and s: "sgs = sg\<lparr>seg_size := sz, seg_mem := sma_format sz (snd (apc_mutex_create (mi i))) (seg_mem sg)\<rparr> # sgs1"
    by (auto split: prod.splits sum.splits if_splits Option.bind_splits)
  have "init_seg sz (sg\<lparr>seg_size := sz, seg_mem := sma_format sz (snd (apc_mutex_create (mi i))) (seg_mem sg)\<rparr>)"
    unfolding init_seg_def by (intro conjI exI) (auto simp: apc_mutex_create_def)
  with Cons.IH [OF r] apc_mmap_leaves [OF m] s show ?case by simp
qed simp

lemma sma_format_header [simp]:
  "segsize (seg_header (sma_format n lk m)) = n" "sma_lock (seg_header (sma_format n lk m)) = lk"
  by (simp_all add: sma_format_def Let_def)

lemma sma_numseg_pos: "0 < sma_numseg n msk"
  by (simp add: sma_numseg_def DEFAULT_NUMSEG_def)

definition sma_segsize :: "nat \<Rightarrow> nat" where
  "sma_segsize sz = (if 0 < sz then sz else DEFAULT_SEGSIZE)"

lemma apc_sma_init_result:
  assumes "apc_sma_init sys mi sma n sz msk os = Some (Inr (sma', msk'), os')" "\<not> initialized sma"
  shows "initialized sma'" "num sma' = sma_numseg n msk" "sma_size sma' = sma_segsize sz"
    "sma_last sma' = sma_last sma" "length (segs sma') = sma_numseg n msk"
    "\<forall>sg \<in> set (segs sma'). init_seg (sma_segsize sz) sg"
    "os_maps os' = rev (map (\<lambda>sg. (shmaddr sg, sma_segsize sz)) (segs sma')) @ os_maps os"
    "os_rest os' = os_rest os"
proof -
  from assms obtain sgs where
    l: "sma_init_loop sys mi (sma_numseg n msk) (sma_segsize sz) [0..<sma_numseg n msk] msk os = Some (Inr (sgs, msk'), os')"
    and s: "sma' = sma\<lparr>initialized := True, num := sma_numseg n msk, sma_size := sma_segsize sz, segs := sgs\<rparr>"
    by (auto simp: apc_sma_init_def sma_segsize_def Let_def split: Option.bind_splits sum.splits prod.splits)
  from sma_init_loop_result [OF l] s show "initialized sma'" "num sma' = sma_numseg n msk"
    "sma_size sma' = sma_segsize sz" "sma_last sma' = sma_last sma" "length (segs sma') = sma_numseg n msk"
    "\<forall>sg \<in> set (segs sma'). init_seg (sma_segsize sz) sg"
    "os_maps os' = rev (map (\<lambda>sg. (shmaddr sg, sma_segsize sz)) (segs sma')) @ os_maps os"
    "os_rest os' = os_rest os" by simp_all
qed

lemma apc_sma_init_ok:
  assumes i: "apc_sma_init sys mi sma n sz msk os = Some (Inr (sma', msk'), os')"
    and fresh: "\<not> initialized sma" "sma_last sma = 0"
    and maps: "maps_sound (os_maps os')" and sz: "184 \<le> sma_segsize sz" "sma_segsize sz < SIZE_LIMIT"
  shows "sma_ok sma' \<and> sma_live sma' = {}"
proof -
  note r = apc_sma_init_result [OF i fresh(1)]
  let ?z = "sma_segsize sz"
  have sg: "init_seg ?z (segs sma' ! j)" if "j < num sma'" for j using r(2,5,6) that by simp
  have mem: "seg_ok (SMA_MEM sma' j) \<and> seg_live (SMA_MEM sma' j) = {} \<and>
      segsize (seg_header (SMA_MEM sma' j)) = ?z \<and> \<not> mx_held (sma_lock (seg_header (SMA_MEM sma' j)))"
    if "j < num sma'" for j
    using sg [OF that] sma_format_ok [OF sz] sma_format_live [OF sz] by (auto simp: init_seg_def SMA_MEM_def)
  let ?ms = "map (\<lambda>sg. (shmaddr sg, ?z)) (segs sma')"
  have "sorted_wrt map_apart (rev ?ms)" using maps r(7) by (simp add: maps_sound_def sorted_wrt_append)
  then have srt: "sorted_wrt map_apart ?ms"
    using map_apart_sym by (simp add: sorted_wrt_rev)
  have nth: "?ms ! j = (SMA_ADDR sma' j, ?z)" if "j < num sma'" for j
    using that r(2,5) by (simp add: SMA_ADDR_def)
  have rng: "0 < SMA_ADDR sma' j \<and> SMA_ADDR sma' j + ?z \<le> SIZE_LIMIT" if "j < num sma'" for j
  proof -
    have "j < length ?ms" using that r(2,5) by simp
    then have "(SMA_ADDR sma' j, ?z) \<in> set ?ms" using nth [OF that] by (metis nth_mem)
    then have "(SMA_ADDR sma' j, ?z) \<in> set (os_maps os')" unfolding r(7) by simp
    then show ?thesis using maps by (auto simp: maps_sound_def)
  qed
  have ap: "SMA_ADDR sma' j + ?z \<le> SMA_ADDR sma' k \<or> SMA_ADDR sma' k + ?z \<le> SMA_ADDR sma' j"
    if "j < num sma'" "k < num sma'" "j \<noteq> k" for j k
    using sorted_wrt_sym_nth [OF srt map_apart_sym, of j k] that r(2,5) by (simp add: SMA_ADDR_def map_apart_def)
  have "sma_ok sma'"
    unfolding sma_ok_def using mem rng ap r(1-5) fresh(2) sma_numseg_pos by auto
  moreover have "sma_live sma' = {}" using mem by (auto simp: sma_live_def)
  ultimately show ?thesis by blast
qed

text \<open>\<open>mkstemp\<close> replaces the last six characters of its template and nothing else.\<close>

definition mkstemp_sound :: "(nat \<Rightarrow> mm_sys) \<Rightarrow> bool" where
  "mkstemp_sound sys \<longleftrightarrow> (\<forall>i m. length (snd (sys_mkstemp (sys i) m)) = length m \<and>
     take (length m - 6) (snd (sys_mkstemp (sys i) m)) = take (length m - 6) m)"

lemma apc_mmap_mask:
  assumes "apc_mmap sys (Some m) sz os = (Inr (sg, msk'), os')"
  shows "msk' = Some m \<or> msk' = Some (snd (sys_mkstemp sys m))"
  using assms by (auto simp: apc_mmap_def mmap_backing_def Let_def split: if_splits prod.splits option.splits sum.splits)

lemma sma_init_loop_mask:
  "sma_init_loop sys mi ns sz is (Some (stem @ ''XXXXXX'')) os = Some (Inr (sgs, msk'), os') \<Longrightarrow>
   mkstemp_sound sys \<Longrightarrow> ns \<noteq> 1 \<Longrightarrow> msk' = Some (stem @ ''XXXXXX'')"
proof (induction "is" arbitrary: os sgs)
  case (Cons i "is")
  let ?m = "stem @ ''XXXXXX''"
  from Cons.prems obtain sg m1 os1 m2 sgs1 where
    m: "apc_mmap (sys i) (Some ?m) sz os = (Inr (sg, Some m1), os1)"
    and m2: "reset_mask m1 = Some m2"
    and r: "sma_init_loop sys mi ns sz is (Some m2) os1 = Some (Inr (sgs1, msk'), os')"
    by (auto split: prod.splits sum.splits if_splits Option.bind_splits option.splits)
  have "length m1 = length ?m \<and> take (length ?m - 6) m1 = stem"
  proof -
    have snd: "length (snd (sys_mkstemp (sys i) ?m)) = length ?m \<and>
        take (length ?m - 6) (snd (sys_mkstemp (sys i) ?m)) = take (length ?m - 6) ?m"
      using Cons.prems(2) unfolding mkstemp_sound_def by blast
    show ?thesis using apc_mmap_mask [OF m] snd by auto
  qed
  with m2 have "m2 = ?m" by (auto simp: reset_mask_def)
  with Cons r show ?case by simp
qed simp

section \<open>Detaching\<close>

lemma fold_remove1_rev: "distinct xs \<Longrightarrow> fold remove1 xs (rev xs @ ys) = ys"
  by (induction xs) (auto simp: remove1_append)

lemma maps_sound_distinct: "maps_sound ms \<Longrightarrow> distinct ms"
  by (induction ms) (fastforce simp: maps_sound_def map_apart_def)+

lemma fold_unmap:
  "fold (\<lambda>i. apc_unmap 0 (f i)) is os =
     os\<lparr>os_maps := fold remove1 (map (\<lambda>i. (shmaddr (f i), seg_size (f i))) is) (os_maps os)\<rparr>"
  by (induction "is" arbitrary: os) (simp_all add: apc_unmap_def)

lemma apc_sma_init_detach:
  assumes i: "apc_sma_init sys mi sma n sz msk os = Some (Inr (sma', msk'), os')"
    and fresh: "\<not> initialized sma" and maps: "maps_sound (os_maps os')"
  shows "\<exists>os''. apc_sma_detach (\<lambda>_. 0) sma' os' = Some (sma'\<lparr>initialized := False, segs := []\<rparr>, os'') \<and>
    os_maps os'' = os_maps os \<and> os_rest os'' = os_rest os"
proof -
  note r = apc_sma_init_result [OF i fresh]
  let ?ms = "map (\<lambda>sg. (shmaddr sg, sma_segsize sz)) (segs sma')"
  have "map (\<lambda>i. (shmaddr (segs sma' ! i), seg_size (segs sma' ! i))) [0..<num sma'] = ?ms"
    using r(2,5,6) by (intro nth_equalityI) (auto simp: init_seg_def)
  moreover have "distinct ?ms" using maps_sound_distinct [OF maps] r(7) by simp
  ultimately show ?thesis
    using r(1,7,8) fold_remove1_rev [of ?ms "os_maps os"]
    by (simp add: apc_sma_detach_def fold_unmap os_rest_def)
qed

section \<open>Information\<close>

lemma sma_links_dll:
  assumes "dll (bfn m) (bfp m) (a # fs @ [l])" "bfn m l = 0" "\<forall>x \<in> set fs. bfn m x \<noteq> 0"
  shows "sma_links m a = Some (map (\<lambda>x. (bsz m x, x)) fs)"
  using assms
proof (induction fs arbitrary: a)
  case Nil
  then show ?case by (simp add: sma_links.simps [of m a] Let_def field_folds)
next
  case (Cons x fs)
  then show ?case by (simp add: sma_links.simps [of m a] Let_def field_folds)
qed

lemma seg_rep_links:
  assumes rep: "seg_rep m bs fs"
  shows "sma_links m 56 = Some (map (\<lambda>x. (bsz m x, x)) fs)"
proof (rule sma_links_dll [OF seg_repD(3) [OF rep]])
  show "bfn m (88 + span bs) = 0" using tiles_end [OF seg_repD(1) [OF rep]] by simp
  show "\<forall>x \<in> set fs. bfn m x \<noteq> 0"
    using frees_fnext [OF seg_repD(2) [OF rep]] seg_repD(5) [OF rep] by simp
qed

lemma free_total_frees:
  "tpre S P N a p bs \<Longrightarrow> free_total bs = sum_list (map S (frees a bs))"
  by (induction S P N a p bs rule: tpre.induct) auto

lemma seg_rep_link_total:
  assumes rep: "seg_rep m bs fs"
  shows "sum_list (map (bsz m) fs) + 32 = avail (seg_header m)"
proof -
  have "distinct (frees 88 bs)" by (rule distinct_frees [OF seg_repD(2) [OF rep]])
  then have "sum_list (map (bsz m) fs) = sum_list (map (bsz m) (frees 88 bs))"
    using seg_repD(4,5) [OF rep] by (simp add: sum_list_distinct_conv_sum_set)
  then show ?thesis using free_total_frees [OF seg_repD(2) [OF rep]] seg_repD(7) [OF rep] by simp
qed

text \<open>Offset and size of every free block.\<close>

definition seg_free_blocks :: "sma_seg \<Rightarrow> (nat \<times> nat) set" where
  "seg_free_blocks m = (\<lambda>x. (bsz m x, x)) ` set (frees 88 (seg_blocks m))"

lemma sma_links_ok:
  assumes "seg_ok m"
  shows "\<exists>ls. sma_links m 56 = Some ls \<and> distinct ls \<and> set ls = seg_free_blocks m \<and>
    sum_list (map fst ls) + 32 = avail (seg_header m)"
proof -
  from assms obtain bs fs where rep: "seg_rep m bs fs" unfolding seg_ok_def by blast
  let ?ls = "map (\<lambda>x. (bsz m x, x)) fs"
  have "distinct ?ls" using seg_repD(4) [OF rep] by (simp add: distinct_map inj_on_def)
  moreover have "set ?ls = seg_free_blocks m"
    using seg_repD(5) [OF rep] by (simp add: seg_free_blocks_def seg_rep_blocks [OF rep])
  moreover have "sum_list (map fst ?ls) + 32 = avail (seg_header m)"
    using seg_rep_link_total [OF rep] by (simp add: comp_def)
  ultimately show ?thesis using seg_rep_links [OF rep] by blast
qed

lemma SMA_LOCK_UNLOCK_info:
  assumes ok: "sma_ok sma" and i: "i < num sma"
  shows "\<exists>ls. sma_info_segment sma i = Some (ls, sma) \<and> distinct ls \<and>
    set ls = seg_free_blocks (SMA_MEM sma i) \<and> sum_list (map fst ls) + 32 = avail (seg_header (SMA_MEM sma i))"
proof -
  let ?m = "SMA_MEM sma i"
  define k where "k = sma_lock (seg_header ?m)"
  have il: "i < length (segs sma)" using i sma_okD(2) [OF ok] by simp
  have kh: "\<not> mx_held k" using sma_okD(6) [OF ok i] by (simp add: k_def)
  note lk = SMA_LOCK_ok [OF il kh k_def]
  obtain ls where ls: "sma_links ?m 56 = Some ls" "distinct ls" "set ls = seg_free_blocks ?m"
    "sum_list (map fst ls) + 32 = avail (seg_header ?m)"
    using sma_links_ok [OF sma_okD(4) [OF ok i]] by blast
  have "sma_info_segment sma i = Some (ls, sma)"
  proof (cases "mx_broken k")
    case True
    then have "SMA_UNLOCK sma i = Some sma"
      by (simp add: SMA_UNLOCK_def apc_mutex_unlock_def pthread_mutex_unlock_def k_def set_lock_same set_mem_same)
    with lk True ls(1) show ?thesis by (simp add: sma_info_segment_def)
  next
    case False
    define m1 where "m1 = set_lock (k\<lparr>mx_held := True\<rparr>) ?m"
    define s1 where "s1 = set_mem i m1 sma"
    have lk': "SMA_LOCK sma i = Some (True, s1)" using lk False by (simp add: s1_def m1_def)
    have mem1: "SMA_MEM s1 i = m1" by (simp add: s1_def set_mem_mem [OF il])
    have "set_lock k m1 = ?m" by (simp add: m1_def k_def set_lock_same)
    then have "SMA_UNLOCK s1 i = Some sma"
      using SMA_UNLOCK_ok [of i s1 k] il False kh
      by (simp add: mem1) (simp add: s1_def m1_def set_mem_same)
    moreover have "sma_links m1 56 = Some ls"
    proof -
      have "seg_ok m1" using sma_okD(4) [OF ok i] by (simp add: m1_def)
      then obtain bs fs where "seg_rep m1 bs fs" unfolding seg_ok_def by blast
      then have "sma_links m1 56 = Some (map (\<lambda>x. (bsz m1 x, x)) fs)" "seg_rep ?m bs fs"
        using seg_rep_links by (simp_all add: m1_def)
      then show ?thesis using ls(1) seg_rep_links [of ?m bs fs] by (simp add: m1_def)
    qed
    ultimately show ?thesis by (simp add: sma_info_segment_def lk' mem1)
  qed
  with ls show ?thesis by blast
qed

text \<open>What a report says of one segment.\<close>

definition reports_segment :: "apc_sma_t \<Rightarrow> nat \<Rightarrow> (nat \<times> nat) list \<Rightarrow> bool" where
  "reports_segment sma i ls \<longleftrightarrow> distinct ls \<and> set ls = seg_free_blocks (SMA_MEM sma i) \<and>
     sum_list (map fst ls) + 32 = avail (seg_header (SMA_MEM sma i))"

lemma sma_info_segments_ok:
  assumes ok: "sma_ok sma"
  shows "set is \<subseteq> {..<num sma} \<Longrightarrow>
    \<exists>lss. sma_info_segments sma is = Some (lss, sma) \<and> list_all2 (reports_segment sma) is lss"
proof (induction "is")
  case (Cons i "is")
  then obtain lss where "sma_info_segments sma is = Some (lss, sma)" "list_all2 (reports_segment sma) is lss"
    by auto
  moreover obtain ls where "sma_info_segment sma i = Some (ls, sma)" "reports_segment sma i ls"
    using SMA_LOCK_UNLOCK_info [OF ok, of i] Cons.prems unfolding reports_segment_def by auto
  ultimately show ?case by simp
qed simp

lemma apc_sma_info_ok:
  assumes ok: "sma_ok sma"
  shows "\<exists>info. apc_sma_info sma False = Some (Some info, sma) \<and> num_seg info = num sma \<and>
    length (info_list info) = num sma \<and>
    (\<forall>i < num sma. reports_segment sma i (info_list info ! i))"
proof -
  obtain lss where l: "sma_info_segments sma [0..<num sma] = Some (lss, sma)"
    "list_all2 (reports_segment sma) [0..<num sma] lss"
    using sma_info_segments_ok [OF ok, of "[0..<num sma]"] by (auto simp: atLeast0LessThan)
  then have "length lss = num sma" "\<forall>i < num sma. reports_segment sma i (lss ! i)"
    by (auto simp: list_all2_conv_all_nth)
  then show ?thesis using l(1) sma_okD(1) [OF ok] by (simp add: apc_sma_info_def Let_def)
qed

lemma avail_mem_sum:
  "apc_sma_get_avail_mem sma = (\<Sum>i < num sma. avail (seg_header (SMA_MEM sma i))) mod SIZE_LIMIT"
proof -
  have "fold (\<lambda>i m. sz_add m (f i)) [0..<n] 0 = (\<Sum>i < n. f i) mod SIZE_LIMIT" for f :: "nat \<Rightarrow> nat" and n
    by (induction n) (simp_all add: sz_add_def mod_add_left_eq)
  then show ?thesis by (simp add: apc_sma_get_avail_mem_def)
qed

end
