(* ===== verification/Apc_Sma_Claims.thy ===== *)
theory Apc_Sma_Claims imports Apc_Sma_Init begin

text \<open>
  The properties of the allocator, each with an instance on a concrete allocator of one
  4096-byte segment mapped at address 65536.
\<close>

section \<open>A concrete allocator\<close>

definition ok_mutex :: apc_mutex_t where
  "ok_mutex = \<lparr>mx_broken = False, mx_held = False\<rparr>"

definition small_seg :: sma_seg where
  "small_seg = sma_format 4096 ok_mutex zero_mem"

definition small_sma :: apc_sma_t where
  "small_sma = \<lparr>initialized = True, num = 1, sma_size = 4096, sma_last = 0,
     segs = [\<lparr>seg_size = 4096, shmaddr = 65536, seg_mem = small_seg\<rparr>]\<rparr>"

lemma small_seg_rep: "seg_rep small_seg [(3944, True)] [88]"
  using sma_format_rep [of 4096 ok_mutex zero_mem] by (simp add: small_seg_def SIZE_LIMIT_def)

lemma small_seg_ok: "seg_ok small_seg"
  using small_seg_rep unfolding seg_ok_def by blast

lemma small_seg_live: "seg_live small_seg = {}"
  using seg_rep_live [OF small_seg_rep] by simp

lemma small_sma_ok: "sma_ok small_sma"
  using small_seg_ok
  by (simp add: sma_ok_def small_sma_def SMA_MEM_def SMA_ADDR_def small_seg_def ok_mutex_def SIZE_LIMIT_def)

lemma small_sma_live: "sma_live small_sma = {}"
  by (simp add: sma_live_def small_sma_def SMA_MEM_def small_seg_live)

lemma small_sma_usable: "sma_usable small_sma"
  using small_sma_ok
  by (simp add: sma_usable_def sma_broken_def small_sma_def SMA_MEM_def small_seg_def ok_mutex_def)

lemma realsize_100: "realsize_of 100 = 136"
  by (simp add: realsize_of_def ALIGNWORD_def ALIGNSIZE_def SIZEOF_WORD_def SIZEOF_BLOCK_def sz_add_def sz_sub_def
      sz_mul_def SIZE_LIMIT_def)

lemma single_eq_append: "[a] = pre @ b # post \<longleftrightarrow> pre = [] \<and> b = a \<and> post = []"
  by (cases pre) auto

text \<open>The segment after a request of 100 bytes.\<close>

lemma small_seg_split:
  obtains m fs where "sma_allocate small_seg 100 40 0 = Some (120, 104, m)"
    "seg_rep m ([] @ (136, False) # [(3808, True)]) fs"
proof -
  have n: "100 + 39 < SIZE_LIMIT" by (simp add: SIZE_LIMIT_def)
  show ?thesis
    using sma_allocate_rep [OF small_seg_rep n, of 40 0] that
    unfolding realsize_100 single_eq_append by simp blast
qed


section \<open>Properties\<close>





text \<open>
  C5: whatever sequence of requests and releases a client makes on a usable allocator, no call
  fails or aborts; at every end the blocks the client holds are live with at least their
  requested size, their byte ranges do not overlap, and nothing else is live, so nothing leaks.
\<close>

theorem sma_sessions_safe:
  assumes "sma_usable sma" "sma_live sma = {}" "requests_fit (SIZE_LIMIT - 39) rs"
  shows "\<exists>owned sma'. alloc_session sma_alloc sma_dealloc rs [] sma = Some (owned, sma') \<and>
    sma_usable sma' \<and> owns (sma_live sma') owned \<and> ranges_apart owned"
  by (rule smapi.session_ok [OF assms(1) _ assms(3)]) (simp add: assms(2) owns_def)

theorem sma_sessions_safe_witness:
  "\<exists>owned sma'. alloc_session sma_alloc sma_dealloc [Request 100, Request 200, Release 1] [] small_sma = Some (owned, sma') \<and>
    ranges_apart owned"
proof -
  have "requests_fit (SIZE_LIMIT - 39) [Request 100, Request 200, Release 1]"
    by (simp add: requests_fit_def SIZE_LIMIT_def)
  from sma_sessions_safe [OF small_sma_usable small_sma_live this] show ?thesis by blast
qed

text \<open>
  C24: \<open>find_block\<close> is first fit with a bounded best fit. On the free list of a well-formed segment
  it fails exactly when no free block is large enough; otherwise it takes, among the first block
  that fits and the \<open>BEST_FIT_LIMIT\<close> blocks behind it in the list, a smallest one that fits.
\<close>

theorem find_block_first_then_best:
  assumes "seg_rep sg bs fs" "0 < r"
  shows "find_block sg r = Some None \<and> (\<forall>y \<in> set fs. bsz sg y < r) \<or>
    (\<exists>us f vs cur. fs = us @ f # vs \<and> (\<forall>y \<in> set us. bsz sg y < r) \<and> r \<le> bsz sg f \<and>
       find_block sg r = Some (Some cur) \<and> cur \<in> set (f # take BEST_FIT_LIMIT vs) \<and> r \<le> bsz sg cur \<and>
       (\<forall>y \<in> set (f # take BEST_FIT_LIMIT vs). r \<le> bsz sg y \<longrightarrow> bsz sg cur \<le> bsz sg y))"
  by (rule find_block_rep [OF assms])

theorem find_block_first_then_best_witness:
  "find_block small_seg 136 = Some (Some 88)"
proof -
  have "bsz small_seg 88 = 3944" using seg_repD(1) [OF small_seg_rep] by simp
  with find_block_first_then_best [OF small_seg_rep, of 136] show ?thesis
    by (auto simp: Cons_eq_append_conv)
qed

text \<open>
  C10: \<open>sma_deallocate\<close> of an allocated block merges it with a free block on either side and
  leaves a well-formed segment, so that after any sequence of operations no two free blocks
  are adjacent and the free list, the block sizes and \<open>avail\<close> agree.
\<close>

theorem sma_deallocate_coalesces:
  assumes "seg_rep sg (pre @ (s, False) # post) fs"
  shows "\<exists>sg' fs'. sma_deallocate sg (88 + span pre + 32) = Some (s, sg') \<and>
    seg_rep sg' (coalesce pre s post) fs'"
  by (rule sma_deallocate_rep [OF assms])

theorem sma_deallocate_coalesces_witness:
  "\<exists>m m' fs'. sma_allocate small_seg 100 40 0 = Some (120, 104, m) \<and>
     sma_deallocate m 120 = Some (136, m') \<and> seg_rep m' [(3944, True)] fs'"
proof -
  obtain m fs where m: "sma_allocate small_seg 100 40 0 = Some (120, 104, m)"
    "seg_rep m ([] @ (136, False) # [(3808, True)]) fs" by (rule small_seg_split)
  have "coalesce [] 136 [(3808, True)] = [(3944, True)]"
    by (simp add: coalesce_def drop_last_free_def drop_first_free_def)
  with sma_deallocate_coalesces [OF m(2)] m(1) show ?thesis by auto
qed

text \<open>
  C30: \<open>apc_sma_init\<close>, when no system call fails, yields an allocator that satisfies the invariant
  and has no live block, for every segment size of at least 184 bytes.
\<close>

theorem sma_init_establishes:
  assumes "apc_sma_init sys mi sma n sz msk os = Some (Inr (sma', msk'), os')"
    and "\<not> initialized sma" "sma_last sma = 0"
    and "maps_sound (os_maps os')" "184 \<le> sma_segsize sz" "sma_segsize sz < SIZE_LIMIT"
  shows "sma_ok sma' \<and> sma_live sma' = {} \<and> num sma' = sma_numseg n msk \<and> sma_size sma' = sma_segsize sz"
  using apc_sma_init_ok [OF assms] apc_sma_init_result(2,3) [OF assms(1,2)] by simp

definition quiet_sys :: "nat \<Rightarrow> mm_sys" where
  "quiet_sys i = \<lparr>sys_open = 3, sys_mkstemp = (\<lambda>m. (4, m)), sys_ftruncate = 0,
     sys_mmap = (\<lambda>n. Some (65536 * (i + 1)))\<rparr>"

definition no_sma :: apc_sma_t where
  "no_sma = \<lparr>initialized = False, num = 0, sma_size = 0, sma_last = 0, segs = []\<rparr>"

definition no_os :: os_state where
  "no_os = \<lparr>os_fds = [], os_files = [], os_maps = [], os_shm = [], os_warnings = []\<rparr>"

lemma small_init:
  "\<exists>sma'. apc_sma_init quiet_sys (\<lambda>_. 0) no_sma 2 4096 (Some ''/tmp/apc.XXXXXX'') no_os =
     Some (Inr (sma', Some ''/tmp/apc.XXXXXX''), no_os\<lparr>os_maps := [(131072, 4096), (65536, 4096)]\<rparr>)"
proof -
  have two: "[0..<2] = [0, Suc 0]" by (simp add: upt_rec)
  show ?thesis
    by (simp add: apc_sma_init_def sma_numseg_def no_sma_def apc_mmap_def mmap_backing_def quiet_sys_def
        no_os_def close_fd_def unlink_file_def reset_mask_def two)
qed

theorem sma_init_establishes_witness:
  "\<exists>sma' os'. apc_sma_init quiet_sys (\<lambda>_. 0) no_sma 2 4096 (Some ''/tmp/apc.XXXXXX'') no_os =
     Some (Inr (sma', Some ''/tmp/apc.XXXXXX''), os') \<and> sma_ok sma' \<and> num sma' = 2"
proof -
  obtain sma' where i: "apc_sma_init quiet_sys (\<lambda>_. 0) no_sma 2 4096 (Some ''/tmp/apc.XXXXXX'') no_os =
     Some (Inr (sma', Some ''/tmp/apc.XXXXXX''), no_os\<lparr>os_maps := [(131072, 4096), (65536, 4096)]\<rparr>)"
    using small_init by blast
  have "sma_ok sma' \<and> sma_live sma' = {} \<and> num sma' = sma_numseg 2 (Some ''/tmp/apc.XXXXXX'') \<and>
      sma_size sma' = sma_segsize 4096"
    by (rule sma_init_establishes [OF i])
      (simp_all add: no_sma_def maps_sound_def map_apart_def SIZE_LIMIT_def sma_segsize_def)
  then show ?thesis using i by (auto simp: sma_numseg_def)
qed

text \<open>
  C31: detaching an allocator that \<open>apc_sma_init\<close> set up unmaps every segment it mapped and nothing
  else; no descriptor and no temporary file of the initialisation is left either.
\<close>

theorem sma_detach_undoes_init:
  assumes "apc_sma_init sys mi sma n sz msk os = Some (Inr (sma', msk'), os')"
    and "\<not> initialized sma" "maps_sound (os_maps os')"
  shows "\<exists>sma'' os''. apc_sma_detach (\<lambda>_. 0) sma' os' = Some (sma'', os'') \<and> \<not> initialized sma'' \<and>
    os_maps os'' = os_maps os \<and> os_fds os'' = os_fds os \<and> os_files os'' = os_files os"
  using apc_sma_init_detach [OF assms] by (auto simp: os_rest_def)

theorem sma_detach_undoes_init_witness:
  "\<exists>sma' os'. apc_sma_init quiet_sys (\<lambda>_. 0) no_sma 2 4096 (Some ''/tmp/apc.XXXXXX'') no_os =
     Some (Inr (sma', Some ''/tmp/apc.XXXXXX''), os') \<and>
     (\<exists>sma'' os''. apc_sma_detach (\<lambda>_. 0) sma' os' = Some (sma'', os'') \<and> os_maps os'' = [])"
proof -
  obtain sma' where i: "apc_sma_init quiet_sys (\<lambda>_. 0) no_sma 2 4096 (Some ''/tmp/apc.XXXXXX'') no_os =
     Some (Inr (sma', Some ''/tmp/apc.XXXXXX''), no_os\<lparr>os_maps := [(131072, 4096), (65536, 4096)]\<rparr>)"
    using small_init by blast
  have "maps_sound (os_maps (no_os\<lparr>os_maps := [(131072, 4096), (65536, 4096)]\<rparr>))"
    by (simp add: maps_sound_def map_apart_def SIZE_LIMIT_def)
  then show ?thesis using sma_detach_undoes_init [OF i] i by (fastforce simp: no_sma_def no_os_def)
qed

text \<open>
  C32: \<open>apc_sma_info\<close> walks every free list to its end, changes nothing, and lists for each segment
  exactly its free blocks, each once; their sizes add up to \<open>avail\<close> less one block header.
\<close>

theorem sma_info_complete:
  assumes "sma_ok sma"
  shows "\<exists>info. apc_sma_info sma False = Some (Some info, sma) \<and> num_seg info = num sma \<and>
    length (info_list info) = num sma \<and>
    (\<forall>i < num sma. reports_segment sma i (info_list info ! i))"
  by (rule apc_sma_info_ok [OF assms])

theorem sma_info_complete_witness:
  "\<exists>info. apc_sma_info small_sma False = Some (Some info, small_sma) \<and>
     sum_list (map fst (info_list info ! 0)) = 3944"
proof -
  have "num small_sma = 1" "avail (seg_header (SMA_MEM small_sma 0)) = 3976"
    using seg_repD(7) [OF small_seg_rep] by (simp_all add: small_sma_def SMA_MEM_def)
  with sma_info_complete [OF small_sma_ok] show ?thesis by (auto simp: reports_segment_def)
qed

end
