(* ===== verification/Apc_Hash.thy ===== *)
theory Apc_Hash imports Apc_Prelude begin

text \<open>
  Keys and their hashes: \<open>zend_string\<close> with its cached hash, \<open>zend_inline_hash_func\<close> as compiled on
  x86-64, the choice of a slot and the size of the slot table (\<open>apc_cache.c\<close>, \<open>zend_string.h\<close>).

  A string is a list of bytes. \<open>char\<close> is signed on this platform, so a byte enters the hash
  sign-extended.
\<close>

unbundle bit_operations_syntax

section \<open>zend_string\<close>

record zend_string =
  zs_h :: u64
  zs_val :: string

definition ZSTR_LEN :: "zend_string \<Rightarrow> nat" where
  "ZSTR_LEN s = length (zs_val s)"

definition schar :: "char \<Rightarrow> u64" where
  "schar c = scast (of_char c :: 8 word)"

text \<open>The loop over eight bytes at a time, then the remainders of four, three, two and one.\<close>

fun hash_tail :: "u64 \<Rightarrow> string \<Rightarrow> u64" where
  "hash_tail h [] = h"
| "hash_tail h [a] = h * 33 + schar a"
| "hash_tail h [a, b] = h * 33 * 33 + schar a * 33 + schar b"
| "hash_tail h [a, b, c] = h * 33 * 33 * 33 + schar a * 33 * 33 + schar b * 33 + schar c"
| "hash_tail h (a # b # c # d # r) =
     hash_tail (h * 33 * 33 * 33 * 33 + schar a * 33 * 33 * 33 + schar b * 33 * 33 + schar c * 33 + schar d) r"

fun hash_loop :: "u64 \<Rightarrow> string \<Rightarrow> u64" where
  "hash_loop h (a # b # c # d # e # f # g # k # r) =
     (let h1 = h * 33 * 33 * 33 * 33 + schar a * 33 * 33 * 33 + schar b * 33 * 33 + schar c * 33 + schar d;
          h2 = h1 * 33 * 33 * 33 * 33 + schar e * 33 * 33 * 33 + schar f * 33 * 33 + schar g * 33 + schar k
      in hash_loop h2 r)"
| "hash_loop h s = hash_tail h s"

definition zend_inline_hash_func :: "string \<Rightarrow> u64" where
  "zend_inline_hash_func s = hash_loop 5381 s OR 0x8000000000000000"

definition ZSTR_HASH :: "zend_string \<Rightarrow> u64" where
  "ZSTR_HASH s = (if zs_h s \<noteq> 0 then zs_h s else zend_inline_hash_func (zs_val s))"

text \<open>A string whose cached hash, when set, is its hash; all strings of a request are.\<close>

definition zs_ok :: "zend_string \<Rightarrow> bool" where
  "zs_ok s \<longleftrightarrow> zs_h s = 0 \<or> zs_h s = zend_inline_hash_func (zs_val s)"

definition mk_zstr :: "string \<Rightarrow> zend_string" where
  "mk_zstr v = \<lparr>zs_h = 0, zs_val = v\<rparr>"

section \<open>The hash is DJBX33A\<close>

definition djb_step :: "u64 \<Rightarrow> char \<Rightarrow> u64" where
  "djb_step h c = h * 33 + schar c"

definition djbx33a :: "string \<Rightarrow> u64" where
  "djbx33a s = foldl djb_step 5381 s"

lemma hash_tail_foldl: "hash_tail h s = foldl djb_step h s"
  by (induction h s rule: hash_tail.induct) (simp_all add: djb_step_def algebra_simps)

lemma hash_loop_foldl: "hash_loop h s = foldl djb_step h s"
proof (induction h s rule: hash_loop.induct)
  case (1 h a b c d e f g k r)
  then show ?case by (simp add: djb_step_def algebra_simps)
qed (simp_all add: hash_tail_foldl)

lemma zend_inline_hash_func_foldl: "zend_inline_hash_func s = djbx33a s OR 0x8000000000000000"
  by (simp add: zend_inline_hash_func_def djbx33a_def hash_loop_foldl)

lemma top_bit: "bit (x OR 0x8000000000000000 :: u64) 63"
  by (simp add: bit_or_iff bit_numeral_word_iff)

lemma hash_nonzero: "zend_inline_hash_func s \<noteq> 0"
proof
  assume "zend_inline_hash_func s = 0"
  then have "bit (0 :: u64) 63" using top_bit [of "hash_loop 5381 s"] by (simp add: zend_inline_hash_func_def)
  then show False by simp
qed

lemma zs_ok_hash: "zs_ok s \<Longrightarrow> ZSTR_HASH s = zend_inline_hash_func (zs_val s)"
  by (auto simp: zs_ok_def ZSTR_HASH_def)

lemma zs_ok_mk [simp]: "zs_ok (mk_zstr v)"
  by (simp add: zs_ok_def mk_zstr_def)

lemma zs_val_mk [simp]: "zs_val (mk_zstr v) = v"
  by (simp add: mk_zstr_def)

section \<open>Slots\<close>

definition primes :: "nat list" where
  "primes = [257, 521, 1031, 2053, 3079, 4099, 5147, 6151, 7177, 8209, 9221, 10243, 11273, 12289,
     13313, 14341, 15361, 16411, 17417, 18433, 19457, 20483, 30727, 40961, 61441, 81929, 122887,
     163841, 245771, 327689, 491527, 655373, 983063]"

text \<open>The loop stops at the sentinel and then takes the entry before it.\<close>

fun make_prime_from :: "int \<Rightarrow> nat \<Rightarrow> nat list \<Rightarrow> nat" where
  "make_prime_from n prev [] = prev"
| "make_prime_from n prev (k # ks) = (if int k > n then k else make_prime_from n k ks)"

definition make_prime :: "int \<Rightarrow> nat" where
  "make_prime n = make_prime_from n 0 primes"

text \<open>\<open>apc_cache_hash_slot\<close>: the hash and the slot.\<close>

definition apc_cache_hash_slot :: "nat \<Rightarrow> zend_string \<Rightarrow> u64 \<times> nat" where
  "apc_cache_hash_slot nslots key = (ZSTR_HASH key, unat (ZSTR_HASH key) mod nslots)"

lemma make_prime_from_props:
  "make_prime_from n prev ks \<in> insert prev (set ks) \<and>
   ((\<exists>k \<in> set ks. n < int k) \<longrightarrow> n < int (make_prime_from n prev ks)) \<and>
   (sorted ks \<longrightarrow> (\<forall>k \<in> set ks. n < int k \<longrightarrow> make_prime_from n prev ks \<le> k)) \<and>
   ((\<forall>k \<in> set ks. int k \<le> n) \<longrightarrow> make_prime_from n prev ks = (if ks = [] then prev else last ks))"
  by (induction n prev ks rule: make_prime_from.induct) (auto split: if_splits)

lemma primes_sorted: "sorted primes" by (simp add: primes_def)

lemma make_prime_in: "make_prime n \<in> set primes"
proof (cases "\<exists>k \<in> set primes. n < int k")
  case True
  have "make_prime n \<in> insert 0 (set primes)" "n < int (make_prime n)"
    using make_prime_from_props [of n 0 primes] True by (auto simp: make_prime_def)
  moreover have "make_prime n \<noteq> 0"
  proof (cases "n < 257")
    case True
    then show ?thesis by (simp add: make_prime_def primes_def)
  next
    case False
    with \<open>n < int (make_prime n)\<close> show ?thesis by simp
  qed
  ultimately show ?thesis by simp
next
  case False
  then have "make_prime n = last primes"
    using make_prime_from_props [of n 0 primes] by (auto simp: make_prime_def not_less primes_def)
  then show ?thesis by (simp add: primes_def)
qed

lemma make_prime_pos: "0 < make_prime n"
  using make_prime_in [of n] by (auto simp: primes_def)

lemma make_prime_least:
  assumes "n < 983063"
  shows "n < int (make_prime n)" "\<forall>k \<in> set primes. n < int k \<longrightarrow> make_prime n \<le> k"
proof -
  have "983063 \<in> set primes" by (simp add: primes_def)
  with assms have "\<exists>k \<in> set primes. n < int k" by force
  then show "n < int (make_prime n)" "\<forall>k \<in> set primes. n < int k \<longrightarrow> make_prime n \<le> k"
    using make_prime_from_props [of n 0 primes] primes_sorted by (auto simp: make_prime_def)
qed

lemma hash_slot_less: "0 < nslots \<Longrightarrow> snd (apc_cache_hash_slot nslots key) < nslots"
  by (simp add: apc_cache_hash_slot_def)

end
