(* ===== verification/Apc_Value.thy ===== *)
theory Apc_Value imports Apc_Hash begin

text \<open>
  PHP values as APCu sees them (\<open>zend_types.h\<close>): a \<open>zval\<close> holds a scalar or the address of a
  counted structure; a store maps addresses to strings, hash tables and references. There are
  two stores, the memory of the request and the shared memory. Reference counts of the request
  are not modelled.
\<close>

datatype zval =
    IS_UNDEF
  | IS_NULL
  | IS_FALSE
  | IS_TRUE
  | IS_LONG i64
  | IS_DOUBLE u64
  | IS_STRING nat
  | IS_ARRAY nat
  | IS_OBJECT nat
  | IS_RESOURCE nat
  | IS_REFERENCE nat
  | IS_INDIRECT nat
  | IS_PTR nat

fun Z_TYPE :: "zval \<Rightarrow> nat" where
  "Z_TYPE IS_UNDEF = 0"
| "Z_TYPE IS_NULL = 1"
| "Z_TYPE IS_FALSE = 2"
| "Z_TYPE IS_TRUE = 3"
| "Z_TYPE (IS_LONG _) = 4"
| "Z_TYPE (IS_DOUBLE _) = 5"
| "Z_TYPE (IS_STRING _) = 6"
| "Z_TYPE (IS_ARRAY _) = 7"
| "Z_TYPE (IS_OBJECT _) = 8"
| "Z_TYPE (IS_RESOURCE _) = 9"
| "Z_TYPE (IS_REFERENCE _) = 10"
| "Z_TYPE (IS_INDIRECT _) = 12"
| "Z_TYPE (IS_PTR _) = 13"

text \<open>\<open>Z_TYPE_P(zv) < IS_STRING\<close>: no data apart from the zval itself.\<close>

definition z_simple :: "zval \<Rightarrow> bool" where
  "z_simple zv \<longleftrightarrow> Z_TYPE zv < 6"

lemma z_simple_simps [simp]:
  "z_simple IS_UNDEF" "z_simple IS_NULL" "z_simple IS_FALSE" "z_simple IS_TRUE"
  "z_simple (IS_LONG i)" "z_simple (IS_DOUBLE d)" "\<not> z_simple (IS_STRING a)"
  "\<not> z_simple (IS_ARRAY a)" "\<not> z_simple (IS_OBJECT a)" "\<not> z_simple (IS_RESOURCE a)"
  "\<not> z_simple (IS_REFERENCE a)" "\<not> z_simple (IS_INDIRECT a)" "\<not> z_simple (IS_PTR a)"
  by (simp_all add: z_simple_def)

fun Z_COUNTED :: "zval \<Rightarrow> nat" where
  "Z_COUNTED (IS_STRING a) = a"
| "Z_COUNTED (IS_ARRAY a) = a"
| "Z_COUNTED (IS_OBJECT a) = a"
| "Z_COUNTED (IS_RESOURCE a) = a"
| "Z_COUNTED (IS_REFERENCE a) = a"
| "Z_COUNTED (IS_INDIRECT a) = a"
| "Z_COUNTED (IS_PTR a) = a"
| "Z_COUNTED _ = 0"

text \<open>\<open>bk_key\<close> is 0 for an integer key, otherwise the address of a string.\<close>

record bucket =
  bk_val :: zval
  bk_h :: u64
  bk_key :: nat

text \<open>
  \<open>ht_hash\<close> are the 32-bit collision chain heads in front of the buckets; their number is
  \<open>-(int32_t) nTableMask\<close>. \<open>ht_data\<close> are the used buckets, so \<open>nNumUsed\<close> is its length.
\<close>

record hash_table =
  ht_flags :: "32 word"
  ht_hash :: "nat list"
  ht_data :: "bucket list"
  ht_num_elements :: nat
  ht_table_size :: nat
  ht_internal :: nat
  ht_next :: i64

datatype counted = CStr zend_string | CArr hash_table | CRef zval | CObj nat

type_synonym heap = "(nat \<times> counted) list"

definition hp_get :: "heap \<Rightarrow> nat \<Rightarrow> counted option" where
  "hp_get hp a = map_of hp a"

definition hp_put :: "nat \<Rightarrow> counted \<Rightarrow> heap \<Rightarrow> heap" where
  "hp_put a c hp = (a, c) # hp"

definition hp_str :: "heap \<Rightarrow> nat \<Rightarrow> zend_string option" where
  "hp_str hp a = (case hp_get hp a of Some (CStr s) \<Rightarrow> Some s | _ \<Rightarrow> None)"

definition hp_arr :: "heap \<Rightarrow> nat \<Rightarrow> hash_table option" where
  "hp_arr hp a = (case hp_get hp a of Some (CArr t) \<Rightarrow> Some t | _ \<Rightarrow> None)"

definition hp_ref :: "heap \<Rightarrow> nat \<Rightarrow> zval option" where
  "hp_ref hp a = (case hp_get hp a of Some (CRef z) \<Rightarrow> Some z | _ \<Rightarrow> None)"

definition hp_fresh :: "heap \<Rightarrow> nat" where
  "hp_fresh hp = Suc (foldr max (map fst hp) 0)"

lemma hp_get_put [simp]: "hp_get (hp_put a c hp) b = (if b = a then Some c else hp_get hp b)"
  by (simp add: hp_get_def hp_put_def)

lemma foldr_max_ge: "x \<in> set xs \<Longrightarrow> x \<le> foldr max xs (0 :: nat)"
  by (induction xs) (auto simp: le_max_iff_disj)

lemma hp_fresh_above: "a \<in> fst ` set hp \<Longrightarrow> a < hp_fresh hp"
  using foldr_max_ge [of a "map fst hp"] by (simp add: hp_fresh_def less_Suc_eq_le)

lemma hp_fresh_free: "hp_get hp (hp_fresh hp) = None"
  using hp_fresh_above [of "hp_fresh hp" hp] by (auto simp: hp_get_def map_of_eq_None_iff)

lemma hp_fresh_pos [simp]: "0 < hp_fresh hp"
  by (simp add: hp_fresh_def)

section \<open>Layout\<close>

definition ZEND_MM_ALIGNED_SIZE :: "nat \<Rightarrow> nat" where
  "ZEND_MM_ALIGNED_SIZE n = (n + 7) div 8 * 8"

definition ZSTR_STRUCT_SIZE :: "nat \<Rightarrow> nat" where
  "ZSTR_STRUCT_SIZE len = 24 + len + 1"

definition SIZEOF_HASHTABLE :: nat where "SIZEOF_HASHTABLE = 56"

definition SIZEOF_BUCKET :: nat where "SIZEOF_BUCKET = 32"

definition SIZEOF_REFERENCE :: nat where "SIZEOF_REFERENCE = 32"

definition SIZEOF_CACHE_ENTRY :: nat where "SIZEOF_CACHE_ENTRY = 96"

definition HT_USED_SIZE :: "hash_table \<Rightarrow> nat" where
  "HT_USED_SIZE ht = length (ht_hash ht) * 4 + length (ht_data ht) * SIZEOF_BUCKET"

definition HASH_FLAG_UNINITIALIZED :: "32 word" where "HASH_FLAG_UNINITIALIZED = 8"

definition HASH_FLAG_STATIC_KEYS :: "32 word" where "HASH_FLAG_STATIC_KEYS = 16"

definition HT_INVALID_IDX :: nat where "HT_INVALID_IDX = 4294967295"

lemma aligned_bounds: "n \<le> ZEND_MM_ALIGNED_SIZE n" "ZEND_MM_ALIGNED_SIZE n < n + 8"
  "8 dvd ZEND_MM_ALIGNED_SIZE n"
  unfolding ZEND_MM_ALIGNED_SIZE_def by presburger+

end
