(* ===== verification/Apc_Persist.thy ===== *)
theory Apc_Persist imports Apc_Value begin

text \<open>
  \<open>apc_persist.c\<close>: copying a value from the request into one block of shared memory and back.
  Persisting runs in two passes, one that computes the size of the block and one that copies;
  repeated structures are recognised through tables of addresses when an array is copied
  without a serializer.

  The recursion follows pointers. Its depth is bounded by fuel, which \<open>apc_persist\<close> and
  \<open>apc_unpersist\<close> set to the number of structures of the store they read plus two. Sizes are
  natural numbers: the values of a request fit in its address space. Failed \<open>ZEND_ASSERT\<close>s,
  which are undefined behaviour in the configured build, and dangling pointers are \<open>None\<close>.
\<close>

section \<open>Entries and serializers\<close>

record apc_cache_entry_t =
  ce_addr :: nat
  ce_key :: zend_string
  ce_val :: zval
  ce_ttl :: i64
  ce_ref_count :: i64
  ce_nhits :: i64
  ce_ctime :: i64
  ce_mtime :: i64
  ce_dtime :: i64
  ce_atime :: i64
  ce_mem_size :: i64

text \<open>
  A serializer as the registry stores it. The functions belong to PHP or another extension:
  \<open>serialize\<close> reads the request's store, \<open>unserialize\<close> builds a value in it.
\<close>

record apc_serializer_t =
  ser_name :: string
  ser_serialize :: "heap \<Rightarrow> zval \<Rightarrow> string option"
  ser_unserialize :: "heap \<Rightarrow> string \<Rightarrow> (zval \<times> heap) option"

text \<open>
  \<open>php_apc_serializer\<close> and \<open>php_apc_unserializer\<close> wrap PHP's own functions: an exception raised
  while serializing discards the string, a failed unserialize is a failure.
\<close>

definition php_apc_serializer ::
  "(heap \<Rightarrow> zval \<Rightarrow> string option \<times> bool) \<Rightarrow> heap \<Rightarrow> zval \<Rightarrow> string option" where
  "php_apc_serializer php_var_serialize hp zv =
     (let (buf, exception) = php_var_serialize hp zv
      in if exception then None else buf)"

definition php_apc_unserializer ::
  "(heap \<Rightarrow> string \<Rightarrow> (zval \<times> heap) option) \<Rightarrow> heap \<Rightarrow> string \<Rightarrow> (zval \<times> heap) option" where
  "php_apc_unserializer php_var_unserialize hp s = php_var_unserialize hp s"

section \<open>Context\<close>

record persist_ctxt =
  cx_size :: nat
  cx_memoization_needed :: bool
  cx_use_serialization :: bool
  cx_serialized_str :: "string option"
  cx_alloc :: nat
  cx_alloc_cur :: nat
  cx_already_counted :: "nat list"
  cx_already_allocated :: "(nat \<times> nat) list"

definition apc_persist_init_context :: persist_ctxt where
  "apc_persist_init_context =
     \<lparr>cx_size = 0, cx_memoization_needed = False, cx_use_serialization = False,
      cx_serialized_str = None, cx_alloc = 0, cx_alloc_cur = 0, cx_already_counted = [],
      cx_already_allocated = []\<rparr>"

definition ADD_SIZE :: "nat \<Rightarrow> persist_ctxt \<Rightarrow> persist_ctxt" where
  "ADD_SIZE sz cx = cx\<lparr>cx_size := cx_size cx + ZEND_MM_ALIGNED_SIZE sz\<rparr>"

definition ADD_SIZE_STR :: "nat \<Rightarrow> persist_ctxt \<Rightarrow> persist_ctxt" where
  "ADD_SIZE_STR len = ADD_SIZE (ZSTR_STRUCT_SIZE len)"

section \<open>First pass: the size\<close>

definition apc_persist_calc_memoize :: "nat \<Rightarrow> persist_ctxt \<Rightarrow> bool \<times> persist_ctxt" where
  "apc_persist_calc_memoize ptr cx =
     (if \<not> cx_memoization_needed cx then (False, cx)
      else if ptr \<in> set (cx_already_counted cx) then (True, cx)
      else (False, cx\<lparr>cx_already_counted := ptr # cx_already_counted cx\<rparr>))"

text \<open>\<open>ser\<close> is the cache's serializer or, without one, the PHP serializer.\<close>

definition apc_persist_calc_serialize ::
  "(heap \<Rightarrow> zval \<Rightarrow> string option) \<Rightarrow> heap \<Rightarrow> zval \<Rightarrow> persist_ctxt \<Rightarrow> (bool \<times> persist_ctxt) option" where
  "apc_persist_calc_serialize ser rq zv cx =
     (case ser rq zv of
        None \<Rightarrow> Some (False, cx)
      | Some buf \<Rightarrow> do {
          assert_c (\<not> cx_memoization_needed cx);
          Some (True, ADD_SIZE_STR (length buf) (cx\<lparr>cx_serialized_str := Some buf\<rparr>))
        })"

text \<open>The loop over the buckets; \<open>calc\<close> is the recursive call.\<close>

primrec persist_calc_buckets ::
  "(zval \<Rightarrow> persist_ctxt \<Rightarrow> (bool \<times> persist_ctxt) option) \<Rightarrow> heap \<Rightarrow> bucket list \<Rightarrow> persist_ctxt \<Rightarrow>
   (bool \<times> persist_ctxt) option" where
  "persist_calc_buckets calc rq [] cx = Some (True, cx)"
| "persist_calc_buckets calc rq (p # ps) cx =
     (case bk_val p of
        IS_UNDEF \<Rightarrow> persist_calc_buckets calc rq ps cx
      | IS_INDIRECT _ \<Rightarrow> Some (False, cx\<lparr>cx_use_serialization := True\<rparr>)
      | _ \<Rightarrow> do {
          cx1 \<leftarrow> (if bk_key p \<noteq> 0 then do { s \<leftarrow> hp_str rq (bk_key p); Some (ADD_SIZE_STR (ZSTR_LEN s) cx) }
                 else Some cx);
          (ok, cx2) \<leftarrow> calc (bk_val p) cx1;
          if ok then persist_calc_buckets calc rq ps cx2 else Some (False, cx2)
        })"

definition persist_calc_ht ::
  "(zval \<Rightarrow> persist_ctxt \<Rightarrow> (bool \<times> persist_ctxt) option) \<Rightarrow> heap \<Rightarrow> hash_table \<Rightarrow> persist_ctxt \<Rightarrow>
   (bool \<times> persist_ctxt) option" where
  "persist_calc_ht calc rq ht cx =
     (let cx1 = ADD_SIZE SIZEOF_HASHTABLE cx
      in if ht_data ht = [] then Some (True, cx1)
         else persist_calc_buckets calc rq (ht_data ht) (ADD_SIZE (HT_USED_SIZE ht) cx1))"

primrec persist_calc_zval ::
  "nat \<Rightarrow> (heap \<Rightarrow> zval \<Rightarrow> string option) \<Rightarrow> heap \<Rightarrow> zval \<Rightarrow> persist_ctxt \<Rightarrow> (bool \<times> persist_ctxt) option" where
  "persist_calc_zval 0 ser rq zv cx = None"
| "persist_calc_zval (Suc n) ser rq zv cx =
     (if z_simple zv then Some (True, cx)
      else if cx_use_serialization cx then apc_persist_calc_serialize ser rq zv cx
      else (let (seen, cx1) = apc_persist_calc_memoize (Z_COUNTED zv) cx in
        if seen then Some (True, cx1)
        else (case zv of
            IS_STRING a \<Rightarrow> do { s \<leftarrow> hp_str rq a; Some (True, ADD_SIZE_STR (ZSTR_LEN s) cx1) }
          | IS_ARRAY a \<Rightarrow> do {
              ht \<leftarrow> hp_arr rq a;
              persist_calc_ht (persist_calc_zval n ser rq) rq ht cx1
            }
          | IS_REFERENCE a \<Rightarrow> do {
              v \<leftarrow> hp_ref rq a;
              persist_calc_zval n ser rq v (ADD_SIZE SIZEOF_REFERENCE cx1)
            }
          | IS_OBJECT a \<Rightarrow> Some (False, cx1\<lparr>cx_use_serialization := True\<rparr>)
          | IS_RESOURCE a \<Rightarrow> Some (False, cx1)
          | _ \<Rightarrow> None)))"

definition apc_persist_calc ::
  "nat \<Rightarrow> (heap \<Rightarrow> zval \<Rightarrow> string option) \<Rightarrow> heap \<Rightarrow> apc_cache_entry_t \<Rightarrow> persist_ctxt \<Rightarrow>
   (bool \<times> persist_ctxt) option" where
  "apc_persist_calc n ser rq entry cx =
     persist_calc_zval n ser rq (ce_val entry)
       (ADD_SIZE_STR (ZSTR_LEN (ce_key entry)) (ADD_SIZE SIZEOF_CACHE_ENTRY cx))"

section \<open>Second pass: the copy\<close>

text \<open>\<open>apc_persist_alloc\<close>, with its assertion that the block is not overrun.\<close>

definition apc_persist_alloc :: "nat \<Rightarrow> persist_ctxt \<Rightarrow> (nat \<times> persist_ctxt) option" where
  "apc_persist_alloc sz cx = do {
     let cur = cx_alloc_cur cx + ZEND_MM_ALIGNED_SIZE sz;
     assert_c (cur \<le> cx_alloc cx + cx_size cx);
     Some (cx_alloc_cur cx, cx\<lparr>cx_alloc_cur := cur\<rparr>)
   }"

definition apc_persist_get_already_allocated :: "nat \<Rightarrow> persist_ctxt \<Rightarrow> nat" where
  "apc_persist_get_already_allocated ptr cx =
     (if cx_memoization_needed cx
      then (case map_of (cx_already_allocated cx) ptr of None \<Rightarrow> 0 | Some q \<Rightarrow> q)
      else 0)"

definition apc_persist_add_already_allocated :: "nat \<Rightarrow> nat \<Rightarrow> persist_ctxt \<Rightarrow> persist_ctxt" where
  "apc_persist_add_already_allocated old new cx =
     (if cx_memoization_needed cx
      then cx\<lparr>cx_already_allocated := (old, new) # cx_already_allocated cx\<rparr>
      else cx)"

text \<open>
  The state of this pass is the context and the shared store. \<open>apc_persist_copy_cstr\<close> completes
  the cached hash of the copy.
\<close>

definition persist_zstr :: "string \<Rightarrow> u64 \<Rightarrow> zend_string" where
  "persist_zstr buf hash =
     (let s = \<lparr>zs_h = hash, zs_val = buf\<rparr> in s\<lparr>zs_h := ZSTR_HASH s\<rparr>)"

definition apc_persist_copy_cstr ::
  "string \<Rightarrow> u64 \<Rightarrow> persist_ctxt \<times> heap \<Rightarrow> (nat \<times> persist_ctxt \<times> heap) option" where
  "apc_persist_copy_cstr buf hash st = do {
     (p, cx1) \<leftarrow> apc_persist_alloc (ZSTR_STRUCT_SIZE (length buf)) (fst st);
     Some (p, cx1, hp_put p (CStr (persist_zstr buf hash)) (snd st))
   }"

definition apc_persist_copy_zstr_no_add ::
  "zend_string \<Rightarrow> persist_ctxt \<times> heap \<Rightarrow> (nat \<times> persist_ctxt \<times> heap) option" where
  "apc_persist_copy_zstr_no_add s = apc_persist_copy_cstr (zs_val s) (zs_h s)"

definition apc_persist_copy_zstr ::
  "nat \<Rightarrow> zend_string \<Rightarrow> persist_ctxt \<times> heap \<Rightarrow> (nat \<times> persist_ctxt \<times> heap) option" where
  "apc_persist_copy_zstr old s st = do {
     (p, cx1, sh1) \<leftarrow> apc_persist_copy_zstr_no_add s st;
     Some (p, apc_persist_add_already_allocated old p cx1, sh1)
   }"

text \<open>
  The loop over the buckets of a copied table. The table being built is passed along; its
  buckets are collected in order, the unused ones included.
\<close>

primrec persist_copy_buckets ::
  "(zval \<Rightarrow> persist_ctxt \<times> heap \<Rightarrow> (zval \<times> persist_ctxt \<times> heap) option) \<Rightarrow> heap \<Rightarrow> nat \<Rightarrow> bucket list \<Rightarrow>
   hash_table \<Rightarrow> persist_ctxt \<times> heap \<Rightarrow> (hash_table \<times> persist_ctxt \<times> heap) option" where
  "persist_copy_buckets copy rq idx [] ht st = Some (ht, st)"
| "persist_copy_buckets copy rq idx (p # ps) ht st =
     (if bk_val p = IS_UNDEF
      then persist_copy_buckets copy rq (Suc idx) ps (ht\<lparr>ht_data := ht_data ht @ [p]\<rparr>) st
      else do {
        let ht1 = (if ht_internal ht = HT_INVALID_IDX then ht\<lparr>ht_internal := idx\<rparr> else ht);
        (key, ht2, st1) \<leftarrow>
          (if bk_key p \<noteq> 0
           then do {
             s \<leftarrow> hp_str rq (bk_key p);
             (k, st') \<leftarrow> apc_persist_copy_zstr_no_add s st;
             Some (k, ht1\<lparr>ht_flags := ht_flags ht1 AND NOT HASH_FLAG_STATIC_KEYS\<rparr>, st')
           }
           else Some (0, (if i64_less (bk_h p) (ht_next ht1) then ht1
                          else ht1\<lparr>ht_next := bk_h p + 1\<rparr>), st));
        (v, st2) \<leftarrow> copy (bk_val p) st1;
        persist_copy_buckets copy rq (Suc idx) ps
          (ht2\<lparr>ht_data := ht_data ht2 @ [p\<lparr>bk_key := key, bk_val := v\<rparr>]\<rparr>) st2
      })"

text \<open>
  The table is written once, when its loop is done; nothing reads the copy before. The address
  is in the table of allocated structures before the loop starts, as in the source.
\<close>

definition persist_copy_ht ::
  "(zval \<Rightarrow> persist_ctxt \<times> heap \<Rightarrow> (zval \<times> persist_ctxt \<times> heap) option) \<Rightarrow> heap \<Rightarrow> nat \<Rightarrow> hash_table \<Rightarrow>
   persist_ctxt \<times> heap \<Rightarrow> (nat \<times> persist_ctxt \<times> heap) option" where
  "persist_copy_ht copy rq old orig st = do {
     (p, cx1) \<leftarrow> apc_persist_alloc SIZEOF_HASHTABLE (fst st);
     let cx2 = apc_persist_add_already_allocated old p cx1;
     let ht = orig\<lparr>ht_flags := ht_flags orig OR HASH_FLAG_STATIC_KEYS, ht_next := 0\<rparr>;
     if ht_data orig = []
     then Some (p, cx2, hp_put p (CArr (ht\<lparr>ht_flags := HASH_FLAG_UNINITIALIZED,
                                          ht_hash := [HT_INVALID_IDX, HT_INVALID_IDX]\<rparr>)) (snd st))
     else do {
       (_, cx3) \<leftarrow> apc_persist_alloc (HT_USED_SIZE orig) cx2;
       (ht', cx4, sh4) \<leftarrow> persist_copy_buckets copy rq 0 (ht_data orig)
          (ht\<lparr>ht_internal := HT_INVALID_IDX, ht_data := []\<rparr>) (cx3, snd st);
       Some (p, cx4, hp_put p (CArr ht') sh4)
     }
   }"

definition persist_copy_ref ::
  "(zval \<Rightarrow> persist_ctxt \<times> heap \<Rightarrow> (zval \<times> persist_ctxt \<times> heap) option) \<Rightarrow> nat \<Rightarrow> zval \<Rightarrow>
   persist_ctxt \<times> heap \<Rightarrow> (nat \<times> persist_ctxt \<times> heap) option" where
  "persist_copy_ref copy old orig st = do {
     (p, cx1) \<leftarrow> apc_persist_alloc SIZEOF_REFERENCE (fst st);
     (v, cx2, sh2) \<leftarrow> copy orig (apc_persist_add_already_allocated old p cx1, snd st);
     Some (p, cx2, hp_put p (CRef v) sh2)
   }"

definition apc_persist_copy_serialize ::
  "zval \<Rightarrow> persist_ctxt \<times> heap \<Rightarrow> (zval \<times> persist_ctxt \<times> heap) option" where
  "apc_persist_copy_serialize zv st = do {
     assert_c (Z_TYPE zv = 7 \<or> Z_TYPE zv = 8);
     assert_c (\<not> cx_memoization_needed (fst st));
     buf \<leftarrow> cx_serialized_str (fst st);
     (p, st1) \<leftarrow> apc_persist_copy_cstr buf 0 st;
     Some (IS_PTR p, st1)
   }"

primrec persist_copy_zval ::
  "nat \<Rightarrow> heap \<Rightarrow> zval \<Rightarrow> persist_ctxt \<times> heap \<Rightarrow> (zval \<times> persist_ctxt \<times> heap) option" where
  "persist_copy_zval 0 rq zv st = None"
| "persist_copy_zval (Suc n) rq zv st =
     (if z_simple zv then Some (zv, st)
      else if cx_use_serialization (fst st) then apc_persist_copy_serialize zv st
      else (let ptr = apc_persist_get_already_allocated (Z_COUNTED zv) (fst st) in
        case zv of
          IS_STRING a \<Rightarrow>
            if ptr \<noteq> 0 then Some (IS_STRING ptr, st)
            else do {
              s \<leftarrow> hp_str rq a;
              (p, st1) \<leftarrow> apc_persist_copy_zstr a s st;
              Some (IS_STRING p, st1)
            }
        | IS_ARRAY a \<Rightarrow>
            if ptr \<noteq> 0 then Some (IS_ARRAY ptr, st)
            else do {
              ht \<leftarrow> hp_arr rq a;
              (p, st1) \<leftarrow> persist_copy_ht (persist_copy_zval n rq) rq a ht st;
              Some (IS_ARRAY p, st1)
            }
        | IS_REFERENCE a \<Rightarrow>
            if ptr \<noteq> 0 then Some (IS_REFERENCE ptr, st)
            else do {
              v \<leftarrow> hp_ref rq a;
              (p, st1) \<leftarrow> persist_copy_ref (persist_copy_zval n rq) a v st;
              Some (IS_REFERENCE p, st1)
            }
        | _ \<Rightarrow> None))"

text \<open>
  The entry itself is the first thing in the block. Its key is kept by value in the model; the
  copy of the string is still allocated.
\<close>

definition apc_persist_copy ::
  "nat \<Rightarrow> heap \<Rightarrow> apc_cache_entry_t \<Rightarrow> persist_ctxt \<times> heap \<Rightarrow>
   (apc_cache_entry_t \<times> persist_ctxt \<times> heap) option" where
  "apc_persist_copy n rq orig st = do {
     (p, cx1) \<leftarrow> apc_persist_alloc SIZEOF_CACHE_ENTRY (fst st);
     (_, st2) \<leftarrow> apc_persist_copy_zstr_no_add (ce_key orig) (cx1, snd st);
     (v, st3) \<leftarrow> persist_copy_zval n rq (ce_val orig) st2;
     Some (orig\<lparr>ce_addr := p, ce_key := persist_zstr (zs_val (ce_key orig)) (zs_h (ce_key orig)),
                ce_val := v\<rparr>, st3)
   }"

section \<open>apc_persist\<close>

definition persist_fuel :: "heap \<Rightarrow> nat" where
  "persist_fuel hp = length hp + 2"

text \<open>The context the first pass starts from.\<close>

definition persist_context :: "apc_serializer_t option \<Rightarrow> zval \<Rightarrow> persist_ctxt" where
  "persist_context serializer zv =
     apc_persist_init_context\<lparr>
       cx_memoization_needed := (serializer = None \<and> Z_TYPE zv = 7),
       cx_use_serialization := (Z_TYPE zv = 8 \<or> serializer \<noteq> None \<and> Z_TYPE zv = 7)\<rparr>"

definition persist_serialize ::
  "(heap \<Rightarrow> zval \<Rightarrow> string option) \<Rightarrow> apc_serializer_t option \<Rightarrow> heap \<Rightarrow> zval \<Rightarrow> string option" where
  "persist_serialize php_ser serializer =
     (case serializer of None \<Rightarrow> php_ser | Some s \<Rightarrow> ser_serialize s)"

text \<open>
  The first pass with its second try: when it meets an object or an indirect slot it starts
  over and serializes the whole value. The inner option is \<open>None\<close> when the value cannot be
  stored.
\<close>

definition persist_size ::
  "(heap \<Rightarrow> zval \<Rightarrow> string option) \<Rightarrow> apc_serializer_t option \<Rightarrow> heap \<Rightarrow> apc_cache_entry_t \<Rightarrow>
   persist_ctxt option option" where
  "persist_size php_ser serializer rq orig = do {
     let ser = persist_serialize php_ser serializer;
     assert_c (Z_TYPE (ce_val orig) \<noteq> 10);
     (ok, cx) \<leftarrow> apc_persist_calc (persist_fuel rq) ser rq orig (persist_context serializer (ce_val orig));
     if ok then Some (Some cx)
     else if \<not> cx_use_serialization cx then Some None
     else do {
       (ok2, cx2) \<leftarrow> apc_persist_calc (persist_fuel rq) ser rq orig
          (apc_persist_init_context\<lparr>cx_use_serialization := True\<rparr>);
       Some (if ok2 then Some cx2 else None)
     }
   }"

text \<open>
  \<open>malloc\<close> is \<open>apc_sma_malloc\<close> on the caller's state. The result is the entry, or \<open>None\<close> for
  \<open>NULL\<close>, with the state after the allocation and the shared store.
\<close>

definition apc_persist ::
  "(heap \<Rightarrow> zval \<Rightarrow> string option) \<Rightarrow> ('s \<Rightarrow> nat \<Rightarrow> (nat \<times> 's) option) \<Rightarrow> apc_serializer_t option \<Rightarrow>
   heap \<Rightarrow> apc_cache_entry_t \<Rightarrow> 's \<times> heap \<Rightarrow> (apc_cache_entry_t option \<times> 's \<times> heap) option" where
  "apc_persist php_ser malloc serializer rq orig st = do {
     r \<leftarrow> persist_size php_ser serializer rq orig;
     (case r of
        None \<Rightarrow> Some (None, st)
      | Some cx \<Rightarrow> do {
          (p, s1) \<leftarrow> malloc (fst st) (cx_size cx);
          if p = 0 then Some (None, s1, snd st)
          else do {
            (entry, cx2, sh2) \<leftarrow> apc_persist_copy (persist_fuel rq) rq orig
               (cx\<lparr>cx_alloc := p, cx_alloc_cur := p\<rparr>, snd st);
            assert_c (cx_alloc_cur cx2 = p + cx_size cx);
            Some (Some (entry\<lparr>ce_mem_size := of_nat (cx_size cx)\<rparr>), s1, sh2)
          }
        })
   }"

section \<open>apc_unpersist\<close>

text \<open>
  The state is the table of copied structures, the request's store and the reference counts of the
  request's structures; \<open>memo\<close> says whether the table is kept. A new structure takes a fresh
  address of the request. Its count is set to 1; that of a table comes with the rest of its
  structure, and is the 1 that \<open>apc_persist_copy_ht\<close> set, which nothing changes in shared memory.
\<close>

type_synonym ref_counts = "nat \<Rightarrow> 32 word"

type_synonym unpersist_state = "(nat \<times> nat) list \<times> heap \<times> ref_counts"

definition unpersist_copied :: "bool \<Rightarrow> nat \<Rightarrow> (nat \<times> nat) list \<Rightarrow> nat option" where
  "unpersist_copied memo old tab = (if memo then map_of tab old else None)"

definition unpersist_add :: "bool \<Rightarrow> nat \<Rightarrow> nat \<Rightarrow> (nat \<times> nat) list \<Rightarrow> (nat \<times> nat) list" where
  "unpersist_add memo old new tab = (if memo then (old, new) # tab else tab)"

text \<open>\<open>Z_ADDREF_P\<close> on the structure at \<open>p\<close>.\<close>

definition Z_ADDREF :: "nat \<Rightarrow> unpersist_state \<Rightarrow> unpersist_state" where
  "Z_ADDREF p st = (case st of (tab, hp, gc) \<Rightarrow> (tab, hp, gc(p := gc p + 1)))"

text \<open>A new structure with the contents \<open>c\<close>, for the one at \<open>old\<close>.\<close>

definition unpersist_enter :: "bool \<Rightarrow> nat \<Rightarrow> counted \<Rightarrow> unpersist_state \<Rightarrow> nat \<times> unpersist_state" where
  "unpersist_enter memo old c st =
     (case st of (tab, hp, gc) \<Rightarrow>
        (let a = hp_fresh hp in (a, unpersist_add memo old a tab, hp_put a c hp, gc(a := 1))))"

definition apc_unpersist_zstr :: "bool \<Rightarrow> nat \<Rightarrow> zend_string \<Rightarrow> unpersist_state \<Rightarrow> nat \<times> unpersist_state" where
  "apc_unpersist_zstr memo old s st = unpersist_enter memo old (CStr s) st"

text \<open>
  The two bucket loops of the source, one for tables whose keys are all integers, one for the
  others. \<open>zend_string_dup\<close> copies a key, without its cached hash. The bytes of an unused bucket that the
  second loop leaves as \<open>emalloc\<close> returned them are zero here; nothing reads them.
\<close>

primrec unpersist_buckets_static ::
  "(zval \<Rightarrow> unpersist_state \<Rightarrow> (zval \<times> unpersist_state) option) \<Rightarrow> bucket list \<Rightarrow> unpersist_state \<Rightarrow>
   (bucket list \<times> unpersist_state) option" where
  "unpersist_buckets_static unp [] st = Some ([], st)"
| "unpersist_buckets_static unp (q # qs) st = do {
     (v, st1) \<leftarrow> unp (bk_val q) st;
     (ps, st2) \<leftarrow> unpersist_buckets_static unp qs st1;
     Some (q\<lparr>bk_val := v\<rparr> # ps, st2)
   }"

definition unpersist_key :: "heap \<Rightarrow> nat \<Rightarrow> unpersist_state \<Rightarrow> (nat \<times> unpersist_state) option" where
  "unpersist_key sh key st =
     (if key \<noteq> 0
      then do {
        s \<leftarrow> hp_str sh key;
        Some (apc_unpersist_zstr False 0 (mk_zstr (zs_val s)) st)
      }
      else Some (0, st))"

primrec unpersist_buckets ::
  "(zval \<Rightarrow> unpersist_state \<Rightarrow> (zval \<times> unpersist_state) option) \<Rightarrow> heap \<Rightarrow> bucket list \<Rightarrow> unpersist_state \<Rightarrow>
   (bucket list \<times> unpersist_state) option" where
  "unpersist_buckets unp sh [] st = Some ([], st)"
| "unpersist_buckets unp sh (q # qs) st =
     (if bk_val q = IS_UNDEF
      then do {
        (ps, st2) \<leftarrow> unpersist_buckets unp sh qs st;
        Some (\<lparr>bk_val = IS_UNDEF, bk_h = 0, bk_key = 0\<rparr> # ps, st2)
      }
      else do {
        (key, st1) \<leftarrow> unpersist_key sh (bk_key q) st;
        (v, st2) \<leftarrow> unp (bk_val q) st1;
        (ps, st3) \<leftarrow> unpersist_buckets unp sh qs st2;
        Some (\<lparr>bk_val = v, bk_h = bk_h q, bk_key = key\<rparr> # ps, st3)
      })"

text \<open>
  A table and a reference are entered in the table of copied structures before their contents are
  read; the contents are written when they are complete.
\<close>

definition unpersist_write :: "nat \<Rightarrow> counted \<Rightarrow> unpersist_state \<Rightarrow> unpersist_state" where
  "unpersist_write a c st = (case st of (tab, hp, gc) \<Rightarrow> (tab, hp_put a c hp, gc))"

definition unpersist_ht ::
  "(zval \<Rightarrow> unpersist_state \<Rightarrow> (zval \<times> unpersist_state) option) \<Rightarrow> bool \<Rightarrow> heap \<Rightarrow> nat \<Rightarrow> hash_table \<Rightarrow>
   unpersist_state \<Rightarrow> (nat \<times> unpersist_state) option" where
  "unpersist_ht unp memo sh old ht st = do {
     let (a, st1) = unpersist_enter memo old (CArr ht) st;
     if ht_data ht = []
     then Some (a, unpersist_write a (CArr (ht\<lparr>ht_hash := [HT_INVALID_IDX, HT_INVALID_IDX]\<rparr>)) st1)
     else do {
       (ps, st2) \<leftarrow> (if ht_flags ht AND HASH_FLAG_STATIC_KEYS \<noteq> 0
                    then unpersist_buckets_static unp (ht_data ht) st1
                    else unpersist_buckets unp sh (ht_data ht) st1);
       Some (a, unpersist_write a (CArr (ht\<lparr>ht_data := ps\<rparr>)) st2)
     }
   }"

definition unpersist_ref ::
  "(zval \<Rightarrow> unpersist_state \<Rightarrow> (zval \<times> unpersist_state) option) \<Rightarrow> bool \<Rightarrow> nat \<Rightarrow> zval \<Rightarrow>
   unpersist_state \<Rightarrow> (nat \<times> unpersist_state) option" where
  "unpersist_ref unp memo old orig st = do {
     let (a, st1) = unpersist_enter memo old (CRef orig) st;
     (v, st2) \<leftarrow> unp orig st1;
     Some (a, unpersist_write a (CRef v) st2)
   }"

text \<open>A structure that was copied before is shared: the copy gets one more reference.\<close>

primrec unpersist_zval ::
  "nat \<Rightarrow> bool \<Rightarrow> heap \<Rightarrow> zval \<Rightarrow> unpersist_state \<Rightarrow> (zval \<times> unpersist_state) option" where
  "unpersist_zval 0 memo sh zv st = None"
| "unpersist_zval (Suc n) memo sh zv st =
     (if z_simple zv then Some (zv, st)
      else (let copied = unpersist_copied memo (Z_COUNTED zv) (fst st) in
        case zv of
          IS_STRING a \<Rightarrow>
            (case copied of
               Some p \<Rightarrow> Some (IS_STRING p, Z_ADDREF p st)
             | None \<Rightarrow> do {
                 s \<leftarrow> hp_str sh a;
                 let (p, st1) = apc_unpersist_zstr memo a s st;
                 Some (IS_STRING p, st1)
               })
        | IS_REFERENCE a \<Rightarrow>
            (case copied of
               Some p \<Rightarrow> Some (IS_REFERENCE p, Z_ADDREF p st)
             | None \<Rightarrow> do {
                 v \<leftarrow> hp_ref sh a;
                 (p, st1) \<leftarrow> unpersist_ref (unpersist_zval n memo sh) memo a v st;
                 Some (IS_REFERENCE p, st1)
               })
        | IS_ARRAY a \<Rightarrow>
            (case copied of
               Some p \<Rightarrow> Some (IS_ARRAY p, Z_ADDREF p st)
             | None \<Rightarrow> do {
                 ht \<leftarrow> hp_arr sh a;
                 (p, st1) \<leftarrow> unpersist_ht (unpersist_zval n memo sh) memo sh a ht st;
                 Some (IS_ARRAY p, st1)
               })
        | _ \<Rightarrow> None))"

text \<open>
  A serialized value is a pointer to its string. The result is (return value, \<open>*dst\<close>, the
  request's store). \<open>unpersist_value\<close> is the part for other values, with the counts; the callers
  only use the value and the store. The counts of what an unserializer builds are its own.
\<close>

definition unpersist_value :: "heap \<Rightarrow> zval \<Rightarrow> heap \<times> ref_counts \<Rightarrow> (zval \<times> heap \<times> ref_counts) option" where
  "unpersist_value sh value rq = do {
     assert_c (Z_TYPE value \<noteq> 10);
     (v, st) \<leftarrow> unpersist_zval (persist_fuel sh) (Z_TYPE value = 7) sh value ([], rq);
     Some (v, snd st)
   }"

definition apc_unpersist_serialized ::
  "(heap \<Rightarrow> string \<Rightarrow> (zval \<times> heap) option) \<Rightarrow> apc_serializer_t option \<Rightarrow> zend_string \<Rightarrow> heap \<Rightarrow>
   bool \<times> zval \<times> heap" where
  "apc_unpersist_serialized php_unser serializer str rq =
     (let unserialize = (case serializer of None \<Rightarrow> php_unser | Some r \<Rightarrow> ser_unserialize r)
      in case unserialize rq (zs_val str) of
           Some (v, rq1) \<Rightarrow> (True, v, rq1)
         | None \<Rightarrow> (False, IS_NULL, rq))"

definition apc_unpersist ::
  "(heap \<Rightarrow> string \<Rightarrow> (zval \<times> heap) option) \<Rightarrow> apc_serializer_t option \<Rightarrow> heap \<Rightarrow> zval \<Rightarrow> heap \<Rightarrow>
   (bool \<times> zval \<times> heap) option" where
  "apc_unpersist php_unser serializer sh value rq =
     (case value of
        IS_PTR a \<Rightarrow> do {
          str \<leftarrow> hp_str sh a;
          Some (apc_unpersist_serialized php_unser serializer str rq)
        }
      | _ \<Rightarrow> do {
          (v, rq1, _) \<leftarrow> unpersist_value sh value (rq, \<lambda>_. 0);
          Some (True, v, rq1)
        })"

end
