(* ===== verification/Apc_Time.thy ===== *)
theory Apc_Time imports Apc_Persist begin

text \<open>
  The per-process globals the cache reads (\<open>apc_globals.h\<close>), the clock (\<open>apc_time.c\<close>), and what one
  operation receives from its surroundings: clocks, process id, the request's store, PHP's own
  serializer. Within one operation the clocks stand still.
\<close>

text \<open>\<open>g_depth\<close> is \<open>SIGG(depth)\<close>, the nesting of sections that hold signals back.\<close>

record apc_globals =
  g_use_request_time :: bool
  g_request_time :: i64
  g_entry_level :: nat
  g_depth :: int

record apc_env =
  ev_time :: i64
  ev_monotonic :: i64
  ev_sapi_request_time :: i64
  ev_pid :: int
  ev_rq :: heap
  ev_php_var_serialize :: "heap \<Rightarrow> zval \<Rightarrow> string option \<times> bool"
  ev_php_var_unserialize :: "heap \<Rightarrow> string \<Rightarrow> (zval \<times> heap) option"

text \<open>With \<open>use_request_time\<close> the time of the request is asked for once and kept.\<close>

definition apc_time :: "apc_env \<Rightarrow> apc_globals \<Rightarrow> i64 \<times> apc_globals" where
  "apc_time ev g =
     (if g_use_request_time g
      then (let g1 = (if g_request_time g = 0 then g\<lparr>g_request_time := ev_sapi_request_time ev\<rparr> else g)
            in (g_request_time g1, g1))
      else (ev_monotonic ev, g))"

lemma apc_time_frame:
  assumes "apc_time ev g = (t, g')"
  shows "g_entry_level g' = g_entry_level g \<and> g_depth g' = g_depth g \<and>
    g_use_request_time g' = g_use_request_time g"
  using assms by (auto simp: apc_time_def Let_def split: if_splits)

lemma apc_time_stable:
  assumes "apc_time ev g = (t, g')" "g_use_request_time g" "t \<noteq> 0"
  shows "apc_time ev' g' = (t, g')"
  using assms by (auto simp: apc_time_def Let_def split: if_splits)

end
