(* ===== verification/Apc_Cache.thy ===== *)
theory Apc_Cache imports Apc_Time Apc_Sma begin

text \<open>
  \<open>apc_cache.c\<close>: the hash table of entries in shared memory. A bucket chain is a list of entries,
  so an \<open>apc_cache_entry_t **\<close> that walks a chain is the rest of that list; an entry carries the
  address of the block it lives in, and a pointer to an entry is that address. Removed entries
  that are still referenced move to the list \<open>c_gc\<close>.

  A world is the allocator and, beside it, the cache with the process's globals and the strings
  and tables of shared memory. Counters and times are 64-bit words. \<open>apc_debug\<close> prints nothing in
  the configured build.
\<close>

section \<open>State\<close>

record apc_cache_slam_key_t =
  sk_hash :: u64
  sk_len :: nat
  sk_mtime :: i64
  sk_owner_pid :: int

definition no_slam_key :: apc_cache_slam_key_t where
  "no_slam_key = \<lparr>sk_hash = 0, sk_len = 0, sk_mtime = 0, sk_owner_pid = 0\<rparr>"

text \<open>\<open>apc_cache_header_t\<close> and \<open>apc_cache_t\<close> in one record.\<close>

record apc_cache_t =
  c_shmaddr :: nat
  c_lock :: apc_lock_t
  c_nhits :: i64
  c_nmisses :: i64
  c_ninserts :: i64
  c_nexpunges :: i64
  c_nentries :: i64
  c_mem_size :: i64
  c_stime :: i64
  c_state :: nat
  c_lastkey :: apc_cache_slam_key_t
  c_gc :: "apc_cache_entry_t list"
  c_slots :: "apc_cache_entry_t list list"
  c_serializer :: "apc_serializer_t option"
  c_nslots :: nat
  c_gc_ttl :: i64
  c_ttl :: i64
  c_smart :: i64
  c_defend :: bool

text \<open>\<open>cs_null\<close>: the process has no cache (the pointer is \<open>NULL\<close>); \<open>cs_cache\<close> means nothing then.\<close>

record cstate =
  cs_null :: bool
  cs_cache :: apc_cache_t
  cs_g :: apc_globals
  cs_shm :: heap

type_synonym world = "apc_sma_t \<times> cstate"

definition upd_cache :: "(apc_cache_t \<Rightarrow> apc_cache_t) \<Rightarrow> world \<Rightarrow> world" where
  "upd_cache f w = (fst w, (snd w)\<lparr>cs_cache := f (cs_cache (snd w))\<rparr>)"

definition upd_g :: "apc_globals \<Rightarrow> world \<Rightarrow> world" where
  "upd_g g w = (fst w, (snd w)\<lparr>cs_g := g\<rparr>)"

abbreviation cch :: "world \<Rightarrow> apc_cache_t" where "cch w \<equiv> cs_cache (snd w)"

abbreviation glb :: "world \<Rightarrow> apc_globals" where "glb w \<equiv> cs_g (snd w)"

definition SIZEOF_CACHE_HEADER :: nat where "SIZEOF_CACHE_HEADER = 160"

section \<open>Locking\<close>

text \<open>Inside \<open>apcu_entry\<close> the process holds the lock already.\<close>

definition apc_cache_wlock :: "world \<Rightarrow> (bool \<times> world) option" where
  "apc_cache_wlock w =
     (if g_entry_level (glb w) = 0
      then do {
        (ok, l, d) \<leftarrow> apc_lock_wlock (c_lock (cch w)) (g_depth (glb w));
        Some (ok, upd_g ((glb w)\<lparr>g_depth := d\<rparr>) (upd_cache (\<lambda>c. c\<lparr>c_lock := l\<rparr>) w))
      }
      else Some (True, w))"

definition apc_cache_wunlock :: "world \<Rightarrow> world option" where
  "apc_cache_wunlock w =
     (if g_entry_level (glb w) = 0
      then do {
        (l, d) \<leftarrow> WUNLOCK (c_lock (cch w)) (g_depth (glb w));
        Some (upd_g ((glb w)\<lparr>g_depth := d\<rparr>) (upd_cache (\<lambda>c. c\<lparr>c_lock := l\<rparr>) w))
      }
      else Some w)"

definition apc_cache_rlock :: "world \<Rightarrow> (bool \<times> world) option" where
  "apc_cache_rlock w =
     (if g_entry_level (glb w) = 0
      then do {
        (ok, l, d) \<leftarrow> apc_lock_rlock (c_lock (cch w)) (g_depth (glb w));
        Some (ok, upd_g ((glb w)\<lparr>g_depth := d\<rparr>) (upd_cache (\<lambda>c. c\<lparr>c_lock := l\<rparr>) w))
      }
      else Some (True, w))"

definition apc_cache_runlock :: "world \<Rightarrow> world option" where
  "apc_cache_runlock w =
     (if g_entry_level (glb w) = 0
      then do {
        (l, d) \<leftarrow> RUNLOCK (c_lock (cch w)) (g_depth (glb w));
        Some (upd_g ((glb w)\<lparr>g_depth := d\<rparr>) (upd_cache (\<lambda>c. c\<lparr>c_lock := l\<rparr>) w))
      }
      else Some w)"

section \<open>Entries\<close>

definition free_entry :: "nat \<Rightarrow> world \<Rightarrow> world option" where
  "free_entry a w = do {
     sma \<leftarrow> apc_sma_free (fst w) a;
     Some (sma, snd w)
   }"

definition apc_entry_key_equals :: "apc_cache_entry_t \<Rightarrow> zend_string \<Rightarrow> u64 \<Rightarrow> bool" where
  "apc_entry_key_equals e key hash \<longleftrightarrow>
     zs_h (ce_key e) = hash \<and> ZSTR_LEN (ce_key e) = ZSTR_LEN key \<and> zs_val (ce_key e) = zs_val key"

definition apc_cache_entry_hard_expired :: "apc_cache_entry_t \<Rightarrow> i64 \<Rightarrow> bool" where
  "apc_cache_entry_hard_expired e t \<longleftrightarrow> ce_ttl e \<noteq> 0 \<and> i64_less (ce_ctime e + ce_ttl e) t"

definition apc_cache_entry_soft_expired :: "i64 \<Rightarrow> apc_cache_entry_t \<Rightarrow> i64 \<Rightarrow> bool" where
  "apc_cache_entry_soft_expired cttl e t \<longleftrightarrow>
     ce_ttl e = 0 \<and> cttl \<noteq> 0 \<and> i64_less (ce_atime e + cttl) t"

definition apc_cache_entry_expired :: "i64 \<Rightarrow> apc_cache_entry_t \<Rightarrow> i64 \<Rightarrow> bool" where
  "apc_cache_entry_expired cttl e t \<longleftrightarrow>
     apc_cache_entry_hard_expired e t \<or> apc_cache_entry_soft_expired cttl e t"

text \<open>
  The part of \<open>apc_cache_wlocked_remove_entry\<close> after the entry is unlinked from its chain. An
  entry without references is freed, any other goes to the list of removed entries.
\<close>

definition cache_unaccount :: "apc_cache_entry_t \<Rightarrow> apc_cache_t \<Rightarrow> apc_cache_t" where
  "cache_unaccount dead c =
     (let c1 = (if c_mem_size c \<noteq> 0 then c\<lparr>c_mem_size := c_mem_size c - ce_mem_size dead\<rparr> else c)
      in if c_nentries c1 \<noteq> 0 then c1\<lparr>c_nentries := c_nentries c1 - 1\<rparr> else c1)"

definition apc_cache_wlocked_remove_entry :: "apc_env \<Rightarrow> apc_cache_entry_t \<Rightarrow> world \<Rightarrow> world option" where
  "apc_cache_wlocked_remove_entry ev dead w =
     (let w1 = upd_cache (cache_unaccount dead) w
      in if \<not> i64_less 0 (ce_ref_count dead) then free_entry (ce_addr dead) w1
         else Some (upd_cache (\<lambda>c. c\<lparr>c_gc := dead\<lparr>ce_dtime := ev_time ev\<rparr> # c_gc c\<rparr>) w1))"

text \<open>\<open>apc_cache_wlocked_gc\<close>: the loop keeps the entries it does not free, in their order.\<close>

definition gc_due :: "i64 \<Rightarrow> i64 \<Rightarrow> apc_cache_entry_t \<Rightarrow> bool" where
  "gc_due gc_ttl now e \<longleftrightarrow>
     (let gc_sec = (if gc_ttl \<noteq> 0 then now - ce_dtime e else 0)
      in ce_ref_count e = 0 \<or> i64_less gc_ttl gc_sec)"

primrec gc_walk :: "i64 \<Rightarrow> i64 \<Rightarrow> apc_cache_entry_t list \<Rightarrow> world \<Rightarrow> (apc_cache_entry_t list \<times> world) option" where
  "gc_walk gc_ttl now [] w = Some ([], w)"
| "gc_walk gc_ttl now (e # es) w =
     (if gc_due gc_ttl now e
      then do { w1 \<leftarrow> free_entry (ce_addr e) w; gc_walk gc_ttl now es w1 }
      else do { (es', w1) \<leftarrow> gc_walk gc_ttl now es w; Some (e # es', w1) })"

definition apc_cache_wlocked_gc :: "apc_env \<Rightarrow> world \<Rightarrow> world option" where
  "apc_cache_wlocked_gc ev w =
     (if c_gc (cch w) = [] then Some w
      else do {
        (es, w1) \<leftarrow> gc_walk (c_gc_ttl (cch w)) (ev_time ev) (c_gc (cch w)) w;
        Some (upd_cache (\<lambda>c. c\<lparr>c_gc := es\<rparr>) w1)
      })"

section \<open>Insertion\<close>

text \<open>
  The walk along the chain of the key's slot. The first component tells whether the entry was
  linked in; it is not when an exclusive insert meets a live entry with the key.
\<close>

primrec insert_walk ::
  "apc_env \<Rightarrow> apc_cache_entry_t \<Rightarrow> bool \<Rightarrow> u64 \<Rightarrow> i64 \<Rightarrow> apc_cache_entry_t list \<Rightarrow> world \<Rightarrow>
   (bool \<times> apc_cache_entry_t list \<times> world) option" where
  "insert_walk ev new exclusive h cttl [] w = Some (True, [new], w)"
| "insert_walk ev new exclusive h cttl (e # es) w =
     (if apc_entry_key_equals e (ce_key new) h
      then (if exclusive \<and> \<not> apc_cache_entry_hard_expired e (ce_ctime new)
            then Some (False, e # es, w)
            else do {
              w1 \<leftarrow> apc_cache_wlocked_remove_entry ev e w;
              Some (True, new # es, w1)
            })
      else if apc_cache_entry_expired cttl e (ce_ctime new)
      then do {
        w1 \<leftarrow> apc_cache_wlocked_remove_entry ev e w;
        insert_walk ev new exclusive h cttl es w1
      }
      else do {
        (ok, es', w1) \<leftarrow> insert_walk ev new exclusive h cttl es w;
        Some (ok, e # es', w1)
      })"

definition set_slot :: "nat \<Rightarrow> apc_cache_entry_t list \<Rightarrow> apc_cache_t \<Rightarrow> apc_cache_t" where
  "set_slot s es c = c\<lparr>c_slots := (c_slots c)[s := es]\<rparr>"

definition apc_cache_wlocked_insert ::
  "apc_env \<Rightarrow> apc_cache_entry_t \<Rightarrow> bool \<Rightarrow> world \<Rightarrow> (bool \<times> world) option" where
  "apc_cache_wlocked_insert ev new exclusive w = do {
     w1 \<leftarrow> apc_cache_wlocked_gc ev w;
     let (h, s) = apc_cache_hash_slot (c_nslots (cch w1)) (ce_key new);
     (ok, es, w2) \<leftarrow> insert_walk ev new exclusive h (c_ttl (cch w1)) (c_slots (cch w1) ! s) w1;
     let w3 = upd_cache (set_slot s es) w2;
     Some (ok, if ok then upd_cache (\<lambda>c. c\<lparr>c_mem_size := c_mem_size c + ce_mem_size new,
                                           c_nentries := c_nentries c + 1,
                                           c_ninserts := c_ninserts c + 1\<rparr>) w3
               else w3)
   }"

section \<open>Expunge\<close>

primrec remove_all :: "apc_env \<Rightarrow> apc_cache_entry_t list \<Rightarrow> world \<Rightarrow> world option" where
  "remove_all ev [] w = Some w"
| "remove_all ev (e # es) w = do {
     w1 \<leftarrow> apc_cache_wlocked_remove_entry ev e w;
     remove_all ev es w1
   }"

primrec remove_slots :: "apc_env \<Rightarrow> nat list \<Rightarrow> world \<Rightarrow> world option" where
  "remove_slots ev [] w = Some w"
| "remove_slots ev (i # is) w = do {
     w1 \<leftarrow> remove_all ev (c_slots (cch w) ! i) w;
     remove_slots ev is (upd_cache (set_slot i []) w1)
   }"

definition apc_cache_wlocked_real_expunge :: "apc_env \<Rightarrow> world \<Rightarrow> world option" where
  "apc_cache_wlocked_real_expunge ev w = do {
     let w1 = upd_cache (\<lambda>c. c\<lparr>c_nexpunges := c_nexpunges c + 1\<rparr>) w;
     w2 \<leftarrow> remove_slots ev [0..<c_nslots (cch w1)] w1;
     let (t, g) = apc_time ev (glb w2);
     Some (upd_cache (\<lambda>c. c\<lparr>c_stime := t, c_ninserts := 0, c_nentries := 0, c_nhits := 0,
                            c_nmisses := 0, c_lastkey := no_slam_key\<rparr>) (upd_g g w2))
   }"

primrec junk_walk ::
  "apc_env \<Rightarrow> i64 \<Rightarrow> i64 \<Rightarrow> apc_cache_entry_t list \<Rightarrow> world \<Rightarrow> (apc_cache_entry_t list \<times> world) option" where
  "junk_walk ev cttl t [] w = Some ([], w)"
| "junk_walk ev cttl t (e # es) w =
     (if apc_cache_entry_expired cttl e t
      then do {
        w1 \<leftarrow> apc_cache_wlocked_remove_entry ev e w;
        junk_walk ev cttl t es w1
      }
      else do {
        (es', w1) \<leftarrow> junk_walk ev cttl t es w;
        Some (e # es', w1)
      })"

primrec junk_slots :: "apc_env \<Rightarrow> i64 \<Rightarrow> nat list \<Rightarrow> world \<Rightarrow> world option" where
  "junk_slots ev t [] w = Some w"
| "junk_slots ev t (i # is) w = do {
     (es, w1) \<leftarrow> junk_walk ev (c_ttl (cch w)) t (c_slots (cch w) ! i) w;
     junk_slots ev t is (upd_cache (set_slot i es) w1)
   }"

text \<open>\<open>smart * size\<close> is a product of 64-bit words.\<close>

definition expunge_suitable :: "world \<Rightarrow> nat \<Rightarrow> nat" where
  "expunge_suitable w sz =
     (if i64_less 0 (c_smart (cch w)) then sz_mul (unat (c_smart (cch w))) sz
      else sma_size (fst w) div 2)"

definition apc_cache_default_expunge :: "apc_env \<Rightarrow> world \<Rightarrow> nat \<Rightarrow> world option" where
  "apc_cache_default_expunge ev w sz =
     (if cs_null (snd w) then Some w
      else do {
        let (t, g) = apc_time ev (glb w);
        (ok, w1) \<leftarrow> apc_cache_wlock (upd_g g w);
        if \<not> ok then Some w1
        else do {
          let suitable = expunge_suitable w1 sz;
          w2 \<leftarrow> apc_cache_wlocked_gc ev w1;
          let available = apc_sma_get_avail_mem (fst w2);
          w3 \<leftarrow> (if c_ttl (cch w2) = 0
                then (if available < suitable then apc_cache_wlocked_real_expunge ev w2 else Some w2)
                else (if available < suitable
                      then do {
                        w4 \<leftarrow> junk_slots ev t [0..<c_nslots (cch w2)] w2;
                        if apc_sma_get_avail_size (fst w4) sz
                        then Some (upd_cache (\<lambda>c. c\<lparr>c_lastkey := no_slam_key\<rparr>) w4)
                        else apc_cache_wlocked_real_expunge ev w4
                      }
                      else Some w2));
          apc_cache_wunlock w3
        }
      })"

definition apc_cache_clear :: "apc_env \<Rightarrow> world \<Rightarrow> world option" where
  "apc_cache_clear ev w =
     (if cs_null (snd w) then Some w
      else do {
        (ok, w1) \<leftarrow> apc_cache_wlock w;
        if \<not> ok then Some w1
        else do {
          w2 \<leftarrow> apc_cache_wlocked_real_expunge ev w1;
          let (t, g) = apc_time ev (glb w2);
          apc_cache_wunlock (upd_cache (\<lambda>c. c\<lparr>c_stime := t, c_nexpunges := 0\<rparr>) (upd_g g w2))
        }
      })"

section \<open>Store\<close>

text \<open>The slam defense: a second process storing the same key within the same second is refused.\<close>

definition apc_cache_defense :: "apc_env \<Rightarrow> zend_string \<Rightarrow> i64 \<Rightarrow> world \<Rightarrow> bool \<times> world" where
  "apc_cache_defense ev key t w =
     (if c_defend (cch w)
      then (let k = c_lastkey (cch w) in
        if sk_hash k = ZSTR_HASH key \<and> sk_len k = ZSTR_LEN key \<and> sk_mtime k = t \<and> sk_owner_pid k \<noteq> ev_pid ev
        then (True, w)
        else (False, upd_cache (\<lambda>c. c\<lparr>c_lastkey := \<lparr>sk_hash = ZSTR_HASH key, sk_len = ZSTR_LEN key,
                                                     sk_mtime = t, sk_owner_pid = ev_pid ev\<rparr>\<rparr>) w))
      else (False, w))"

definition apc_cache_init_entry :: "zend_string \<Rightarrow> zval \<Rightarrow> 32 word \<Rightarrow> i64 \<Rightarrow> apc_cache_entry_t" where
  "apc_cache_init_entry key val ttl t =
     \<lparr>ce_addr = 0, ce_key = key, ce_val = val, ce_ttl = scast ttl, ce_ref_count = 0, ce_nhits = 0,
      ce_ctime = t, ce_mtime = t, ce_dtime = 0, ce_atime = t, ce_mem_size = 0\<rparr>"

text \<open>\<open>apc_persist\<close> into the shared memory of the world, with the cache's expunge behind its malloc.\<close>

definition cache_malloc :: "apc_env \<Rightarrow> world \<Rightarrow> nat \<Rightarrow> (nat \<times> world) option" where
  "cache_malloc ev w n = apc_sma_malloc (apc_cache_default_expunge ev) w n"

definition cache_persist :: "apc_env \<Rightarrow> apc_cache_entry_t \<Rightarrow> world \<Rightarrow> (apc_cache_entry_t option \<times> world) option" where
  "cache_persist ev entry w = do {
     (r, w1, sh) \<leftarrow> apc_persist (php_apc_serializer (ev_php_var_serialize ev)) (cache_malloc ev) (c_serializer (cch w))
        (ev_rq ev) entry (w, cs_shm (snd w));
     Some (r, fst w1, (snd w1)\<lparr>cs_shm := sh\<rparr>)
   }"

definition apc_cache_store_internal ::
  "apc_env \<Rightarrow> zend_string \<Rightarrow> zval \<Rightarrow> 32 word \<Rightarrow> bool \<Rightarrow> world \<Rightarrow> (bool \<times> world) option" where
  "apc_cache_store_internal ev key val ttl exclusive w = do {
     let (t, g) = apc_time ev (glb w);
     let (slam, w1) = apc_cache_defense ev key t (upd_g g w);
     if slam then Some (False, w1)
     else do {
       (r, w2) \<leftarrow> cache_persist ev (apc_cache_init_entry key val ttl t) w1;
       (case r of
          None \<Rightarrow> Some (False, w2)
        | Some entry \<Rightarrow> do {
            (ok, w3) \<leftarrow> apc_cache_wlocked_insert ev entry exclusive w2;
            if ok then Some (True, w3)
            else do { w4 \<leftarrow> free_entry (ce_addr entry) w3; Some (False, w4) }
          })
     }
   }"

definition apc_cache_store ::
  "apc_env \<Rightarrow> zend_string \<Rightarrow> zval \<Rightarrow> 32 word \<Rightarrow> bool \<Rightarrow> world \<Rightarrow> (bool \<times> world) option" where
  "apc_cache_store ev key val ttl exclusive w = do {
     let (t, g) = apc_time ev (glb w);
     let w0 = upd_g g w;
     if cs_null (snd w0) then Some (False, w0)
     else do {
       let (slam, w1) = apc_cache_defense ev key t w0;
       if slam then Some (False, w1)
       else do {
         (r, w2) \<leftarrow> cache_persist ev (apc_cache_init_entry key val ttl t) w1;
         (case r of
            None \<Rightarrow> Some (False, w2)
          | Some entry \<Rightarrow> do {
              (ok, w3) \<leftarrow> apc_cache_wlock w2;
              if \<not> ok then do { w4 \<leftarrow> free_entry (ce_addr entry) w3; Some (False, w4) }
              else do {
                (ret, w4) \<leftarrow> apc_cache_wlocked_insert ev entry exclusive w3;
                w5 \<leftarrow> apc_cache_wunlock w4;
                if ret then Some (True, w5)
                else do { w6 \<leftarrow> free_entry (ce_addr entry) w5; Some (False, w6) }
              }
            })
       }
     }
   }"

section \<open>Lookup\<close>

primrec chain_find :: "zend_string \<Rightarrow> u64 \<Rightarrow> apc_cache_entry_t list \<Rightarrow> apc_cache_entry_t option" where
  "chain_find key h [] = None"
| "chain_find key h (e # es) = (if apc_entry_key_equals e key h then Some e else chain_find key h es)"

text \<open>The loop stops at the first entry with the key, expired or not.\<close>

definition apc_cache_rlocked_find_nostat :: "zend_string \<Rightarrow> i64 \<Rightarrow> world \<Rightarrow> apc_cache_entry_t option" where
  "apc_cache_rlocked_find_nostat key t w =
     (let (h, s) = apc_cache_hash_slot (c_nslots (cch w)) key
      in case chain_find key h (c_slots (cch w) ! s) of
           None \<Rightarrow> None
         | Some e \<Rightarrow> if apc_cache_entry_hard_expired e t then None else Some e)"

text \<open>Writing through a pointer to an entry, wherever the entry is linked.\<close>

definition upd_entry :: "nat \<Rightarrow> (apc_cache_entry_t \<Rightarrow> apc_cache_entry_t) \<Rightarrow> apc_cache_t \<Rightarrow> apc_cache_t" where
  "upd_entry a f c =
     (let g = (\<lambda>e. if ce_addr e = a then f e else e)
      in c\<lparr>c_slots := map (map g) (c_slots c), c_gc := map g (c_gc c)\<rparr>)"

definition has_entry :: "nat \<Rightarrow> apc_cache_t \<Rightarrow> bool" where
  "has_entry a c \<longleftrightarrow> (\<exists>e \<in> set (concat (c_slots c)) \<union> set (c_gc c). ce_addr e = a)"

definition apc_cache_rlocked_find :: "zend_string \<Rightarrow> i64 \<Rightarrow> world \<Rightarrow> apc_cache_entry_t option \<times> world" where
  "apc_cache_rlocked_find key t w =
     (case apc_cache_rlocked_find_nostat key t w of
        None \<Rightarrow> (None, upd_cache (\<lambda>c. c\<lparr>c_nmisses := c_nmisses c + 1\<rparr>) w)
      | Some e \<Rightarrow>
          (let hit = (\<lambda>e. e\<lparr>ce_nhits := ce_nhits e + 1, ce_atime := t\<rparr>)
           in (Some (hit e),
               upd_cache (\<lambda>c. upd_entry (ce_addr e) hit (c\<lparr>c_nhits := c_nhits c + 1\<rparr>)) w)))"

definition incref :: "apc_cache_entry_t \<Rightarrow> apc_cache_entry_t" where
  "incref e = e\<lparr>ce_ref_count := ce_ref_count e + 1\<rparr>"

definition decref :: "apc_cache_entry_t \<Rightarrow> apc_cache_entry_t" where
  "decref e = e\<lparr>ce_ref_count := ce_ref_count e - 1\<rparr>"

definition apc_cache_rlocked_find_incref :: "zend_string \<Rightarrow> i64 \<Rightarrow> world \<Rightarrow> apc_cache_entry_t option \<times> world" where
  "apc_cache_rlocked_find_incref key t w =
     (case apc_cache_rlocked_find key t w of
        (None, w1) \<Rightarrow> (None, w1)
      | (Some e, w1) \<Rightarrow> (Some (incref e), upd_cache (upd_entry (ce_addr e) incref) w1))"

text \<open>Releasing an entry that is no longer linked anywhere writes into freed memory.\<close>

definition apc_cache_entry_release :: "nat \<Rightarrow> world \<Rightarrow> world option" where
  "apc_cache_entry_release a w = do {
     assert_c (has_entry a (cch w));
     Some (upd_cache (upd_entry a decref) w)
   }"

definition apc_cache_entry_fetch_zval ::
  "apc_env \<Rightarrow> apc_cache_entry_t \<Rightarrow> world \<Rightarrow> (bool \<times> zval \<times> heap) option" where
  "apc_cache_entry_fetch_zval ev e w =
     apc_unpersist (php_apc_unserializer (ev_php_var_unserialize ev)) (c_serializer (cch w)) (cs_shm (snd w))
       (ce_val e) (ev_rq ev)"

definition apc_cache_find :: "zend_string \<Rightarrow> i64 \<Rightarrow> world \<Rightarrow> (apc_cache_entry_t option \<times> world) option" where
  "apc_cache_find key t w =
     (if cs_null (snd w) then Some (None, w)
      else do {
        (ok, w1) \<leftarrow> apc_cache_rlock w;
        if \<not> ok then Some (None, w1)
        else do {
          let (r, w2) = apc_cache_rlocked_find_incref key t w1;
          w3 \<leftarrow> apc_cache_runlock w2;
          Some (r, w3)
        }
      })"

text \<open>The value and the request's store are \<open>None\<close> when nothing was written to \<open>*dst\<close>.\<close>

definition apc_cache_fetch ::
  "apc_env \<Rightarrow> zend_string \<Rightarrow> i64 \<Rightarrow> world \<Rightarrow> (bool \<times> (zval \<times> heap) option \<times> world) option" where
  "apc_cache_fetch ev key t w =
     (if cs_null (snd w) then Some (False, None, w)
      else do {
        (ok, w1) \<leftarrow> apc_cache_rlock w;
        if \<not> ok then Some (False, None, w1)
        else do {
          let (r, w2) = apc_cache_rlocked_find_incref key t w1;
          w3 \<leftarrow> apc_cache_runlock w2;
          (case r of
             None \<Rightarrow> Some (False, None, w3)
           | Some e \<Rightarrow> do {
               (ret, dst, rq) \<leftarrow> apc_cache_entry_fetch_zval ev e w3;
               w4 \<leftarrow> apc_cache_entry_release (ce_addr e) w3;
               Some (ret, Some (dst, rq), w4)
             })
        }
      })"

definition apc_cache_exists :: "zend_string \<Rightarrow> i64 \<Rightarrow> world \<Rightarrow> (bool \<times> world) option" where
  "apc_cache_exists key t w =
     (if cs_null (snd w) then Some (False, w)
      else do {
        (ok, w1) \<leftarrow> apc_cache_rlock w;
        if \<not> ok then Some (False, w1)
        else do {
          w2 \<leftarrow> apc_cache_runlock w1;
          Some (apc_cache_rlocked_find_nostat key t w1 \<noteq> None, w2)
        }
      })"

section \<open>Update in place\<close>

text \<open>
  \<open>upd\<close> is the updater with its data: it may change the value of the entry and says whether it
  succeeded. The attempt is the code from \<open>retry_update\<close> to the end of the function; its first
  component is \<open>None\<close> when the key is absent.
\<close>

definition update_attempt ::
  "(apc_cache_entry_t \<Rightarrow> bool \<times> zval) \<Rightarrow> zend_string \<Rightarrow> i64 \<Rightarrow> world \<Rightarrow> (bool option \<times> world) option" where
  "update_attempt upd key t w = do {
     (ok, w1) \<leftarrow> apc_cache_wlock w;
     if \<not> ok then Some (Some False, w1)
     else (case apc_cache_rlocked_find_nostat key t w1 of
         Some e \<Rightarrow> do {
           let (retval, v) = upd e;
           let w2 = (if z_simple (ce_val e)
                     then upd_cache (upd_entry (ce_addr e) (\<lambda>e. e\<lparr>ce_val := v, ce_mtime := t\<rparr>)) w1
                     else w1);
           w3 \<leftarrow> apc_cache_wunlock w2;
           Some (Some (if z_simple (ce_val e) then retval else False), w3)
         }
       | None \<Rightarrow> do {
           w2 \<leftarrow> apc_cache_wunlock w1;
           Some (None, w2)
         })
   }"

text \<open>The \<open>zend_long\<close> ttl is narrowed to the \<open>int32_t\<close> parameter of \<open>apc_cache_store\<close>.\<close>

definition apc_cache_update ::
  "apc_env \<Rightarrow> zend_string \<Rightarrow> (apc_cache_entry_t \<Rightarrow> bool \<times> zval) \<Rightarrow> bool \<Rightarrow> i64 \<Rightarrow> world \<Rightarrow> (bool \<times> world) option" where
  "apc_cache_update ev key upd insert_if_not_found ttl w = do {
     let (t, g) = apc_time ev (glb w);
     let w0 = upd_g g w;
     if cs_null (snd w0) then Some (False, w0)
     else do {
       (r, w1) \<leftarrow> update_attempt upd key t w0;
       (case r of
          Some b \<Rightarrow> Some (b, w1)
        | None \<Rightarrow>
            if insert_if_not_found
            then do {
              (_, w2) \<leftarrow> apc_cache_store ev key (IS_LONG 0) (ucast ttl) True w1;
              (r2, w3) \<leftarrow> update_attempt upd key t w2;
              Some (case r2 of Some b \<Rightarrow> b | None \<Rightarrow> False, w3)
            }
            else Some (False, w1))
     }
   }"

text \<open>
  The atomic variant works under the read lock and on integers only. The updater's \<open>data\<close> is
  written through, so it is threaded and handed back.
\<close>

definition atomic_update_attempt ::
  "(i64 \<Rightarrow> 'd \<Rightarrow> bool \<times> i64 \<times> 'd) \<Rightarrow> 'd \<Rightarrow> zend_string \<Rightarrow> i64 \<Rightarrow> world \<Rightarrow> (bool option \<times> 'd \<times> world) option" where
  "atomic_update_attempt upd data key t w = do {
     (ok, w1) \<leftarrow> apc_cache_rlock w;
     if \<not> ok then Some (Some False, data, w1)
     else (case apc_cache_rlocked_find_nostat key t w1 of
         Some e \<Rightarrow> do {
           let (retval, data1, w2) = (case ce_val e of
               IS_LONG i \<Rightarrow> (let (b, j, d) = upd i data
                  in (b, d, upd_cache (upd_entry (ce_addr e) (\<lambda>e. e\<lparr>ce_val := IS_LONG j, ce_mtime := t\<rparr>)) w1))
             | _ \<Rightarrow> (False, data, w1));
           w3 \<leftarrow> apc_cache_runlock w2;
           Some (Some retval, data1, w3)
         }
       | None \<Rightarrow> do {
           w2 \<leftarrow> apc_cache_runlock w1;
           Some (None, data, w2)
         })
   }"

definition apc_cache_atomic_update_long ::
  "apc_env \<Rightarrow> zend_string \<Rightarrow> (i64 \<Rightarrow> 'd \<Rightarrow> bool \<times> i64 \<times> 'd) \<Rightarrow> 'd \<Rightarrow> bool \<Rightarrow> i64 \<Rightarrow> world \<Rightarrow> (bool \<times> 'd \<times> world) option" where
  "apc_cache_atomic_update_long ev key upd data insert_if_not_found ttl w = do {
     let (t, g) = apc_time ev (glb w);
     let w0 = upd_g g w;
     if cs_null (snd w0) then Some (False, data, w0)
     else do {
       (r, data1, w1) \<leftarrow> atomic_update_attempt upd data key t w0;
       (case r of
          Some b \<Rightarrow> Some (b, data1, w1)
        | None \<Rightarrow>
            if insert_if_not_found
            then do {
              (_, w2) \<leftarrow> apc_cache_store ev key (IS_LONG 0) (ucast ttl) True w1;
              (r2, data2, w3) \<leftarrow> atomic_update_attempt upd data1 key t w2;
              Some (case r2 of Some b \<Rightarrow> b | None \<Rightarrow> False, data2, w3)
            }
            else Some (False, data1, w1))
     }
   }"

section \<open>Delete\<close>

primrec delete_walk ::
  "apc_env \<Rightarrow> zend_string \<Rightarrow> u64 \<Rightarrow> apc_cache_entry_t list \<Rightarrow> world \<Rightarrow> (bool \<times> apc_cache_entry_t list \<times> world) option" where
  "delete_walk ev key h [] w = Some (False, [], w)"
| "delete_walk ev key h (e # es) w =
     (if apc_entry_key_equals e key h
      then do {
        w1 \<leftarrow> apc_cache_wlocked_remove_entry ev e w;
        Some (True, es, w1)
      }
      else do {
        (b, es', w1) \<leftarrow> delete_walk ev key h es w;
        Some (b, e # es', w1)
      })"

definition apc_cache_delete :: "apc_env \<Rightarrow> zend_string \<Rightarrow> world \<Rightarrow> (bool \<times> world) option" where
  "apc_cache_delete ev key w =
     (if cs_null (snd w) then Some (False, w)
      else (let (h, s) = apc_cache_hash_slot (c_nslots (cch w)) key in do {
        (ok, w1) \<leftarrow> apc_cache_wlock w;
        if \<not> ok then Some (False, w1)
        else do {
          (b, es, w2) \<leftarrow> delete_walk ev key h (c_slots (cch w1) ! s) w1;
          w3 \<leftarrow> apc_cache_wunlock (upd_cache (set_slot s es) w2);
          Some (b, w3)
        }
      }))"

end
