(* ===== verification/Apc_Persist_Props.thy ===== *)
theory Apc_Persist_Props imports Apc_Persist begin

text \<open>
  The two passes of \<open>apc_persist\<close> fit together: the first pass ends on every value of a closed
  store, and when it succeeds the second pass fills the block it measured to the last byte.
\<close>

section \<open>Closed stores\<close>

definition zv_ok :: "heap \<Rightarrow> zval \<Rightarrow> bool" where
  "zv_ok hp zv = (case zv of
       IS_STRING a \<Rightarrow> hp_str hp a \<noteq> None
     | IS_ARRAY a \<Rightarrow> hp_arr hp a \<noteq> None
     | IS_REFERENCE a \<Rightarrow> hp_ref hp a \<noteq> None
     | IS_OBJECT a \<Rightarrow> (\<exists>k. hp_get hp a = Some (CObj k))
     | IS_RESOURCE a \<Rightarrow> (\<exists>k. hp_get hp a = Some (CObj k))
     | IS_PTR a \<Rightarrow> False
     | IS_INDIRECT a \<Rightarrow> False
     | _ \<Rightarrow> True)"

definition bucket_ok :: "heap \<Rightarrow> bucket \<Rightarrow> bool" where
  "bucket_ok hp p \<longleftrightarrow> (zv_ok hp (bk_val p) \<or> (\<exists>a. bk_val p = IS_INDIRECT a)) \<and>
     (bk_key p \<noteq> 0 \<longrightarrow> hp_str hp (bk_key p) \<noteq> None)"

definition heap_ok :: "heap \<Rightarrow> bool" where
  "heap_ok hp \<longleftrightarrow> (\<forall>a c. hp_get hp a = Some c \<longrightarrow>
     (case c of
        CArr ht \<Rightarrow> \<forall>p \<in> set (ht_data ht). bucket_ok hp p
      | CRef v \<Rightarrow> zv_ok hp v
      | _ \<Rightarrow> True))"

lemma hp_arrD: "hp_arr hp a = Some ht \<Longrightarrow> hp_get hp a = Some (CArr ht)"
  by (auto simp: hp_arr_def split: option.splits counted.splits)

lemma hp_refD: "hp_ref hp a = Some v \<Longrightarrow> hp_get hp a = Some (CRef v)"
  by (auto simp: hp_ref_def split: option.splits counted.splits)

lemma hp_strD: "hp_str hp a = Some s \<Longrightarrow> hp_get hp a = Some (CStr s)"
  by (auto simp: hp_str_def split: option.splits counted.splits)

lemma heap_ok_arr: "heap_ok hp \<Longrightarrow> hp_arr hp a = Some ht \<Longrightarrow> p \<in> set (ht_data ht) \<Longrightarrow> bucket_ok hp p"
  by (force simp: heap_ok_def dest!: hp_arrD)

lemma heap_ok_ref: "heap_ok hp \<Longrightarrow> hp_ref hp a = Some v \<Longrightarrow> zv_ok hp v"
  by (force simp: heap_ok_def dest!: hp_refD)

lemma hp_get_dom: "hp_get hp a = Some c \<Longrightarrow> a \<in> fst ` set hp"
  by (force simp: hp_get_def dest: map_of_SomeD)

section \<open>The first pass ends\<close>

text \<open>How many structures of the store may still be entered.\<close>

definition unseen :: "heap \<Rightarrow> persist_ctxt \<Rightarrow> nat" where
  "unseen hp cx = card (fst ` set hp - set (cx_already_counted cx))"

definition calc_state :: "heap \<Rightarrow> nat \<Rightarrow> persist_ctxt \<Rightarrow> bool" where
  "calc_state hp n cx \<longleftrightarrow> cx_memoization_needed cx \<and> \<not> cx_use_serialization cx \<and> unseen hp cx < n"

lemma calc_state_add [simp]:
  "calc_state hp n (ADD_SIZE sz cx) = calc_state hp n cx"
  "calc_state hp n (ADD_SIZE_STR k cx) = calc_state hp n cx"
  by (simp_all add: calc_state_def unseen_def ADD_SIZE_def ADD_SIZE_STR_def)

lemma calc_state_enter:
  assumes "calc_state hp (Suc n) cx" "a \<in> fst ` set hp" "a \<notin> set (cx_already_counted cx)"
  shows "calc_state hp n (cx\<lparr>cx_already_counted := a # cx_already_counted cx\<rparr>)"
proof -
  have "fst ` set hp - set (a # cx_already_counted cx) \<subset> fst ` set hp - set (cx_already_counted cx)"
    using assms(2,3) by auto
  then have "card (fst ` set hp - set (a # cx_already_counted cx)) < card (fst ` set hp - set (cx_already_counted cx))"
    by (intro psubset_card_mono) auto
  with assms(1) show ?thesis by (simp add: calc_state_def unseen_def)
qed

lemma calc_state_mono:
  "calc_state hp n cx \<Longrightarrow> n \<le> m \<Longrightarrow> calc_state hp m cx"
  by (simp add: calc_state_def)

lemma calc_buckets_ends:
  assumes "\<And>v cx. zv_ok rq v \<Longrightarrow> calc_state rq n cx \<Longrightarrow>
      \<exists>b cx'. calc v cx = Some (b, cx') \<and> (b \<longrightarrow> calc_state rq n cx')"
  shows "\<forall>p \<in> set ps. bucket_ok rq p \<Longrightarrow> calc_state rq n cx \<Longrightarrow>
    \<exists>b cx'. persist_calc_buckets calc rq ps cx = Some (b, cx') \<and> (b \<longrightarrow> calc_state rq n cx')"
proof (induction ps arbitrary: cx)
  case (Cons p ps)
  have p: "bucket_ok rq p" and ps: "\<forall>p \<in> set ps. bucket_ok rq p" using Cons.prems(1) by auto
  show ?case
  proof (cases "bk_val p = IS_UNDEF \<or> (\<exists>a. bk_val p = IS_INDIRECT a)")
    case True
    then show ?thesis using Cons.IH [OF ps Cons.prems(2)] by auto
  next
    case False
    with p have v: "zv_ok rq (bk_val p)" by (auto simp: bucket_ok_def)
    obtain cx1 where cx1: "(if bk_key p \<noteq> 0 then do { s \<leftarrow> hp_str rq (bk_key p); Some (ADD_SIZE_STR (ZSTR_LEN s) cx) }
        else Some cx) = Some cx1" "calc_state rq n cx1"
      using p Cons.prems(2) by (cases "bk_key p = 0") (auto simp: bucket_ok_def)
    obtain b cx2 where b: "calc (bk_val p) cx1 = Some (b, cx2)" "b \<longrightarrow> calc_state rq n cx2"
      using assms [OF v cx1(2)] by blast
    have e: "persist_calc_buckets calc rq (p # ps) cx =
        (if b then persist_calc_buckets calc rq ps cx2 else Some (False, cx2))"
      using False cx1(1) b(1) by (cases "bk_val p") (auto simp del: Option.bind_eq_Some_conv)
    show ?thesis
    proof (cases b)
      case True
      with b(2) Cons.IH [OF ps, of cx2] show ?thesis unfolding e by simp
    next
      case False
      then show ?thesis unfolding e by auto
    qed
  qed
qed auto

lemma calc_zval_ends:
  assumes "heap_ok rq"
  shows "zv_ok rq zv \<Longrightarrow> calc_state rq n cx \<Longrightarrow>
    \<exists>b cx'. persist_calc_zval n ser rq zv cx = Some (b, cx') \<and> (b \<longrightarrow> calc_state rq n cx')"
proof (induction n arbitrary: zv cx)
  case 0
  then show ?case by (simp add: calc_state_def)
next
  case (Suc n)
  note st = Suc.prems(2)
  have us: "\<not> cx_use_serialization cx" "cx_memoization_needed cx" using st by (simp_all add: calc_state_def)
  show ?case
  proof (cases "z_simple zv \<or> Z_COUNTED zv \<in> set (cx_already_counted cx)")
    case True
    then show ?thesis using st us by (auto simp: apc_persist_calc_memoize_def)
  next
    case False
    define cx1 where "cx1 = cx\<lparr>cx_already_counted := Z_COUNTED zv # cx_already_counted cx\<rparr>"
    have m: "apc_persist_calc_memoize (Z_COUNTED zv) cx = (False, cx1)"
      using False us by (simp add: apc_persist_calc_memoize_def cx1_def)
    have enter: "calc_state rq n cx1" if "Z_COUNTED zv \<in> fst ` set rq"
      unfolding cx1_def by (rule calc_state_enter [OF st that]) (use False in simp)
    have up: "calc_state rq n c \<Longrightarrow> calc_state rq (Suc n) c" for c by (erule calc_state_mono) simp
    show ?thesis
    proof (cases zv)
      case (IS_STRING a)
      then obtain s where s: "hp_str rq a = Some s" using Suc.prems(1) by (auto simp: zv_ok_def)
      have "a \<in> fst ` set rq" by (rule hp_get_dom [OF hp_strD [OF s]])
      with IS_STRING enter up s us m show ?thesis by auto
    next
      case (IS_ARRAY a)
      then obtain ht where s: "hp_arr rq a = Some ht" using Suc.prems(1) by (auto simp: zv_ok_def)
      have "a \<in> fst ` set rq" by (rule hp_get_dom [OF hp_arrD [OF s]])
      then have en: "calc_state rq n cx1" using IS_ARRAY enter by simp
      have bk: "\<forall>p \<in> set (ht_data ht). bucket_ok rq p" using heap_ok_arr [OF assms s] by blast
      have "\<exists>b cx'. persist_calc_ht (persist_calc_zval n ser rq) rq ht cx1 = Some (b, cx') \<and> (b \<longrightarrow> calc_state rq n cx')"
        unfolding persist_calc_ht_def Let_def
        using calc_buckets_ends [OF Suc.IH bk] en by auto
      with IS_ARRAY s us m up show ?thesis by auto
    next
      case (IS_REFERENCE a)
      then obtain v where s: "hp_ref rq a = Some v" using Suc.prems(1) by (auto simp: zv_ok_def)
      have "a \<in> fst ` set rq" by (rule hp_get_dom [OF hp_refD [OF s]])
      then have en: "calc_state rq n (ADD_SIZE SIZEOF_REFERENCE cx1)" using IS_REFERENCE enter by simp
      from Suc.IH [OF heap_ok_ref [OF assms s] en] IS_REFERENCE s us m up show ?thesis by auto
    qed (use False Suc.prems(1) us m in \<open>auto simp: zv_ok_def\<close>)
  qed
qed

section \<open>The second pass follows the first\<close>

text \<open>
  The tables of the two passes hold the same addresses, and no structure was allocated at 0.
\<close>

definition memo_agree :: "persist_ctxt \<Rightarrow> persist_ctxt \<Rightarrow> bool" where
  "memo_agree cx cc \<longleftrightarrow> \<not> cx_use_serialization cx \<and> \<not> cx_use_serialization cc \<and>
     cx_memoization_needed cc = cx_memoization_needed cx \<and>
     (cx_memoization_needed cx \<longrightarrow>
        (\<forall>a. a \<in> set (cx_already_counted cx) \<longleftrightarrow> (\<exists>q. map_of (cx_already_allocated cc) a = Some q \<and> q \<noteq> 0)) \<and>
        (\<forall>a. map_of (cx_already_allocated cc) a \<noteq> Some 0))"

text \<open>From \<open>cc\<close> on, \<open>d\<close> more bytes were used and the block was not left.\<close>

definition advanced :: "nat \<Rightarrow> persist_ctxt \<Rightarrow> persist_ctxt \<Rightarrow> bool" where
  "advanced d cc cc' \<longleftrightarrow> cx_alloc_cur cc' = cx_alloc_cur cc + d \<and> cx_alloc cc' = cx_alloc cc \<and>
     cx_size cc' = cx_size cc \<and> cx_serialized_str cc' = cx_serialized_str cc"

definition has_room :: "nat \<Rightarrow> persist_ctxt \<Rightarrow> bool" where
  "has_room d cc \<longleftrightarrow> 0 < cx_alloc_cur cc \<and> cx_alloc_cur cc + d \<le> cx_alloc cc + cx_size cc"

text \<open>What one step of the first pass promises about the same step of the second.\<close>

definition follows :: "persist_ctxt \<Rightarrow> persist_ctxt \<Rightarrow> (persist_ctxt \<times> heap \<Rightarrow> ('r \<times> persist_ctxt \<times> heap) option) \<Rightarrow> bool" where
  "follows cx cx' copy \<longleftrightarrow> \<not> cx_use_serialization cx' \<and>
     (\<exists>d. cx_size cx' = cx_size cx + d \<and>
       (\<forall>cc sh. memo_agree cx cc \<and> has_room d cc \<longrightarrow>
          (\<exists>r cc' sh'. copy (cc, sh) = Some (r, cc', sh') \<and> memo_agree cx' cc' \<and> advanced d cc cc')))"

lemma follows_bind:
  assumes "follows cx cx1 f" "\<And>r. follows cx1 cx2 (g r)"
    and "\<And>cc sh. copy (cc, sh) = (case f (cc, sh) of None \<Rightarrow> None | Some (r, st) \<Rightarrow> g r st)"
  shows "follows cx cx2 copy"
proof -
  obtain d1 where d1: "cx_size cx1 = cx_size cx + d1"
    "\<And>cc sh. memo_agree cx cc \<and> has_room d1 cc \<Longrightarrow>
       \<exists>r cc' sh'. f (cc, sh) = Some (r, cc', sh') \<and> memo_agree cx1 cc' \<and> advanced d1 cc cc'"
    using assms(1) unfolding follows_def by blast
  obtain d2 where d2: "cx_size cx2 = cx_size cx1 + d2" using assms(2) unfolding follows_def by blast
  have g: "\<exists>r' cc' sh'. g r (cc, sh) = Some (r', cc', sh') \<and> memo_agree cx2 cc' \<and> advanced d2 cc cc'"
    if "memo_agree cx1 cc \<and> has_room d2 cc" for r cc sh
  proof -
    obtain d where "cx_size cx2 = cx_size cx1 + d" "\<And>cc sh. memo_agree cx1 cc \<and> has_room d cc \<Longrightarrow>
       \<exists>r' cc' sh'. g r (cc, sh) = Some (r', cc', sh') \<and> memo_agree cx2 cc' \<and> advanced d cc cc'"
      using assms(2) [of r] unfolding follows_def by blast
    with that d2 show ?thesis by simp
  qed
  have "\<exists>r cc' sh'. copy (cc, sh) = Some (r, cc', sh') \<and> memo_agree cx2 cc' \<and> advanced (d1 + d2) cc cc'"
    if m: "memo_agree cx cc" and h: "has_room (d1 + d2) cc" for cc sh
  proof -
    have "has_room d1 cc" using h by (simp add: has_room_def)
    with d1(2) m obtain r c1 s1 where f: "f (cc, sh) = Some (r, c1, s1)" "memo_agree cx1 c1" "advanced d1 cc c1"
      by blast
    have "has_room d2 c1" using h f(3) by (simp add: has_room_def advanced_def)
    with g f(2) obtain r2 c2 s2 where "g r (c1, s1) = Some (r2, c2, s2)" "memo_agree cx2 c2" "advanced d2 c1 c2"
      by blast
    then show ?thesis using f(1,3) by (simp add: assms(3) advanced_def)
  qed
  moreover have "\<not> cx_use_serialization cx2" using assms(2) unfolding follows_def by blast
  ultimately show ?thesis using d1(1) d2 unfolding follows_def by (intro conjI exI [of _ "d1 + d2"]) auto
qed

lemma follows_map:
  assumes "follows cx cx' f" "\<And>cc sh. copy (cc, sh) = (case f (cc, sh) of None \<Rightarrow> None | Some (r, cc', sh') \<Rightarrow> Some (h r, cc', k r sh'))"
  shows "follows cx cx' copy"
proof -
  obtain d where d: "\<not> cx_use_serialization cx'" "cx_size cx' = cx_size cx + d"
    "\<And>cc sh. memo_agree cx cc \<and> has_room d cc \<Longrightarrow>
       \<exists>r cc' sh'. f (cc, sh) = Some (r, cc', sh') \<and> memo_agree cx' cc' \<and> advanced d cc cc'"
    using assms(1) unfolding follows_def by blast
  have "\<exists>r cc' sh'. copy (cc, sh) = Some (r, cc', sh') \<and> memo_agree cx' cc' \<and> advanced d cc cc'"
    if "memo_agree cx cc \<and> has_room d cc" for cc sh
    using d(3) [OF that, of sh] by (auto simp: assms(2))
  with d(1,2) show ?thesis unfolding follows_def by blast
qed

lemma follows_return: "\<not> cx_use_serialization cx \<Longrightarrow> follows cx cx (\<lambda>st. Some (r, st))"
  unfolding follows_def by (auto simp: advanced_def)

lemma follows_alloc:
  assumes "\<not> cx_use_serialization cx"
  shows "follows cx (ADD_SIZE sz cx) (\<lambda>(cc, sh). do { (p, cc') \<leftarrow> apc_persist_alloc sz cc; Some (p, cc', f p sh) })"
  using assms unfolding follows_def
  by (auto simp: ADD_SIZE_def apc_persist_alloc_def has_room_def memo_agree_def advanced_def assert_c_def
      intro!: exI [of _ "ZEND_MM_ALIGNED_SIZE sz"])

lemma follows_cong:
  assumes "follows cx cx' copy'" "\<And>cc sh. memo_agree cx cc \<Longrightarrow> copy (cc, sh) = copy' (cc, sh)"
  shows "follows cx cx' copy"
  using assms unfolding follows_def by fastforce

lemma follows_zstr:
  assumes "\<not> cx_use_serialization cx"
  shows "follows cx (ADD_SIZE_STR (ZSTR_LEN s) cx) (apc_persist_copy_zstr_no_add s)"
  unfolding ADD_SIZE_STR_def
  by (rule follows_cong [OF follows_alloc [OF assms, where f = "\<lambda>p. hp_put p (CStr (persist_zstr (zs_val s) (zs_h s)))"]])
    (simp add: apc_persist_copy_zstr_no_add_def apc_persist_copy_cstr_def ZSTR_LEN_def)

text \<open>Entering a structure: it gets its space and its place in the table.\<close>

lemma follows_enter:
  assumes "apc_persist_calc_memoize a cx = (False, cx1)" "\<not> cx_use_serialization cx"
  shows "follows cx (ADD_SIZE sz cx1)
    (\<lambda>(cc, sh). do { (p, cc') \<leftarrow> apc_persist_alloc sz cc; Some (p, apc_persist_add_already_allocated a p cc', f p sh) })"
  unfolding follows_def
proof (intro conjI exI allI impI)
  show "\<not> cx_use_serialization (ADD_SIZE sz cx1)" "cx_size (ADD_SIZE sz cx1) = cx_size cx + ZEND_MM_ALIGNED_SIZE sz"
    using assms by (auto simp: apc_persist_calc_memoize_def ADD_SIZE_def split: if_splits)
  fix cc sh
  assume h: "memo_agree cx cc \<and> has_room (ZEND_MM_ALIGNED_SIZE sz) cc"
  let ?cc = "apc_persist_add_already_allocated a (cx_alloc_cur cc)
      (cc\<lparr>cx_alloc_cur := cx_alloc_cur cc + ZEND_MM_ALIGNED_SIZE sz\<rparr>)"
  have "memo_agree (ADD_SIZE sz cx1) ?cc"
    using assms h by (auto simp: apc_persist_calc_memoize_def memo_agree_def has_room_def ADD_SIZE_def
        apc_persist_add_already_allocated_def split: if_splits)
  moreover have "advanced (ZEND_MM_ALIGNED_SIZE sz) cc ?cc"
    by (simp add: advanced_def apc_persist_add_already_allocated_def)
  ultimately show "(case (cc, sh) of (cc, sh) \<Rightarrow> do { (p, cc') \<leftarrow> apc_persist_alloc sz cc; Some (p, apc_persist_add_already_allocated a p cc', f p sh) }) =
      Some (cx_alloc_cur cc, ?cc, f (cx_alloc_cur cc) sh)"
    "memo_agree (ADD_SIZE sz cx1) ?cc" "advanced (ZEND_MM_ALIGNED_SIZE sz) cc ?cc"
    using h by (simp_all add: apc_persist_alloc_def has_room_def)
qed

text \<open>Only structures that can be copied are in the table of the first pass.\<close>

definition calc_good :: "heap \<Rightarrow> persist_ctxt \<Rightarrow> bool" where
  "calc_good rq cx \<longleftrightarrow> \<not> cx_use_serialization cx \<and>
     (\<forall>a \<in> set (cx_already_counted cx). \<forall>k. hp_get rq a \<noteq> Some (CObj k))"

lemma calc_good_add [simp]:
  "calc_good rq (ADD_SIZE sz cx) = calc_good rq cx" "calc_good rq (ADD_SIZE_STR k cx) = calc_good rq cx"
  by (simp_all add: calc_good_def ADD_SIZE_def ADD_SIZE_STR_def)

lemma calc_goodD: "calc_good rq cx \<Longrightarrow> \<not> cx_use_serialization cx"
  by (simp add: calc_good_def)

lemma calc_good_enter:
  "calc_good rq cx \<Longrightarrow> apc_persist_calc_memoize a cx = (False, cx1) \<Longrightarrow> \<forall>k. hp_get rq a \<noteq> Some (CObj k) \<Longrightarrow>
   calc_good rq cx1"
  by (auto simp: calc_good_def apc_persist_calc_memoize_def split: if_splits)

text \<open>
  The copy of a bucket is its key, its value and the rest, one after the other; \<open>marked\<close> is the
  table with its first used slot noted.
\<close>

definition marked :: "nat \<Rightarrow> hash_table \<Rightarrow> hash_table" where
  "marked idx ht = (if ht_internal ht = HT_INVALID_IDX then ht\<lparr>ht_internal := idx\<rparr> else ht)"

definition copy_key :: "heap \<Rightarrow> bucket \<Rightarrow> hash_table \<Rightarrow> persist_ctxt \<times> heap \<Rightarrow> ((nat \<times> hash_table) \<times> persist_ctxt \<times> heap) option" where
  "copy_key rq p ht st = (if bk_key p \<noteq> 0
     then do {
       s \<leftarrow> hp_str rq (bk_key p);
       (k, st') \<leftarrow> apc_persist_copy_zstr_no_add s st;
       Some ((k, ht\<lparr>ht_flags := ht_flags ht AND NOT HASH_FLAG_STATIC_KEYS\<rparr>), st')
     }
     else Some ((0, (if i64_less (bk_h p) (ht_next ht) then ht else ht\<lparr>ht_next := bk_h p + 1\<rparr>)), st))"

definition copy_rest where
  "copy_rest copy rq idx p ps kh v = persist_copy_buckets copy rq (Suc idx) ps
     (snd kh\<lparr>ht_data := ht_data (snd kh) @ [p\<lparr>bk_key := fst kh, bk_val := v\<rparr>]\<rparr>)"

lemma copy_buckets_Cons:
  "bk_val p \<noteq> IS_UNDEF \<Longrightarrow> persist_copy_buckets copy rq idx (p # ps) ht st =
    (case copy_key rq p (marked idx ht) st of None \<Rightarrow> None | Some (kh, st1) \<Rightarrow>
      (case copy (bk_val p) st1 of None \<Rightarrow> None | Some (v, st2) \<Rightarrow> copy_rest copy rq idx p ps kh v st2))"
  by (auto simp: copy_key_def copy_rest_def marked_def Let_def split: option.splits Option.bind_splits)

lemma follows_key:
  assumes good: "calc_good rq cx"
    and k: "(if bk_key p \<noteq> 0 then do { s \<leftarrow> hp_str rq (bk_key p); Some (ADD_SIZE_STR (ZSTR_LEN s) cx) } else Some cx) = Some cx1"
  shows "follows cx cx1 (copy_key rq p ht)"
proof (cases "bk_key p = 0")
  case True
  then have e: "copy_key rq p ht = (\<lambda>st. Some ((0, (if i64_less (bk_h p) (ht_next ht) then ht else ht\<lparr>ht_next := bk_h p + 1\<rparr>)), st))"
    by (simp add: copy_key_def fun_eq_iff)
  have "cx1 = cx" using k True by simp
  then show ?thesis unfolding e using follows_return [OF calc_goodD [OF good]] by (simp only:)
next
  case False
  then obtain s where s: "hp_str rq (bk_key p) = Some s" "cx1 = ADD_SIZE_STR (ZSTR_LEN s) cx"
    using k by (auto split: Option.bind_splits)
  show ?thesis unfolding s(2)
    by (rule follows_map [OF follows_zstr [OF calc_goodD [OF good]], where
        h = "\<lambda>k. (k, ht\<lparr>ht_flags := ht_flags ht AND NOT HASH_FLAG_STATIC_KEYS\<rparr>)" and k = "\<lambda>_ sh. sh"])
      (use False s(1) in \<open>simp add: copy_key_def split: option.split\<close>)
qed

lemma follows_buckets:
  assumes "\<And>v cx cx'. calc v cx = Some (True, cx') \<Longrightarrow> zv_ok rq v \<Longrightarrow> calc_good rq cx \<Longrightarrow>
      follows cx cx' (copy v) \<and> calc_good rq cx'"
  shows "persist_calc_buckets calc rq ps cx = Some (True, cx') \<Longrightarrow> \<forall>p \<in> set ps. bucket_ok rq p \<Longrightarrow>
    calc_good rq cx \<Longrightarrow> follows cx cx' (persist_copy_buckets copy rq idx ps ht) \<and> calc_good rq cx'"
proof (induction ps arbitrary: cx idx ht)
  case Nil
  then show ?case using follows_return [OF calc_goodD, of rq cx ht] by simp
next
  case (Cons p ps)
  show ?case
  proof (cases "bk_val p = IS_UNDEF")
    case True
    then have e: "persist_copy_buckets copy rq idx (p # ps) ht =
        persist_copy_buckets copy rq (Suc idx) ps (ht\<lparr>ht_data := ht_data ht @ [p]\<rparr>)" by (simp add: fun_eq_iff)
    have c: "persist_calc_buckets calc rq ps cx = Some (True, cx')" using Cons.prems(1) True by simp
    show ?thesis unfolding e by (rule Cons.IH [OF c _ Cons.prems(3)]) (use Cons.prems(2) in simp)
  next
    case False
    obtain cx1 cx2 where
      k: "(if bk_key p \<noteq> 0 then do { s \<leftarrow> hp_str rq (bk_key p); Some (ADD_SIZE_STR (ZSTR_LEN s) cx) } else Some cx) = Some cx1"
      and v: "calc (bk_val p) cx1 = Some (True, cx2)" and r: "persist_calc_buckets calc rq ps cx2 = Some (True, cx')"
      using Cons.prems(1) False by (cases "bk_val p") (auto split: Option.bind_splits if_splits)
    have u1: "calc_good rq cx1" using k Cons.prems(3) by (auto split: if_splits Option.bind_splits)
    have zv: "zv_ok rq (bk_val p)" using Cons.prems(1,2) False by (auto simp: bucket_ok_def)
    from assms [OF v zv u1] have f2: "follows cx1 cx2 (copy (bk_val p))" and u2: "calc_good rq cx2" by auto
    have f3: "follows cx2 cx' (copy_rest copy rq idx p ps kh w)" and g: "calc_good rq cx'" for kh w
      unfolding copy_rest_def using Cons.IH [OF r _ u2] Cons.prems(2) by auto
    have "follows cx1 cx' (\<lambda>st. case copy (bk_val p) st of None \<Rightarrow> None | Some (v, st2) \<Rightarrow> copy_rest copy rq idx p ps kh v st2)" for kh
      by (rule follows_bind [OF f2 f3]) simp
    then have "follows cx cx' (persist_copy_buckets copy rq idx (p # ps) ht)"
      by (rule follows_bind [OF follows_key [OF Cons.prems(3) k]]) (rule copy_buckets_Cons [OF False])
    with g show ?thesis by blast
  qed
qed

lemma follows_ht:
  assumes rec: "\<And>v cx cx'. calc v cx = Some (True, cx') \<Longrightarrow> zv_ok rq v \<Longrightarrow> calc_good rq cx \<Longrightarrow>
      follows cx cx' (copy v) \<and> calc_good rq cx'"
    and m: "apc_persist_calc_memoize a cx = (False, cx1)" and good: "calc_good rq cx" "calc_good rq cx1"
    and bs: "\<forall>p \<in> set (ht_data ht). bucket_ok rq p"
    and c: "persist_calc_ht calc rq ht cx1 = Some (True, cx')"
  shows "follows cx cx' (persist_copy_ht copy rq a ht) \<and> calc_good rq cx'"
proof -
  note u = calc_goodD [OF good(1)]
  have u1: "\<not> cx_use_serialization (ADD_SIZE sz cx1)" for sz
    using m u by (auto simp: apc_persist_calc_memoize_def ADD_SIZE_def split: if_splits)
  define ht0 where "ht0 = ht\<lparr>ht_flags := ht_flags ht OR HASH_FLAG_STATIC_KEYS, ht_next := 0\<rparr>"
  show ?thesis
  proof (cases "ht_data ht = []")
    case True
    define e where "e = ht0\<lparr>ht_flags := HASH_FLAG_UNINITIALIZED, ht_hash := [HT_INVALID_IDX, HT_INVALID_IDX]\<rparr>"
    have "cx' = ADD_SIZE SIZEOF_HASHTABLE cx1" using c True by (simp add: persist_calc_ht_def)
    moreover have "follows cx (ADD_SIZE SIZEOF_HASHTABLE cx1) (persist_copy_ht copy rq a ht)"
      by (rule follows_cong [OF follows_enter [OF m u, of SIZEOF_HASHTABLE "\<lambda>p. hp_put p (CArr e)"]])
        (auto simp: persist_copy_ht_def True e_def ht0_def Let_def split: Option.bind_splits)
    ultimately show ?thesis using good(2) by simp
  next
    case False
    let ?c1 = "ADD_SIZE SIZEOF_HASHTABLE cx1"
    let ?c2 = "ADD_SIZE (HT_USED_SIZE ht) ?c1"
    have b: "persist_calc_buckets calc rq (ht_data ht) ?c2 = Some (True, cx')"
      using c False by (simp add: persist_calc_ht_def Let_def)
    define g1 where "g1 = (\<lambda>(cc, sh :: heap). do { (p, cc') \<leftarrow> apc_persist_alloc SIZEOF_HASHTABLE cc;
        Some (p, apc_persist_add_already_allocated a p cc', sh) })"
    define g2 where "g2 = (\<lambda>(cc, sh :: heap). do { (p, cc') \<leftarrow> apc_persist_alloc (HT_USED_SIZE ht) cc; Some (p, cc', sh) })"
    define g3 where "g3 = persist_copy_buckets copy rq 0 (ht_data ht) (ht0\<lparr>ht_internal := HT_INVALID_IDX, ht_data := []\<rparr>)"
    define g4 where "g4 = (\<lambda>(p :: nat) st. case g3 st of None \<Rightarrow> None | Some (h, cc, sh) \<Rightarrow> Some (p, cc, hp_put p (CArr h) sh))"
    define g5 where "g5 = (\<lambda>p st. case g2 st of None \<Rightarrow> None | Some (_ :: nat, st1) \<Rightarrow> g4 p st1)"
    have f1: "follows cx ?c1 g1"
      using follows_enter [OF m u, of SIZEOF_HASHTABLE "\<lambda>_ sh. sh"] by (simp add: g1_def)
    have f2: "follows ?c1 ?c2 g2"
      using follows_alloc [OF u1, where f = "\<lambda>_ sh. sh"] by (simp add: g2_def)
    have f3: "follows ?c2 cx' g3" and g: "calc_good rq cx'"
      using follows_buckets [OF rec b bs] good(2) by (simp_all add: g3_def)
    have "follows ?c2 cx' (g4 p)" for p
      by (rule follows_map [OF f3, where h = "\<lambda>_. p" and k = "\<lambda>h. hp_put p (CArr h)"])
        (simp add: g4_def split: option.split)
    then have "follows ?c1 cx' (g5 p)" for p
      by (intro follows_bind [OF f2, where g = "\<lambda>_. g4 p"]) (auto simp: g5_def)
    then have "follows cx cx' (persist_copy_ht copy rq a ht)"
      by (rule follows_bind [OF f1, where g = g5])
        (auto simp: persist_copy_ht_def False g1_def g5_def g2_def g4_def g3_def ht0_def Let_def
          split: option.splits prod.splits Option.bind_splits)
    with g show ?thesis by simp
  qed
qed

lemma already_allocated_seen:
  assumes "memo_agree cx cc" "apc_persist_calc_memoize a cx = (True, cx1)"
  shows "apc_persist_get_already_allocated a cc \<noteq> 0 \<and> cx1 = cx"
  using assms by (auto simp: memo_agree_def apc_persist_calc_memoize_def
      apc_persist_get_already_allocated_def split: if_splits)

lemma already_allocated_new:
  assumes "memo_agree cx cc" "apc_persist_calc_memoize a cx = (False, cx1)"
  shows "apc_persist_get_already_allocated a cc = 0"
  using assms by (auto simp: memo_agree_def apc_persist_calc_memoize_def
      apc_persist_get_already_allocated_def split: if_splits option.splits)

text \<open>A value that was met before is taken from the table; a new one finds no entry there.\<close>

lemma follows_seen:
  assumes good: "calc_good rq cx" and m: "apc_persist_calc_memoize (Z_COUNTED zv) cx = (True, cx1)"
    and zv: "zv_ok rq zv" "\<not> z_simple zv"
  shows "follows cx cx (persist_copy_zval (Suc n) rq zv)"
  unfolding follows_def
proof (intro conjI exI [of _ 0] allI impI)
  have kind: "\<exists>a. zv = IS_STRING a \<or> zv = IS_ARRAY a \<or> zv = IS_REFERENCE a"
    using zv good m by (cases zv) (auto simp: zv_ok_def calc_good_def apc_persist_calc_memoize_def split: if_splits)
  fix cc sh assume h: "memo_agree cx cc \<and> has_room 0 cc"
  then have "apc_persist_get_already_allocated (Z_COUNTED zv) cc \<noteq> 0" "\<not> cx_use_serialization cc"
    using already_allocated_seen [of cx cc _ cx1] m by (auto simp: memo_agree_def)
  then have "\<exists>r. persist_copy_zval (Suc n) rq zv (cc, sh) = Some (r, cc, sh)"
    using kind by (auto simp: Let_def)
  with h show "\<exists>r cc' sh'. persist_copy_zval (Suc n) rq zv (cc, sh) = Some (r, cc', sh') \<and>
      memo_agree cx cc' \<and> advanced 0 cc cc'" by (auto simp: advanced_def)
qed (use calc_goodD [OF good] in simp_all)

lemma memo_new:
  assumes "apc_persist_calc_memoize a cx = (False, cx1)" "memo_agree cx cc"
  shows "apc_persist_get_already_allocated a cc = 0 \<and> \<not> cx_use_serialization cc"
  using already_allocated_new [OF assms(2,1)] assms(2) by (simp add: memo_agree_def)

lemma follows_string:
  assumes good: "calc_good rq cx" and m: "apc_persist_calc_memoize a cx = (False, cx1)" and s: "hp_str rq a = Some str"
    and e: "cx' = ADD_SIZE_STR (ZSTR_LEN str) cx1"
  shows "follows cx cx' (persist_copy_zval (Suc n) rq (IS_STRING a)) \<and> calc_good rq cx'"
proof -
  have g1: "calc_good rq cx1" by (rule calc_good_enter [OF good m]) (use hp_strD [OF s] in simp)
  define f where "f = (\<lambda>p. hp_put p (CStr (persist_zstr (zs_val str) (zs_h str))))"
  have "follows cx cx' (\<lambda>(cc, sh). do { (p, cc') \<leftarrow> apc_persist_alloc (ZSTR_STRUCT_SIZE (ZSTR_LEN str)) cc;
      Some (p, apc_persist_add_already_allocated a p cc', f p sh) })"
    unfolding e ADD_SIZE_STR_def using follows_enter [OF m calc_goodD [OF good]] by simp
  then have "follows cx cx' (\<lambda>st. case (case st of (cc, sh) \<Rightarrow> do {
        (p, cc') \<leftarrow> apc_persist_alloc (ZSTR_STRUCT_SIZE (ZSTR_LEN str)) cc;
        Some (p, apc_persist_add_already_allocated a p cc', f p sh) }) of
      None \<Rightarrow> None | Some (p, cc', sh') \<Rightarrow> Some (IS_STRING p, cc', sh'))"
    by (rule follows_map [where h = IS_STRING and k = "\<lambda>_ sh. sh"]) simp
  then have "follows cx cx' (persist_copy_zval (Suc n) rq (IS_STRING a))"
    by (rule follows_cong) (use memo_new [OF m] s in \<open>auto simp: Let_def f_def apc_persist_copy_zstr_def
       apc_persist_copy_zstr_no_add_def apc_persist_copy_cstr_def ZSTR_LEN_def split: option.splits prod.splits Option.bind_splits\<close>)
  then show ?thesis using g1 e by simp
qed

lemma follows_array:
  assumes ih: "\<And>v cx cx'. persist_calc_zval n ser rq v cx = Some (True, cx') \<Longrightarrow> zv_ok rq v \<Longrightarrow> calc_good rq cx \<Longrightarrow>
      follows cx cx' (persist_copy_zval n rq v) \<and> calc_good rq cx'"
    and hp: "heap_ok rq" and good: "calc_good rq cx" and m: "apc_persist_calc_memoize a cx = (False, cx1)"
    and s: "hp_arr rq a = Some ht" and c: "persist_calc_ht (persist_calc_zval n ser rq) rq ht cx1 = Some (True, cx')"
  shows "follows cx cx' (persist_copy_zval (Suc n) rq (IS_ARRAY a)) \<and> calc_good rq cx'"
proof -
  have g1: "calc_good rq cx1" by (rule calc_good_enter [OF good m]) (use hp_arrD [OF s] in simp)
  have f: "follows cx cx' (persist_copy_ht (persist_copy_zval n rq) rq a ht)" and g: "calc_good rq cx'"
    using follows_ht [where a = a and copy = "persist_copy_zval n rq", OF ih m good g1 _ c] heap_ok_arr [OF hp s] by auto
  have "follows cx cx' (\<lambda>st. case persist_copy_ht (persist_copy_zval n rq) rq a ht st of
      None \<Rightarrow> None | Some (p, cc', sh') \<Rightarrow> Some (IS_ARRAY p, cc', sh'))"
    by (rule follows_map [OF f, where h = IS_ARRAY and k = "\<lambda>_ sh. sh"]) simp
  then have "follows cx cx' (persist_copy_zval (Suc n) rq (IS_ARRAY a))"
    by (rule follows_cong) (use memo_new [OF m] s in \<open>auto simp: Let_def split: option.splits prod.splits Option.bind_splits\<close>)
  with g show ?thesis by blast
qed

lemma follows_reference:
  assumes ih: "\<And>v cx cx'. persist_calc_zval n ser rq v cx = Some (True, cx') \<Longrightarrow> zv_ok rq v \<Longrightarrow> calc_good rq cx \<Longrightarrow>
      follows cx cx' (persist_copy_zval n rq v) \<and> calc_good rq cx'"
    and hp: "heap_ok rq" and good: "calc_good rq cx" and m: "apc_persist_calc_memoize a cx = (False, cx1)"
    and s: "hp_ref rq a = Some v" and c: "persist_calc_zval n ser rq v (ADD_SIZE SIZEOF_REFERENCE cx1) = Some (True, cx')"
  shows "follows cx cx' (persist_copy_zval (Suc n) rq (IS_REFERENCE a)) \<and> calc_good rq cx'"
proof -
  have "calc_good rq (ADD_SIZE SIZEOF_REFERENCE cx1)" using calc_good_enter [OF good m] hp_refD [OF s] by simp
  from ih [OF c heap_ok_ref [OF hp s] this]
  have f: "follows (ADD_SIZE SIZEOF_REFERENCE cx1) cx' (persist_copy_zval n rq v)" and g: "calc_good rq cx'" by auto
  define g2 where "g2 = (\<lambda>(p :: nat) st. case persist_copy_zval n rq v st of None \<Rightarrow> None
      | Some (w, cc, sh) \<Rightarrow> Some (IS_REFERENCE p, cc, hp_put p (CRef w) sh))"
  have f2: "follows (ADD_SIZE SIZEOF_REFERENCE cx1) cx' (g2 p)" for p
    by (rule follows_map [OF f, where h = "\<lambda>_. IS_REFERENCE p" and k = "\<lambda>w. hp_put p (CRef w)"])
      (simp add: g2_def split: option.split)
  have f1: "follows cx (ADD_SIZE SIZEOF_REFERENCE cx1) (\<lambda>(cc, sh). do {
      (p, cc') \<leftarrow> apc_persist_alloc SIZEOF_REFERENCE cc;
      Some (p, apc_persist_add_already_allocated a p cc', sh) })"
    using follows_enter [OF m calc_goodD [OF good], of SIZEOF_REFERENCE "\<lambda>_ sh. sh"] by simp
  have "follows cx cx' (\<lambda>st. case (case st of (cc, sh) \<Rightarrow> do {
      (p, cc') \<leftarrow> apc_persist_alloc SIZEOF_REFERENCE cc;
      Some (p, apc_persist_add_already_allocated a p cc', sh) }) of None \<Rightarrow> None | Some (p, st) \<Rightarrow> g2 p st)"
    by (rule follows_bind [OF f1 f2]) simp
  then have "follows cx cx' (persist_copy_zval (Suc n) rq (IS_REFERENCE a))"
    by (rule follows_cong) (use memo_new [OF m] s in
      \<open>auto simp: Let_def persist_copy_ref_def g2_def split: option.splits prod.splits Option.bind_splits\<close>)
  with g show ?thesis by blast
qed

lemma follows_zval:
  assumes hp: "heap_ok rq"
  shows "persist_calc_zval n ser rq zv cx = Some (True, cx') \<Longrightarrow> zv_ok rq zv \<Longrightarrow> calc_good rq cx \<Longrightarrow>
   follows cx cx' (persist_copy_zval n rq zv) \<and> calc_good rq cx'"
proof (induction n arbitrary: zv cx cx')
  case 0
  then show ?case by simp
next
  case (Suc n)
  note good = Suc.prems(3) and u = calc_goodD [OF Suc.prems(3)]
  obtain seen cx1 where m: "apc_persist_calc_memoize (Z_COUNTED zv) cx = (seen, cx1)" by fastforce
  consider (simple) "z_simple zv" | (seen) "\<not> z_simple zv" "seen" | (new) "\<not> z_simple zv" "\<not> seen" by blast
  then show ?case
  proof cases
    case simple
    then have e: "cx' = cx" using Suc.prems(1) by simp
    have "follows cx cx (persist_copy_zval (Suc n) rq zv)"
      by (rule follows_cong [OF follows_return [OF u, of zv]]) (simp add: simple)
    with good show ?thesis unfolding e by blast
  next
    case seen
    then have e: "cx' = cx" using Suc.prems(1) m u by (auto simp: apc_persist_calc_memoize_def split: if_splits)
    have "apc_persist_calc_memoize (Z_COUNTED zv) cx = (True, cx1)" using m seen(2) by simp
    then show ?thesis unfolding e using follows_seen [OF good _ Suc.prems(2) seen(1)] good by blast
  next
    case new
    with m have m': "apc_persist_calc_memoize (Z_COUNTED zv) cx = (False, cx1)" by simp
    show ?thesis
    proof (cases zv)
      case (IS_STRING a)
      then obtain s where s: "hp_str rq a = Some s" using Suc.prems(2) by (auto simp: zv_ok_def)
      have c: "cx' = ADD_SIZE_STR (ZSTR_LEN s) cx1" using Suc.prems(1) m' u s IS_STRING by simp
      show ?thesis unfolding IS_STRING by (rule follows_string [OF good _ s c]) (use m' IS_STRING in simp)
    next
      case (IS_ARRAY a)
      then obtain ht where s: "hp_arr rq a = Some ht" using Suc.prems(2) by (auto simp: zv_ok_def)
      have c: "persist_calc_ht (persist_calc_zval n ser rq) rq ht cx1 = Some (True, cx')"
        using Suc.prems(1) m' u s IS_ARRAY by simp
      show ?thesis unfolding IS_ARRAY by (rule follows_array [OF Suc.IH hp good _ s c]) (use m' IS_ARRAY in simp_all)
    next
      case (IS_REFERENCE a)
      then obtain v where s: "hp_ref rq a = Some v" using Suc.prems(2) by (auto simp: zv_ok_def)
      have c: "persist_calc_zval n ser rq v (ADD_SIZE SIZEOF_REFERENCE cx1) = Some (True, cx')"
        using Suc.prems(1) m' u s IS_REFERENCE by simp
      show ?thesis unfolding IS_REFERENCE by (rule follows_reference [OF Suc.IH hp good _ s c]) (use m' IS_REFERENCE in simp_all)
    qed (use Suc.prems(1,2) new m' u in \<open>auto simp: zv_ok_def\<close>)
  qed
qed

section \<open>The whole call\<close>

text \<open>What the first pass leaves alone.\<close>

definition calc_frame :: "persist_ctxt \<Rightarrow> bool \<times> nat \<times> nat \<times> (nat \<times> nat) list" where
  "calc_frame cx = (cx_memoization_needed cx, cx_alloc cx, cx_alloc_cur cx, cx_already_allocated cx)"

lemma calc_frame_simps [simp]:
  "calc_frame (ADD_SIZE sz cx) = calc_frame cx" "calc_frame (ADD_SIZE_STR k cx) = calc_frame cx"
  "calc_frame (cx\<lparr>cx_use_serialization := b\<rparr>) = calc_frame cx"
  "calc_frame (cx\<lparr>cx_serialized_str := so\<rparr>) = calc_frame cx"
  by (simp_all add: calc_frame_def ADD_SIZE_def ADD_SIZE_STR_def)

lemma calc_frame_memoize: "apc_persist_calc_memoize a cx = (b, cx1) \<Longrightarrow> calc_frame cx1 = calc_frame cx"
  by (auto simp: apc_persist_calc_memoize_def calc_frame_def split: if_splits)

lemma calc_buckets_Cons:
  assumes "bk_val p \<noteq> IS_UNDEF" "\<forall>a. bk_val p \<noteq> IS_INDIRECT a"
  shows "persist_calc_buckets calc rq (p # ps) cx =
    (case (if bk_key p \<noteq> 0 then map_option (\<lambda>s. ADD_SIZE_STR (ZSTR_LEN s) cx) (hp_str rq (bk_key p)) else Some cx) of
       None \<Rightarrow> None
     | Some c \<Rightarrow> (case calc (bk_val p) c of None \<Rightarrow> None | Some (ok, c2) \<Rightarrow>
           if ok then persist_calc_buckets calc rq ps c2 else Some (False, c2)))"
  using assms
  by (cases "bk_val p"; cases "hp_str rq (bk_key p)")
    (simp_all add: map_option_case split: option.splits Option.bind_splits)

lemma calc_buckets_frame:
  assumes "\<And>v cx b cx'. calc v cx = Some (b, cx') \<Longrightarrow> calc_frame cx' = calc_frame cx"
  shows "persist_calc_buckets calc rq ps cx = Some (b, cx') \<Longrightarrow> calc_frame cx' = calc_frame cx"
proof (induction ps arbitrary: cx)
  case (Cons p ps)
  have go: "calc_frame cx' = calc_frame cx"
    if "(case calc v c of None \<Rightarrow> None | Some (ok, c2) \<Rightarrow>
           if ok then persist_calc_buckets calc rq ps c2 else Some (False, c2)) = Some (b, cx')"
      "calc_frame c = calc_frame cx" for v c
    using that assms Cons.IH by (auto split: option.splits prod.splits if_splits)
  show ?case
  proof (cases "bk_val p = IS_UNDEF \<or> (\<exists>a. bk_val p = IS_INDIRECT a)")
    case True
    then show ?thesis using Cons.prems Cons.IH by auto
  next
    case False
    then have ne: "bk_val p \<noteq> IS_UNDEF" "\<forall>a. bk_val p \<noteq> IS_INDIRECT a" by auto
    define ks where "ks = (if bk_key p \<noteq> 0 then map_option (\<lambda>s. ADD_SIZE_STR (ZSTR_LEN s) cx) (hp_str rq (bk_key p)) else Some cx)"
    obtain c where k: "ks = Some c" and c: "(case calc (bk_val p) c of None \<Rightarrow> None | Some (ok, c2) \<Rightarrow>
           if ok then persist_calc_buckets calc rq ps c2 else Some (False, c2)) = Some (b, cx')"
      using Cons.prems [unfolded calc_buckets_Cons [OF ne], folded ks_def] by (cases ks) simp_all
    have "calc_frame c = calc_frame cx" using k by (auto simp: ks_def split: if_splits)
    then show ?thesis by (rule go [OF c])
  qed
qed simp

lemma calc_zval_frame:
  "persist_calc_zval n ser rq zv cx = Some (b, cx') \<Longrightarrow> calc_frame cx' = calc_frame cx"
proof (induction n arbitrary: zv cx b cx')
  case (Suc n)
  obtain seen cx1 where m: "apc_persist_calc_memoize (Z_COUNTED zv) cx = (seen, cx1)" by fastforce
  note fm = calc_frame_memoize [OF m]
  have ht: "calc_frame cx' = calc_frame cx1"
    if "persist_calc_ht (persist_calc_zval n ser rq) rq ht cx1 = Some (b, cx')" for ht
    using that calc_buckets_frame [of "persist_calc_zval n ser rq" rq, OF Suc.IH]
    by (fastforce simp: persist_calc_ht_def Let_def split: if_splits)
  have sr: "calc_frame cx' = calc_frame cx" if "apc_persist_calc_serialize ser rq zv cx = Some (b, cx')"
    using that by (auto simp: apc_persist_calc_serialize_def split: option.splits Option.bind_splits)
  show ?case
  proof (cases "z_simple zv \<or> cx_use_serialization cx \<or> seen")
    case True
    then show ?thesis using Suc.prems sr fm m by (auto split: if_splits)
  next
    case False
    then show ?thesis
      using Suc.prems m fm ht Suc.IH
      by (cases zv) (auto split: Option.bind_splits dest: Suc.IH)
  qed
qed simp

text \<open>A value a PHP script can hand to the cache.\<close>

definition top_ok :: "heap \<Rightarrow> zval \<Rightarrow> bool" where
  "top_ok rq zv \<longleftrightarrow> zv_ok rq zv \<and> Z_TYPE zv \<noteq> 10"

lemma calc_serialized:
  assumes "cx_use_serialization cx" "\<not> cx_memoization_needed cx" "\<not> z_simple zv"
  shows "persist_calc_zval (Suc n) ser rq zv cx = (case ser rq zv of
      None \<Rightarrow> Some (False, cx)
    | Some buf \<Rightarrow> Some (True, ADD_SIZE_STR (length buf) (cx\<lparr>cx_serialized_str := Some buf\<rparr>)))"
  using assms by (simp add: apc_persist_calc_serialize_def split: option.split)

lemma persist_fuel_Suc: "persist_fuel hp = Suc (Suc (length hp))"
  by (simp add: persist_fuel_def)

lemma unseen_start: "cx_already_counted cx = [] \<Longrightarrow> unseen hp cx < persist_fuel hp"
proof -
  assume "cx_already_counted cx = []"
  then have "unseen hp cx = card (fst ` set hp)" by (simp add: unseen_def)
  also have "\<dots> \<le> length hp" by (metis card_length length_map list.set_map)
  finally show ?thesis by (simp add: persist_fuel_def)
qed

text \<open>The context in front of the value.\<close>

definition calc_start :: "apc_cache_entry_t \<Rightarrow> persist_ctxt \<Rightarrow> persist_ctxt" where
  "calc_start orig cx = ADD_SIZE_STR (ZSTR_LEN (ce_key orig)) (ADD_SIZE SIZEOF_CACHE_ENTRY cx)"

lemma calc_start_simps [simp]:
  "cx_use_serialization (calc_start orig cx) = cx_use_serialization cx"
  "cx_memoization_needed (calc_start orig cx) = cx_memoization_needed cx"
  "cx_already_counted (calc_start orig cx) = cx_already_counted cx"
  "calc_frame (calc_start orig cx) = calc_frame cx"
  by (simp_all add: calc_start_def ADD_SIZE_def ADD_SIZE_STR_def calc_frame_def)

lemma first_pass_ends:
  assumes "heap_ok rq" "top_ok rq (ce_val orig)"
  shows "\<exists>b cx. apc_persist_calc (persist_fuel rq) ser rq orig (persist_context srz (ce_val orig)) = Some (b, cx)"
proof -
  let ?c0 = "persist_context srz (ce_val orig)"
  let ?c1 = "calc_start orig ?c0"
  have "\<exists>b cx. persist_calc_zval (persist_fuel rq) ser rq (ce_val orig) ?c1 = Some (b, cx)"
  proof (cases "z_simple (ce_val orig)")
    case True
    then show ?thesis by (auto simp: persist_fuel_Suc)
  next
    case ns: False
    show ?thesis
    proof (cases "cx_use_serialization ?c0")
      case True
      then have "\<not> cx_memoization_needed ?c0"
        by (auto simp: persist_context_def apc_persist_init_context_def)
      with True ns show ?thesis
        by (auto simp: persist_fuel_Suc calc_serialized simp del: persist_calc_zval.simps split: option.split)
    next
      case us: False
      show ?thesis
      proof (cases "cx_memoization_needed ?c0")
        case True
        have "cx_already_counted ?c1 = []" by (simp add: persist_context_def apc_persist_init_context_def)
        then have "calc_state rq (persist_fuel rq) ?c1"
          using True us unseen_start by (simp add: calc_state_def)
        with calc_zval_ends [OF assms(1)] assms(2) show ?thesis unfolding top_ok_def by blast
      next
        case False
        have "Z_TYPE (ce_val orig) \<noteq> 7" "Z_TYPE (ce_val orig) \<noteq> 8"
          using us False by (auto simp: persist_context_def apc_persist_init_context_def)
        then show ?thesis using assms(2) ns us False
          by (cases "ce_val orig")
            (auto simp: top_ok_def zv_ok_def persist_fuel_Suc apc_persist_calc_memoize_def)
      qed
    qed
  qed
  then show ?thesis by (simp add: apc_persist_calc_def calc_start_def)
qed

lemma persist_size_ends:
  assumes "heap_ok rq" "top_ok rq (ce_val orig)"
  shows "\<exists>r. persist_size php_ser srz rq orig = Some r"
proof -
  let ?ser = "persist_serialize php_ser srz"
  obtain b cx where f: "apc_persist_calc (persist_fuel rq) ?ser rq orig (persist_context srz (ce_val orig)) = Some (b, cx)"
    using first_pass_ends [OF assms] by blast
  have "\<exists>b cx. apc_persist_calc (persist_fuel rq) ?ser rq orig (apc_persist_init_context\<lparr>cx_use_serialization := True\<rparr>) = Some (b, cx)"
    by (cases "z_simple (ce_val orig)")
      (auto simp: apc_persist_calc_def persist_fuel_Suc apc_persist_calc_serialize_def
        apc_persist_init_context_def ADD_SIZE_def ADD_SIZE_STR_def split: option.split)
  with f assms(2) show ?thesis by (auto simp: persist_size_def Let_def top_ok_def)
qed

lemma ser_context:
  "cx_use_serialization (persist_context srz zv) \<Longrightarrow> \<not> cx_memoization_needed (persist_context srz zv)"
  "cx_use_serialization (persist_context srz zv) \<Longrightarrow> Z_TYPE zv = 7 \<or> Z_TYPE zv = 8"
  by (auto simp: persist_context_def apc_persist_init_context_def)

text \<open>
  How the size was found: by measuring the structures, or from the serialized string.
\<close>

lemma persist_size_cases:
  assumes hp: "heap_ok rq" and top: "top_ok rq (ce_val orig)"
    and sz: "persist_size php_ser srz rq orig = Some (Some cx)"
  obtains (copied) "\<not> cx_use_serialization (persist_context srz (ce_val orig))"
      "persist_calc_zval (persist_fuel rq) (persist_serialize php_ser srz) rq (ce_val orig)
         (calc_start orig (persist_context srz (ce_val orig))) = Some (True, cx)"
  | (serialized) c0 buf where "cx_use_serialization c0" "\<not> cx_memoization_needed c0"
      "Z_TYPE (ce_val orig) = 7 \<or> Z_TYPE (ce_val orig) = 8"
      "c0 = persist_context srz (ce_val orig) \<or> c0 = apc_persist_init_context\<lparr>cx_use_serialization := True\<rparr>"
      "persist_serialize php_ser srz rq (ce_val orig) = Some buf"
      "cx = ADD_SIZE_STR (length buf) ((calc_start orig c0)\<lparr>cx_serialized_str := Some buf\<rparr>)"
proof -
  let ?ser = "persist_serialize php_ser srz"
  let ?c0 = "persist_context srz (ce_val orig)"
  let ?c1 = "apc_persist_init_context\<lparr>cx_use_serialization := True\<rparr>"
  have ser: thesis if "apc_persist_calc (persist_fuel rq) ?ser rq orig c = Some (True, cx)"
    "cx_use_serialization c" "\<not> cx_memoization_needed c" "Z_TYPE (ce_val orig) = 7 \<or> Z_TYPE (ce_val orig) = 8"
    "c = ?c0 \<or> c = ?c1" for c
  proof -
    have "\<not> z_simple (ce_val orig)" using that(4) by (auto simp: z_simple_def)
    then have "persist_calc_zval (persist_fuel rq) ?ser rq (ce_val orig) (calc_start orig c) =
       (case ?ser rq (ce_val orig) of None \<Rightarrow> Some (False, calc_start orig c)
        | Some buf \<Rightarrow> Some (True, ADD_SIZE_STR (length buf) ((calc_start orig c)\<lparr>cx_serialized_str := Some buf\<rparr>)))"
      unfolding persist_fuel_Suc using that(2,3) by (intro calc_serialized) simp_all
    moreover have "persist_calc_zval (persist_fuel rq) ?ser rq (ce_val orig) (calc_start orig c) = Some (True, cx)"
      using that(1) by (simp add: apc_persist_calc_def calc_start_def)
    ultimately obtain buf where "?ser rq (ce_val orig) = Some buf"
      "cx = ADD_SIZE_STR (length buf) ((calc_start orig c)\<lparr>cx_serialized_str := Some buf\<rparr>)"
      by (auto split: option.splits)
    then show thesis by (rule serialized [OF that(2-5)])
  qed
  obtain b cy where f: "apc_persist_calc (persist_fuel rq) ?ser rq orig ?c0 = Some (b, cy)"
    using first_pass_ends [OF hp top] by blast
  show ?thesis
  proof (cases "cx_use_serialization ?c0")
    case True
    note c0 = ser_context [OF True]
    show ?thesis
    proof (cases b)
      case True
      with f sz top have "cy = cx" by (simp add: persist_size_def Let_def top_ok_def)
      with f True ser [of ?c0] c0 \<open>cx_use_serialization ?c0\<close> show ?thesis by simp
    next
      case False
      with f sz top have "apc_persist_calc (persist_fuel rq) ?ser rq orig ?c1 = Some (True, cx)"
        by (auto simp: persist_size_def Let_def top_ok_def split: if_splits Option.bind_splits)
      with ser [of ?c1] c0(2) show ?thesis by (simp add: apc_persist_init_context_def)
    qed
  next
    case us: False
    show ?thesis
    proof (cases b)
      case True
      with f sz top have "cy = cx" by (simp add: persist_size_def Let_def top_ok_def)
      with f True us copied show ?thesis by (simp add: apc_persist_calc_def calc_start_def)
    next
      case False
      with f sz top have r: "apc_persist_calc (persist_fuel rq) ?ser rq orig ?c1 = Some (True, cx)"
        and u: "cx_use_serialization cy"
        by (auto simp: persist_size_def Let_def top_ok_def split: if_splits Option.bind_splits)
      have "Z_TYPE (ce_val orig) = 7 \<or> Z_TYPE (ce_val orig) = 8"
        using f us u top False
        by (cases "ce_val orig")
          (auto simp: apc_persist_calc_def persist_fuel_Suc top_ok_def zv_ok_def apc_persist_calc_memoize_def
             ADD_SIZE_STR_def ADD_SIZE_def split: if_splits Option.bind_splits)
      with r ser [of ?c1] show ?thesis by (simp add: apc_persist_init_context_def)
    qed
  qed
qed

lemma follows_entry:
  assumes hp: "heap_ok rq" and top: "top_ok rq (ce_val orig)" and good: "calc_good rq c0"
    and c: "persist_calc_zval n ser rq (ce_val orig) (calc_start orig c0) = Some (True, cx)"
  shows "follows c0 cx (apc_persist_copy n rq orig)"
proof -
  let ?c1 = "ADD_SIZE SIZEOF_CACHE_ENTRY c0"
  note u = calc_goodD [OF good]
  have u1: "\<not> cx_use_serialization ?c1" using u by (simp add: ADD_SIZE_def)
  define g1 where "g1 = (\<lambda>(cc, sh :: heap). do { (p, cc') \<leftarrow> apc_persist_alloc SIZEOF_CACHE_ENTRY cc; Some (p, cc', sh) })"
  define g3 where "g3 = (\<lambda>(p :: nat) st. case persist_copy_zval n rq (ce_val orig) st of None \<Rightarrow> None
      | Some (v, cc', sh') \<Rightarrow> Some (orig\<lparr>ce_addr := p,
           ce_key := persist_zstr (zs_val (ce_key orig)) (zs_h (ce_key orig)), ce_val := v\<rparr>, cc', sh'))"
  define g2 where "g2 = (\<lambda>p st. case apc_persist_copy_zstr_no_add (ce_key orig) st of None \<Rightarrow> None
      | Some (_ :: nat, st') \<Rightarrow> g3 p st')"
  have f1: "follows c0 ?c1 g1" using follows_alloc [OF u, where f = "\<lambda>_ sh. sh"] by (simp add: g1_def)
  have f2: "follows ?c1 (calc_start orig c0) (apc_persist_copy_zstr_no_add (ce_key orig))"
    unfolding calc_start_def by (rule follows_zstr [OF u1])
  have f3: "follows (calc_start orig c0) cx (persist_copy_zval n rq (ce_val orig))"
    using follows_zval [OF hp c] top good by (simp add: top_ok_def calc_start_def)
  have "follows (calc_start orig c0) cx (g3 p)" for p
    by (rule follows_map [OF f3, where k = "\<lambda>_ sh. sh" and h = "\<lambda>v. orig\<lparr>ce_addr := p,
           ce_key := persist_zstr (zs_val (ce_key orig)) (zs_h (ce_key orig)), ce_val := v\<rparr>"])
      (simp add: g3_def split: option.split)
  then have "follows ?c1 cx (g2 p)" for p
    by (intro follows_bind [OF f2, where g = "\<lambda>_. g3 p"]) (auto simp: g2_def)
  then show ?thesis
    by (rule follows_bind [OF f1, where g = g2])
      (auto simp: apc_persist_copy_def g1_def g2_def g3_def split: option.splits prod.splits Option.bind_splits)
qed

lemma copy_simple:
  "persist_copy_zval (Suc n) rq zv st = Some (v, st') \<Longrightarrow> z_simple zv \<Longrightarrow> v = zv"
  by simp

lemma apc_persist_copy_entry:
  assumes "apc_persist_copy n rq orig st = Some (entry, cc, sh')"
  shows "\<exists>v. entry = orig\<lparr>ce_addr := cx_alloc_cur (fst st),
      ce_key := persist_zstr (zs_val (ce_key orig)) (zs_h (ce_key orig)), ce_val := v\<rparr> \<and>
      (z_simple (ce_val orig) \<longrightarrow> v = ce_val orig)"
  using assms
  by (cases n) (auto simp: apc_persist_copy_def apc_persist_alloc_def assert_c_def Let_def
      split: Option.bind_splits prod.splits if_splits)

lemma persist_copy_fits:
  assumes hp: "heap_ok rq" and top: "top_ok rq (ce_val orig)" and p: "0 < p"
    and sz: "persist_size php_ser srz rq orig = Some (Some cx)"
  shows "\<exists>entry cc sh'. apc_persist_copy (persist_fuel rq) rq orig (cx\<lparr>cx_alloc := p, cx_alloc_cur := p\<rparr>, sh) =
    Some (entry, cc, sh') \<and> cx_alloc_cur cc = p + cx_size cx"
proof (cases rule: persist_size_cases [OF hp top sz])
  case 1
  let ?c0 = "persist_context srz (ce_val orig)"
  let ?cc = "cx\<lparr>cx_alloc := p, cx_alloc_cur := p\<rparr>"
  have good: "calc_good rq ?c0"
    using 1(1) by (simp add: calc_good_def persist_context_def apc_persist_init_context_def)
  have f: "follows ?c0 cx (apc_persist_copy (persist_fuel rq) rq orig)"
    by (rule follows_entry [OF hp top good 1(2)])
  then obtain d where d: "cx_size cx = cx_size ?c0 + d" "\<not> cx_use_serialization cx"
    "\<And>cc sh. memo_agree ?c0 cc \<and> has_room d cc \<Longrightarrow>
       \<exists>r cc' sh'. apc_persist_copy (persist_fuel rq) rq orig (cc, sh) = Some (r, cc', sh') \<and>
         memo_agree cx cc' \<and> advanced d cc cc'"
    unfolding follows_def by blast
  have z: "cx_size ?c0 = 0" by (simp add: persist_context_def apc_persist_init_context_def)
  have fr: "calc_frame cx = calc_frame ?c0" using calc_zval_frame [OF 1(2)] by simp
  then have "memo_agree ?c0 ?cc"
    using 1(1) d(2)
    by (auto simp: memo_agree_def calc_frame_def persist_context_def apc_persist_init_context_def)
  moreover have "has_room d ?cc" using p d(1) z by (simp add: has_room_def)
  ultimately obtain r cc' sh' where "apc_persist_copy (persist_fuel rq) rq orig (?cc, sh) = Some (r, cc', sh')"
    "advanced d ?cc cc'" using d(3) by blast
  then show ?thesis using d(1) z by (auto simp: advanced_def)
next
  case (2 c0 buf)
  have ns: "\<not> z_simple (ce_val orig)" using 2(3) by (auto simp: z_simple_def)
  have z: "cx_size c0 = 0"
    using 2(4) by (auto simp: persist_context_def apc_persist_init_context_def)
  show ?thesis
    using 2(1-3,6) ns z
    by (simp add: apc_persist_copy_def persist_fuel_Suc apc_persist_copy_serialize_def apc_persist_alloc_def
        apc_persist_copy_zstr_no_add_def apc_persist_copy_cstr_def calc_start_def ADD_SIZE_def ADD_SIZE_STR_def
        ZSTR_LEN_def assert_c_def)
qed

text \<open>
  The size measured for the value, when it can be stored, is below \<open>b\<close>.
\<close>

definition persist_below ::
  "nat \<Rightarrow> (heap \<Rightarrow> zval \<Rightarrow> string option) \<Rightarrow> apc_serializer_t option \<Rightarrow> heap \<Rightarrow> apc_cache_entry_t \<Rightarrow> bool" where
  "persist_below b php_ser srz rq orig =
     (case persist_size php_ser srz rq orig of Some (Some cx) \<Rightarrow> cx_size cx < b | _ \<Rightarrow> True)"

text \<open>
  With an allocator that returns, \<open>apc_persist\<close> returns. An entry it delivers lies at the address
  of a block of exactly the measured size and carries the key, the times and, for a scalar, the
  value it was given.
\<close>

lemma apc_persist_ends:
  assumes hp: "heap_ok rq" and top: "top_ok rq (ce_val orig)"
    and small: "persist_below b php_ser srz rq orig"
    and al: "\<And>n. n < b \<Longrightarrow> \<exists>q s'. malloc s n = Some (q, s')"
  obtains (unstorable) "apc_persist php_ser malloc srz rq orig (s, sh) = Some (None, s, sh)"
  | (no_memory) n s1 where "n < b" "malloc s n = Some (0, s1)"
      "apc_persist php_ser malloc srz rq orig (s, sh) = Some (None, s1, sh)"
  | (stored) n p s1 v sh' where "n < b" "malloc s n = Some (p, s1)" "p \<noteq> 0"
      "apc_persist php_ser malloc srz rq orig (s, sh) = Some (Some (orig\<lparr>ce_addr := p,
         ce_key := persist_zstr (zs_val (ce_key orig)) (zs_h (ce_key orig)), ce_val := v,
         ce_mem_size := of_nat n\<rparr>), s1, sh')"
      "z_simple (ce_val orig) \<longrightarrow> v = ce_val orig"
proof -
  obtain r where r: "persist_size php_ser srz rq orig = Some r" using persist_size_ends [OF hp top] by blast
  show ?thesis
  proof (cases r)
    case None
    with r unstorable show ?thesis by (simp add: apc_persist_def)
  next
    case (Some cx)
    have n: "cx_size cx < b" using small r Some by (simp add: persist_below_def)
    obtain q s1 where m: "malloc s (cx_size cx) = Some (q, s1)" using al [OF n] by blast
    show ?thesis
    proof (cases "q = 0")
      case True
      with no_memory [OF n] r Some m show ?thesis by (simp add: apc_persist_def)
    next
      case False
      obtain entry cc sh' where c: "apc_persist_copy (persist_fuel rq) rq orig
          (cx\<lparr>cx_alloc := q, cx_alloc_cur := q\<rparr>, sh) = Some (entry, cc, sh')" "cx_alloc_cur cc = q + cx_size cx"
        using persist_copy_fits [OF hp top _ r [unfolded Some]] False by blast
      from apc_persist_copy_entry [OF c(1)] obtain v where
        e: "entry = orig\<lparr>ce_addr := q, ce_key := persist_zstr (zs_val (ce_key orig)) (zs_h (ce_key orig)), ce_val := v\<rparr>"
        "z_simple (ce_val orig) \<longrightarrow> v = ce_val orig" by auto
      show ?thesis
        by (rule stored [OF n m False _ e(2)]) (simp add: apc_persist_def r Some m False c e(1))
    qed
  qed
qed

end
