(* ===== verification/Apc_Cache_Inv.thy ===== *)
theory Apc_Cache_Inv imports Apc_Cache Apc_Sma_Api Apc_Persist_Props begin

text \<open>
  Ownership: which blocks of the allocator belong to the cache. While the cache's operations run,
  entries are unlinked from chains that are written back later, so the invariant \<open>holds\<close> speaks of
  a set \<open>A\<close> of addresses of entries that are not on the list of removed entries.
\<close>

section \<open>Ownership\<close>

definition gc_addrs :: "world \<Rightarrow> nat list" where
  "gc_addrs w = map ce_addr (c_gc (cch w))"

text \<open>
  The live blocks are the cache's own block, the entries in \<open>A\<close> and the removed entries, all
  different; \<open>n\<close> entries are counted, and each has an address.
\<close>

definition holds :: "nat \<Rightarrow> nat set \<Rightarrow> world \<Rightarrow> bool" where
  "holds n A w \<longleftrightarrow> sma_usable (fst w) \<and>
     fst ` sma_live (fst w) = insert (c_shmaddr (cch w)) (A \<union> set (gc_addrs w)) \<and>
     c_shmaddr (cch w) \<notin> A \<union> set (gc_addrs w) \<and> A \<inter> set (gc_addrs w) = {} \<and>
     distinct (gc_addrs w) \<and> c_nentries (cch w) = of_nat n \<and> n \<le> card A"

text \<open>The cache without what removing entries changes.\<close>

definition core :: "apc_cache_t \<Rightarrow> apc_cache_t" where
  "core c = c\<lparr>c_mem_size := 0, c_nentries := 0, c_gc := []\<rparr>"

definition same_core :: "world \<Rightarrow> world \<Rightarrow> bool" where
  "same_core w w' \<longleftrightarrow> core (cch w') = core (cch w) \<and> cs_null (snd w') = cs_null (snd w) \<and>
     glb w' = glb w \<and> cs_shm (snd w') = cs_shm (snd w) \<and> sma_frame (fst w') = sma_frame (fst w) \<and>
     sma_live (fst w') \<subseteq> sma_live (fst w)"

lemma same_core_refl [simp]: "same_core w w"
  by (simp add: same_core_def)

lemma same_core_trans: "same_core w w1 \<Longrightarrow> same_core w1 w2 \<Longrightarrow> same_core w w2"
  by (auto simp: same_core_def)

lemma same_coreD:
  assumes "same_core w w'"
  shows "c_slots (cch w') = c_slots (cch w)" "c_nslots (cch w') = c_nslots (cch w)"
    "c_shmaddr (cch w') = c_shmaddr (cch w)" "c_ttl (cch w') = c_ttl (cch w)"
    "c_gc_ttl (cch w') = c_gc_ttl (cch w)" "c_lock (cch w') = c_lock (cch w)"
    "c_serializer (cch w') = c_serializer (cch w)" "c_smart (cch w') = c_smart (cch w)"
    "glb w' = glb w" "cs_null (snd w') = cs_null (snd w)" "cs_shm (snd w') = cs_shm (snd w)"
    "sma_frame (fst w') = sma_frame (fst w)" "sma_live (fst w') \<subseteq> sma_live (fst w)"
proof -
  have c: "f (core c) = f c \<Longrightarrow> f (core c') = f c' \<Longrightarrow> core c' = core c \<Longrightarrow> f c' = f c" for f c c'
    by metis
  from assms have e: "core (cch w') = core (cch w)" by (simp add: same_core_def)
  show "c_slots (cch w') = c_slots (cch w)" "c_nslots (cch w') = c_nslots (cch w)"
    "c_shmaddr (cch w') = c_shmaddr (cch w)" "c_ttl (cch w') = c_ttl (cch w)"
    "c_gc_ttl (cch w') = c_gc_ttl (cch w)" "c_lock (cch w') = c_lock (cch w)"
    "c_serializer (cch w') = c_serializer (cch w)" "c_smart (cch w') = c_smart (cch w)"
    by (rule c [OF _ _ e]; simp add: core_def)+
qed (use assms in \<open>simp_all add: same_core_def\<close>)

lemma upd_cache_simps [simp]:
  "cch (upd_cache f w) = f (cch w)" "fst (upd_cache f w) = fst w" "glb (upd_cache f w) = glb w"
  "cs_null (snd (upd_cache f w)) = cs_null (snd w)" "cs_shm (snd (upd_cache f w)) = cs_shm (snd w)"
  "cch (upd_g g w) = cch w" "fst (upd_g g w) = fst w" "glb (upd_g g w) = g"
  "cs_null (snd (upd_g g w)) = cs_null (snd w)" "cs_shm (snd (upd_g g w)) = cs_shm (snd w)"
  by (simp_all add: upd_cache_def upd_g_def)

lemma live_addr_range:
  assumes "sma_ok sma" "p \<in> fst ` sma_live sma"
  shows "0 < p \<and> p < SIZE_LIMIT"
proof -
  from assms(2) obtain l where "(p, l) \<in> sma_live sma" by auto
  then obtain i x where i: "i < num sma" "p = SMA_ADDR sma i + x" "(x, l) \<in> seg_live (SMA_MEM sma i)"
    by (rule sma_liveE)
  show ?thesis using sma_live_range [OF assms(1) i(1,3)] sma_okD(8) [OF assms(1) i(1)] i(2) by simp
qed

lemma holdsD:
  assumes "holds n A w"
  shows "sma_usable (fst w)" "sma_ok (fst w)" "fst ` sma_live (fst w) = insert (c_shmaddr (cch w)) (A \<union> set (gc_addrs w))"
    "c_shmaddr (cch w) \<notin> A" "c_shmaddr (cch w) \<notin> set (gc_addrs w)" "A \<inter> set (gc_addrs w) = {}"
    "distinct (gc_addrs w)" "c_nentries (cch w) = of_nat n" "n \<le> card A"
  using assms by (auto simp: holds_def sma_usable_def)

lemma holds_card:
  assumes "holds n A w"
  shows "finite A" "n < SIZE_LIMIT"
proof -
  have "A \<subseteq> {1..<SIZE_LIMIT}"
    using live_addr_range [OF holdsD(2) [OF assms]] holdsD(3) [OF assms]
    by (auto simp: Suc_le_eq)
  then have "finite A" "card A \<le> SIZE_LIMIT - 1"
    using finite_subset card_mono [of "{1..<SIZE_LIMIT}" A] by auto
  then show "finite A" "n < SIZE_LIMIT" using holdsD(9) [OF assms] SIZE_LIMIT_pos by linarith+
qed

text \<open>Freeing a block of the cache never fails.\<close>

lemma free_entry_ok:
  assumes "sma_usable (fst w)" "a \<in> fst ` sma_live (fst w)"
  obtains sma' where "free_entry a w = Some (sma', snd w)" "sma_usable sma'"
    "fst ` sma_live sma' = fst ` sma_live (fst w) - {a}" "sma_frame sma' = sma_frame (fst w)"
    "sma_live sma' \<subseteq> sma_live (fst w)"
proof -
  from assms(2) obtain l where l: "(a, l) \<in> sma_live (fst w)" by auto
  have ok: "sma_ok (fst w)" using assms(1) by (simp add: sma_usable_def)
  show ?thesis
  proof (rule apc_sma_free_ok [OF ok l], goal_cases)
    case (1 i)
    with assms(1) show ?case by (simp add: sma_usable_def)
  next
    case (2 sma')
    have "fst ` sma_live sma' = fst ` sma_live (fst w) - {a}"
      unfolding 2(3) using sma_live_functional [OF ok l] by force
    with 2 that sma_usable_frame [OF assms(1)] show ?case by (simp add: free_entry_def)
  qed
qed

section \<open>Removing entries\<close>

lemma gc_addrs_upd [simp]:
  "c_gc (f (cch w)) = c_gc (cch w) \<Longrightarrow> gc_addrs (upd_cache f w) = gc_addrs w"
  "gc_addrs (upd_g g w) = gc_addrs w"
  by (simp_all add: gc_addrs_def)

lemma of_nat_eq_0_64: "n < SIZE_LIMIT \<Longrightarrow> (of_nat n = (0 :: i64)) \<longleftrightarrow> n = 0"
  by (auto simp: word_of_nat_eq_0_iff SIZE_LIMIT_power dest: nat_dvd_not_less)

lemma unaccount_simps:
  "core (cache_unaccount e c) = core c" "c_gc (cache_unaccount e c) = c_gc c"
  "c_shmaddr (cache_unaccount e c) = c_shmaddr c"
  "c_nentries (cache_unaccount e c) = (if c_nentries c \<noteq> 0 then c_nentries c - 1 else c_nentries c)"
  by (simp_all add: cache_unaccount_def core_def Let_def)

lemma remove_entry_ok:
  assumes h: "holds n A w" and a: "ce_addr e \<in> A" and n: "0 < n"
  obtains w' where "apc_cache_wlocked_remove_entry ev e w = Some w'" "holds (n - 1) (A - {ce_addr e}) w'"
    "same_core w w'"
proof -
  note hd = holdsD [OF h] and fin = holds_card [OF h]
  let ?w1 = "upd_cache (cache_unaccount e) w"
  have ne: "c_nentries (cch ?w1) = of_nat (n - 1)"
    using n fin(2) hd(8) by (simp add: unaccount_simps of_nat_eq_0_64 of_nat_diff)
  have cd: "n - 1 \<le> card (A - {ce_addr e})" using hd(9) a fin(1) by simp
  have g1: "gc_addrs ?w1 = gc_addrs w" by (simp add: unaccount_simps)
  have sc: "same_core w ?w1" by (simp add: same_core_def unaccount_simps)
  have al: "ce_addr e \<noteq> c_shmaddr (cch w)" "ce_addr e \<notin> set (gc_addrs w)" using a hd(4,6) by auto
  show ?thesis
  proof (cases "i64_less 0 (ce_ref_count e)")
    case True
    let ?w2 = "upd_cache (\<lambda>c. c\<lparr>c_gc := e\<lparr>ce_dtime := ev_time ev\<rparr> # c_gc c\<rparr>) ?w1"
    have "gc_addrs ?w2 = ce_addr e # gc_addrs w" using g1 by (simp add: gc_addrs_def)
    then have "holds (n - 1) (A - {ce_addr e}) ?w2"
      using hd ne cd al a by (auto simp: holds_def unaccount_simps)
    moreover have "same_core w ?w2" using sc by (simp add: same_core_def core_def)
    ultimately show ?thesis using True that by (simp add: apc_cache_wlocked_remove_entry_def Let_def)
  next
    case False
    have lv: "ce_addr e \<in> fst ` sma_live (fst ?w1)" using a hd(3) by simp
    obtain sma' where f: "free_entry (ce_addr e) ?w1 = Some (sma', snd ?w1)" "sma_usable sma'"
      "fst ` sma_live sma' = fst ` sma_live (fst ?w1) - {ce_addr e}" "sma_frame sma' = sma_frame (fst ?w1)"
      "sma_live sma' \<subseteq> sma_live (fst ?w1)"
      by (rule free_entry_ok [OF _ lv]) (use hd(1) in simp)
    let ?w2 = "(sma', snd ?w1)"
    have g2: "gc_addrs ?w2 = gc_addrs w" using g1 by (simp add: gc_addrs_def)
    have "holds (n - 1) (A - {ce_addr e}) ?w2"
      using f hd ne cd al g2 by (auto simp: holds_def unaccount_simps)
    moreover have "same_core w ?w2" using sc f(4,5) by (auto simp: same_core_def)
    ultimately show ?thesis using False f(1) that by (simp add: apc_cache_wlocked_remove_entry_def Let_def)
  qed
qed

end
