(* ===== verification/Apc_Cache_Walks.thy ===== *)
theory Apc_Cache_Walks imports Apc_Cache_Inv begin

text \<open>
  What the loops over a chain do: each is \<open>remove_all\<close> on the entries it drops, beside a pure
  function on the chain. Ownership is then preserved once, by \<open>remove_all\<close>.
\<close>

section \<open>Removing a list of entries\<close>

lemma remove_all_ok:
  assumes "holds n A w" "distinct (map ce_addr ds)" "ce_addr ` set ds \<subseteq> A" "length ds \<le> n"
  obtains w' where "remove_all ev ds w = Some w'" "holds (n - length ds) (A - ce_addr ` set ds) w'"
    "same_core w w'"
  using assms
proof (induction ds arbitrary: n A w thesis)
  case Nil
  then show ?case by simp
next
  case (Cons d ds)
  have "ce_addr d \<in> A" "0 < n" using Cons.prems by auto
  then obtain w1 where w1: "apc_cache_wlocked_remove_entry ev d w = Some w1"
    "holds (n - 1) (A - {ce_addr d}) w1" "same_core w w1"
    by (rule remove_entry_ok [OF Cons.prems(2)])
  have pre: "distinct (map ce_addr ds)" "ce_addr ` set ds \<subseteq> A - {ce_addr d}" "length ds \<le> n - 1"
    using Cons.prems by (auto simp: subset_Diff_insert)
  obtain w2 where w2: "remove_all ev ds w1 = Some w2"
    "holds (n - 1 - length ds) (A - {ce_addr d} - ce_addr ` set ds) w2" "same_core w1 w2"
    by (rule Cons.IH [OF _ w1(2) pre])
  have e: "A - insert (ce_addr d) (ce_addr ` set ds) = A - {ce_addr d} - ce_addr ` set ds" by auto
  show ?case
    by (rule Cons.prems(1) [of w2])
      (use w1 w2 in \<open>auto simp: e intro: same_core_trans\<close>)
qed

lemma remove_all_append:
  "remove_all ev (xs @ ys) w = do { w1 \<leftarrow> remove_all ev xs w; remove_all ev ys w1 }"
  by (induction xs arbitrary: w) (simp_all add: bind_assoc)

section \<open>Where removed entries go\<close>

text \<open>What removing \<open>ds\<close> puts in front of the list of removed entries: those with a reader.\<close>

definition parked :: "apc_env \<Rightarrow> apc_cache_entry_t list \<Rightarrow> apc_cache_entry_t list" where
  "parked ev ds = rev (map (\<lambda>e. e\<lparr>ce_dtime := ev_time ev\<rparr>) (filter (\<lambda>e. i64_less 0 (ce_ref_count e)) ds))"

lemma parked_simps [simp]:
  "parked ev [] = []" "parked ev (xs @ ys) = parked ev ys @ parked ev xs"
  "parked ev (e # es) = parked ev es @ (if i64_less 0 (ce_ref_count e) then [e\<lparr>ce_dtime := ev_time ev\<rparr>] else [])"
  by (simp_all add: parked_def)

lemma parked_addrs: "ce_addr ` set (parked ev ds) = ce_addr ` {e \<in> set ds. i64_less 0 (ce_ref_count e)}"
  by (induction ds) auto

lemma remove_entry_parks:
  "apc_cache_wlocked_remove_entry ev e w = Some w' \<Longrightarrow>
     c_gc (cch w') = parked ev [e] @ c_gc (cch w) \<and> c_slots (cch w') = c_slots (cch w)"
  by (auto simp: apc_cache_wlocked_remove_entry_def Let_def free_entry_def cache_unaccount_def
      split: if_splits Option.bind_splits)

lemma remove_all_parks:
  "remove_all ev ds w = Some w' \<Longrightarrow> c_gc (cch w') = parked ev ds @ c_gc (cch w) \<and> c_slots (cch w') = c_slots (cch w)"
  by (induction ds arbitrary: w) (auto split: Option.bind_splits dest: remove_entry_parks)

section \<open>The loops as pure functions on a chain\<close>

lemma junk_walk_pure:
  "junk_walk ev cttl t es w = map_option (\<lambda>w'. (filter (\<lambda>e. \<not> apc_cache_entry_expired cttl e t) es, w'))
     (remove_all ev (filter (\<lambda>e. apc_cache_entry_expired cttl e t) es) w)"
proof (induction es arbitrary: w)
  case (Cons e es)
  then show ?case
    by (cases "apc_cache_entry_expired cttl e t")
      (auto simp: map_option_case split: option.splits Option.bind_splits)
qed simp

text \<open>The chain an insertion leaves: (linked in, the chain, the entries dropped).\<close>

primrec insert_chain ::
  "apc_cache_entry_t \<Rightarrow> bool \<Rightarrow> u64 \<Rightarrow> i64 \<Rightarrow> apc_cache_entry_t list \<Rightarrow>
   bool \<times> apc_cache_entry_t list \<times> apc_cache_entry_t list" where
  "insert_chain new exclusive h cttl [] = (True, [new], [])"
| "insert_chain new exclusive h cttl (e # es) =
     (if apc_entry_key_equals e (ce_key new) h
      then (if exclusive \<and> \<not> apc_cache_entry_hard_expired e (ce_ctime new) then (False, e # es, [])
            else (True, new # es, [e]))
      else (let (ok, es', ds) = insert_chain new exclusive h cttl es
            in if apc_cache_entry_expired cttl e (ce_ctime new) then (ok, es', e # ds)
               else (ok, e # es', ds)))"

lemma insert_walk_pure:
  "insert_walk ev new exclusive h cttl es w =
     (let (ok, es', ds) = insert_chain new exclusive h cttl es
      in map_option (\<lambda>w'. (ok, es', w')) (remove_all ev ds w))"
proof (induction es arbitrary: w)
  case (Cons e es)
  obtain ok es' ds where c: "insert_chain new exclusive h cttl es = (ok, es', ds)" by (metis prod_cases3)
  show ?case
  proof (cases "apc_entry_key_equals e (ce_key new) h")
    case False
    then show ?thesis using c
      by (auto simp: Cons map_option_case split: option.splits Option.bind_splits)
  next
    case True
    then show ?thesis by (auto simp: map_option_case split: option.splits Option.bind_splits)
  qed
qed simp

text \<open>The chain a deletion leaves.\<close>

primrec delete_chain ::
  "zend_string \<Rightarrow> u64 \<Rightarrow> apc_cache_entry_t list \<Rightarrow> apc_cache_entry_t list \<times> apc_cache_entry_t list" where
  "delete_chain key h [] = ([], [])"
| "delete_chain key h (e # es) =
     (if apc_entry_key_equals e key h then (es, [e])
      else (let (es', ds) = delete_chain key h es in (e # es', ds)))"

lemma delete_walk_pure:
  "delete_walk ev key h es w =
     (let (es', ds) = delete_chain key h es
      in map_option (\<lambda>w'. (ds \<noteq> [], es', w')) (remove_all ev ds w))"
proof (induction es arbitrary: w)
  case (Cons e es)
  obtain es' ds where c: "delete_chain key h es = (es', ds)" by (metis surj_pair)
  show ?case using c
    by (cases "apc_entry_key_equals e key h")
      (auto simp: Cons map_option_case split: option.splits Option.bind_splits)
qed simp

section \<open>The list of removed entries\<close>

lemma gc_walk_ok:
  assumes "sma_usable (fst w)" "distinct (map ce_addr es)" "ce_addr ` set es \<subseteq> fst ` sma_live (fst w)"
  obtains sma' where "gc_walk g now es w = Some (filter (\<lambda>e. \<not> gc_due g now e) es, (sma', snd w))"
    "sma_usable sma'" "sma_frame sma' = sma_frame (fst w)"
    "fst ` sma_live sma' = fst ` sma_live (fst w) - ce_addr ` {e \<in> set es. gc_due g now e}" "sma_live sma' \<subseteq> sma_live (fst w)"
  using assms
proof (induction es arbitrary: w thesis)
  case Nil
  then show ?case by (intro Nil.prems(1) [of "fst w"]) simp_all
next
  case (Cons e es)
  show ?case
  proof (cases "gc_due g now e")
    case True
    obtain sma1 where s1: "free_entry (ce_addr e) w = Some (sma1, snd w)" "sma_usable sma1"
      "fst ` sma_live sma1 = fst ` sma_live (fst w) - {ce_addr e}" "sma_frame sma1 = sma_frame (fst w)"
      "sma_live sma1 \<subseteq> sma_live (fst w)"
      by (rule free_entry_ok [OF Cons.prems(2)]) (use Cons.prems(4) in auto)
    have pre: "sma_usable (fst (sma1, snd w))" "distinct (map ce_addr es)"
      "ce_addr ` set es \<subseteq> fst ` sma_live (fst (sma1, snd w))"
      using s1 Cons.prems by (simp_all add: subset_Diff_insert)
    obtain sma2 where s2: "gc_walk g now es (sma1, snd w) =
        Some (filter (\<lambda>e. \<not> gc_due g now e) es, (sma2, snd (sma1, snd w)))"
      "sma_usable sma2" "sma_frame sma2 = sma_frame (fst (sma1, snd w))"
      "fst ` sma_live sma2 = fst ` sma_live (fst (sma1, snd w)) - ce_addr ` {e \<in> set es. gc_due g now e}"
      "sma_live sma2 \<subseteq> sma_live (fst (sma1, snd w))"
      by (rule Cons.IH [OF _ pre])
    show ?thesis
      by (rule Cons.prems(1) [of sma2]) (use s1 s2 True in auto)
  next
    case False
    obtain sma2 where s2: "gc_walk g now es w = Some (filter (\<lambda>e. \<not> gc_due g now e) es, (sma2, snd w))"
      "sma_usable sma2" "sma_frame sma2 = sma_frame (fst w)"
      "fst ` sma_live sma2 = fst ` sma_live (fst w) - ce_addr ` {e \<in> set es. gc_due g now e}"
      "sma_live sma2 \<subseteq> sma_live (fst w)"
      by (rule Cons.IH) (use Cons.prems in auto)
    have e: "{x \<in> set (e # es). gc_due g now x} = {e \<in> set es. gc_due g now e}" using False by auto
    show ?thesis
      by (rule Cons.prems(1) [of sma2]) (use s2 False in \<open>auto simp: e\<close>)
  qed
qed

lemma apc_cache_wlocked_gc_ok:
  assumes h: "holds n A w"
  obtains w' where "apc_cache_wlocked_gc ev w = Some w'" "holds n A w'" "same_core w w'"
    "cch w' = (cch w)\<lparr>c_gc := filter (\<lambda>e. \<not> gc_due (c_gc_ttl (cch w)) (ev_time ev) e) (c_gc (cch w))\<rparr>"
proof (cases "c_gc (cch w) = []")
  case True
  then show ?thesis using h by (intro that [of w]) (simp_all add: apc_cache_wlocked_gc_def)
next
  case False
  let ?P = "gc_due (c_gc_ttl (cch w)) (ev_time ev)"
  note hd = holdsD [OF h]
  obtain sma' where s: "gc_walk (c_gc_ttl (cch w)) (ev_time ev) (c_gc (cch w)) w =
      Some (filter (\<lambda>e. \<not> ?P e) (c_gc (cch w)), (sma', snd w))"
    "sma_usable sma'" "sma_frame sma' = sma_frame (fst w)"
    "fst ` sma_live sma' = fst ` sma_live (fst w) - ce_addr ` {e \<in> set (c_gc (cch w)). ?P e}"
    "sma_live sma' \<subseteq> sma_live (fst w)"
    by (rule gc_walk_ok [where g = "c_gc_ttl (cch w)" and now = "ev_time ev", OF hd(1), of "c_gc (cch w)"])
      (use hd(3,7) in \<open>auto simp: gc_addrs_def\<close>)
  let ?w' = "upd_cache (\<lambda>c. c\<lparr>c_gc := filter (\<lambda>e. \<not> ?P e) (c_gc (cch w))\<rparr>) (sma', snd w)"
  have d: "distinct (map ce_addr (c_gc (cch w)))" using hd(7) by (simp add: gc_addrs_def)
  have g: "set (gc_addrs ?w') = set (gc_addrs w) - ce_addr ` {e \<in> set (c_gc (cch w)). ?P e}"
    using d by (auto simp: gc_addrs_def distinct_map dest: inj_onD)
  have "ce_addr ` {e \<in> set (c_gc (cch w)). ?P e} \<subseteq> set (gc_addrs w)" by (auto simp: gc_addrs_def)
  then have lv: "fst ` sma_live (fst ?w') = insert (c_shmaddr (cch w)) (A \<union> set (gc_addrs ?w'))"
    using s(4) hd(3,5,6) unfolding g by auto
  have "holds n A ?w'"
    unfolding holds_def using lv hd s(2) g distinct_map_filter [OF d]
    by (auto simp: gc_addrs_def)
  moreover have "same_core w ?w'" using s(3,5) by (simp add: same_core_def core_def)
  ultimately show ?thesis
    using that [of ?w'] s(1) False by (simp add: apc_cache_wlocked_gc_def)
qed

end
