(* ===== verification/Apc_Cache_Table.thy ===== *)
theory Apc_Cache_Table imports Apc_Cache_Walks "HOL-Library.Multiset" begin

text \<open>
  The invariant of the hash table and its preservation when the chain of one slot is replaced:
  entries are in the slot of their key, keys and addresses are unique, and the allocator's live
  blocks are the cache's block, the linked entries, the removed ones and a set \<open>X\<close> of blocks the
  process has in hand.
\<close>

section \<open>Invariant\<close>

definition zval_of_key :: "apc_cache_entry_t \<Rightarrow> string" where
  "zval_of_key e = zs_val (ce_key e)"

definition slot_ok :: "nat \<Rightarrow> nat \<Rightarrow> apc_cache_entry_t list \<Rightarrow> bool" where
  "slot_ok nslots s es \<longleftrightarrow>
     (\<forall>e \<in> set es. zs_h (ce_key e) = zend_inline_hash_func (zval_of_key e) \<and>
        unat (zend_inline_hash_func (zval_of_key e)) mod nslots = s) \<and>
     distinct (map zval_of_key es)"

definition entries :: "apc_cache_t \<Rightarrow> apc_cache_entry_t list" where
  "entries c = concat (c_slots c)"

definition addrs :: "apc_cache_t \<Rightarrow> nat set" where
  "addrs c = ce_addr ` set (entries c)"

definition table_ok :: "apc_cache_t \<Rightarrow> bool" where
  "table_ok c \<longleftrightarrow> 0 < c_nslots c \<and> length (c_slots c) = c_nslots c \<and>
     (\<forall>s < c_nslots c. slot_ok (c_nslots c) s (c_slots c ! s)) \<and> distinct (map ce_addr (entries c))"

definition cache_inv :: "nat set \<Rightarrow> world \<Rightarrow> bool" where
  "cache_inv X w \<longleftrightarrow> table_ok (cch w) \<and> X \<inter> addrs (cch w) = {} \<and>
     holds (length (entries (cch w))) (addrs (cch w) \<union> X) w"

lemma table_okD:
  assumes "table_ok c"
  shows "0 < c_nslots c" "length (c_slots c) = c_nslots c"
    "s < c_nslots c \<Longrightarrow> slot_ok (c_nslots c) s (c_slots c ! s)" "distinct (map ce_addr (entries c))"
  using assms by (simp_all add: table_ok_def)

lemma cache_invD:
  assumes "cache_inv X w"
  shows "table_ok (cch w)" "X \<inter> addrs (cch w) = {}"
    "holds (length (entries (cch w))) (addrs (cch w) \<union> X) w"
  using assms by (simp_all add: cache_inv_def)

text \<open>The live blocks of a cache without entries under construction.\<close>

lemma cache_inv_live:
  "cache_inv {} w \<Longrightarrow> fst ` sma_live (fst w) = insert (c_shmaddr (cch w)) (ce_addr ` set (entries (cch w)) \<union> ce_addr ` set (c_gc (cch w)))"
  by (simp add: cache_inv_def holds_def addrs_def gc_addrs_def)

lemma entries_in_slot: "s < length (c_slots c) \<Longrightarrow> e \<in> set (c_slots c ! s) \<Longrightarrow> e \<in> set (entries c)"
  unfolding entries_def by (metis UN_I nth_mem set_concat)

section \<open>Replacing one chain\<close>

lemma mset_concat_update:
  "s < length xss \<Longrightarrow> mset (concat (xss[s := ys])) + mset (xss ! s) = mset (concat xss) + mset ys"
proof (induction xss arbitrary: s)
  case (Cons xs xss)
  then show ?case by (cases s) (auto simp: ac_simps)
qed simp

lemma addr_distinct:
  assumes "mset xs + mset ds = mset ys + mset (ns :: apc_cache_entry_t list)"
    "distinct (map ce_addr ys)" "distinct (map ce_addr ns)" "ce_addr ` set ys \<inter> ce_addr ` set ns = {}"
  shows "distinct (map ce_addr xs)" "distinct (map ce_addr ds)" "ce_addr ` set xs \<inter> ce_addr ` set ds = {}"
    "ce_addr ` set xs = (ce_addr ` set ys \<union> ce_addr ` set ns) - ce_addr ` set ds"
proof -
  have m: "mset (map ce_addr (xs @ ds)) = mset (map ce_addr (ys @ ns))"
    using arg_cong [OF assms(1), of "image_mset ce_addr"] by simp
  have "distinct (map ce_addr (ys @ ns))" using assms by auto
  then have d: "distinct (map ce_addr (xs @ ds))" using mset_eq_imp_distinct_iff [OF m] by simp
  then show "distinct (map ce_addr xs)" "distinct (map ce_addr ds)" "ce_addr ` set xs \<inter> ce_addr ` set ds = {}"
    by auto
  have "set (map ce_addr (xs @ ds)) = set (map ce_addr (ys @ ns))" by (rule mset_eq_setD [OF m])
  with \<open>ce_addr ` set xs \<inter> ce_addr ` set ds = {}\<close>
  show "ce_addr ` set xs = (ce_addr ` set ys \<union> ce_addr ` set ns) - ce_addr ` set ds" by auto
qed

text \<open>What the caller does with the counters besides the number of entries does not matter.\<close>

definition bump :: "nat \<Rightarrow> (apc_cache_t \<Rightarrow> apc_cache_t) \<Rightarrow> bool" where
  "bump k f \<longleftrightarrow> (\<forall>c. c_nentries (f c) = c_nentries c + of_nat k \<and> c_slots (f c) = c_slots c \<and>
     c_nslots (f c) = c_nslots c \<and> c_gc (f c) = c_gc c \<and> c_shmaddr (f c) = c_shmaddr c)"

lemma replace_chain:
  assumes inv: "cache_inv X w" and s: "s < c_nslots (cch w)"
    and ms: "mset es' + mset ds = mset (c_slots (cch w) ! s) + mset ns"
    and ok: "slot_ok (c_nslots (cch w)) s es'"
    and ns: "ce_addr ` set ns \<subseteq> X" "distinct (map ce_addr ns)"
    and f: "bump (length ns) f" and new: "set ds \<subseteq> set (c_slots (cch w) ! s)"
  obtains w' where "remove_all ev ds w = Some w'" "same_core w w'"
    "cache_inv (X - ce_addr ` set ns) (upd_cache f (upd_cache (set_slot s es') w'))"
proof -
  let ?c = "cch w"
  note t = table_okD [OF cache_invD(1) [OF inv]] and h = cache_invD(3) [OF inv] and dj = cache_invD(2) [OF inv]
  let ?xs = "concat ((c_slots ?c)[s := es'])"
  have sl: "s < length (c_slots ?c)" using s t(2) by simp
  let ?old = "mset (c_slots ?c ! s)"
  have u: "mset ?xs + ?old = mset (entries ?c) + mset es'"
    unfolding entries_def by (rule mset_concat_update [OF sl])
  have "mset ?xs + mset ds + ?old = (mset ?xs + ?old) + mset ds" by (simp only: ac_simps)
  also have "\<dots> = mset (entries ?c) + (mset es' + mset ds)" by (simp only: u add.assoc)
  also have "\<dots> = (mset (entries ?c) + mset ns) + ?old" by (simp only: ms) (simp only: ac_simps)
  finally have m: "mset ?xs + mset ds = mset (entries ?c) + mset ns" by simp
  have sub: "set ds \<subseteq> set (entries ?c)" using entries_in_slot [OF sl] new by auto
  note a = addr_distinct [OF m t(4) ns(2)]
  have apart: "ce_addr ` set (entries ?c) \<inter> ce_addr ` set ns = {}" using ns dj by (auto simp: addrs_def)
  note a = a [OF apart]
  have "ce_addr ` set ds \<subseteq> addrs ?c \<union> X" using sub by (auto simp: addrs_def)
  moreover have len: "length ?xs + length ds = length (entries ?c) + length ns"
    using arg_cong [OF m, of size] by simp
  moreover have "length ds \<le> length (entries ?c)"
    using card_mono [OF _ image_mono [OF sub], of ce_addr] a(2) t(4)
    by (metis List.finite_set distinct_card finite_imageI length_map list.set_map)
  ultimately obtain w' where w': "remove_all ev ds w = Some w'"
    "holds (length (entries ?c) - length ds) (addrs ?c \<union> X - ce_addr ` set ds) w'" "same_core w w'"
    using remove_all_ok [OF h a(2)] by metis
  have lx: "length ?xs = (length (entries ?c) - length ds) + length ns"
    using len \<open>length ds \<le> length (entries ?c)\<close> by linarith
  note c = same_coreD [OF w'(3)]
  let ?w = "upd_cache f (upd_cache (set_slot s es') w')"
  have fD: "c_nentries (f k) = c_nentries k + of_nat (length ns)" "c_slots (f k) = c_slots k"
    "c_nslots (f k) = c_nslots k" "c_gc (f k) = c_gc k" "c_shmaddr (f k) = c_shmaddr k" for k
    using f by (auto simp: bump_def)
  have en: "entries (cch ?w) = ?xs" by (simp add: entries_def fD set_slot_def c)
  have dX: "ce_addr ` set ds \<inter> X = {}" using image_mono [OF sub, of ce_addr] dj unfolding addrs_def by blast
  have ns': "ce_addr ` set ns \<inter> ce_addr ` set ds = {}" using apart sub by blast
  have "addrs (cch ?w) \<union> (X - ce_addr ` set ns) = addrs ?c \<union> X - ce_addr ` set ds"
    unfolding addrs_def en a(4) using ns(1) dj dX unfolding addrs_def by blast
  moreover have "c_nentries (cch ?w) = of_nat (length ?xs)"
    using holdsD(8) [OF w'(2)] unfolding lx by (simp add: fD set_slot_def)
  moreover have "length ?xs \<le> card (addrs ?c \<union> X - ce_addr ` set ds)"
  proof -
    have "addrs (cch ?w) \<subseteq> addrs ?c \<union> X - ce_addr ` set ds"
      unfolding addrs_def en a(4) using ns ns' by (auto simp: addrs_def)
    then show ?thesis
      using card_mono [OF holds_card(1) [OF w'(2)]] a(1) by (metis addrs_def distinct_card en length_map list.set_map)
  qed
  moreover have "gc_addrs ?w = gc_addrs w'" by (simp add: gc_addrs_def fD set_slot_def)
  ultimately have "holds (length (entries (cch ?w))) (addrs (cch ?w) \<union> (X - ce_addr ` set ns)) ?w"
    using holdsD [OF w'(2)] unfolding en by (simp add: holds_def fD set_slot_def)
  moreover have "(X - ce_addr ` set ns) \<inter> addrs (cch ?w) = {}"
    unfolding addrs_def en a(4) using dj by (auto simp: addrs_def)
  moreover have "table_ok (cch ?w)"
    using t s ok a(1) [folded en] unfolding table_ok_def by (simp add: fD set_slot_def c nth_list_update)
  ultimately show ?thesis using that w'(1,3) by (simp add: cache_inv_def)
qed

section \<open>Chains as maps\<close>

definition chain_map :: "apc_cache_entry_t list \<Rightarrow> string \<Rightarrow> apc_cache_entry_t option" where
  "chain_map es v = List.find (\<lambda>e. zval_of_key e = v) es"

lemma chain_map_simps [simp]:
  "chain_map [] = (\<lambda>_. None)"
  "chain_map (e # es) = (chain_map es)(zval_of_key e \<mapsto> e)"
  by (auto simp: chain_map_def fun_eq_iff)

lemma chain_map_None: "chain_map es v = None \<longleftrightarrow> v \<notin> zval_of_key ` set es"
  by (induction es) auto

lemma chain_map_mem: "chain_map es v = Some e \<Longrightarrow> e \<in> set es \<and> zval_of_key e = v"
  by (induction es) (auto split: if_splits)

lemma chain_map_in: "distinct (map zval_of_key es) \<Longrightarrow> e \<in> set es \<Longrightarrow> chain_map es (zval_of_key e) = Some e"
  by (induction es) (auto simp: image_iff)

text \<open>Entries with the property \<open>P\<close> may go, everything else stays.\<close>

definition sheds :: "(apc_cache_entry_t \<Rightarrow> bool) \<Rightarrow> (string \<Rightarrow> apc_cache_entry_t option) \<Rightarrow>
    (string \<Rightarrow> apc_cache_entry_t option) \<Rightarrow> bool" where
  "sheds P m m' \<longleftrightarrow> (\<forall>v. m' v = m v \<or> m' v = None \<and> (\<exists>e. m v = Some e \<and> P e))"

lemma sheds_refl [simp]: "sheds P m m"
  by (simp add: sheds_def)

lemma sheds_trans: "sheds P m m1 \<Longrightarrow> sheds P m1 m2 \<Longrightarrow> sheds P m m2"
  unfolding sheds_def by metis

lemma sheds_mono: "sheds P m m' \<Longrightarrow> (\<And>e. P e \<Longrightarrow> Q e) \<Longrightarrow> sheds Q m m'"
  unfolding sheds_def by metis

lemma sheds_upd: "sheds P m m' \<Longrightarrow> sheds P (m(k \<mapsto> e)) (m'(k \<mapsto> e))"
  by (simp add: sheds_def)

lemma sheds_drop: "m k = None \<Longrightarrow> P e \<Longrightarrow> sheds P m m' \<Longrightarrow> sheds P (m(k \<mapsto> e)) m'"
  unfolding sheds_def by (metis fun_upd_apply option.distinct(1))

lemma slot_ok_Cons:
  "slot_ok n s (e # es) \<longleftrightarrow> zs_h (ce_key e) = zend_inline_hash_func (zval_of_key e) \<and>
     unat (zend_inline_hash_func (zval_of_key e)) mod n = s \<and> zval_of_key e \<notin> zval_of_key ` set es \<and> slot_ok n s es"
  by (auto simp: slot_ok_def)

lemma slot_ok_Nil [simp]: "slot_ok n s []"
  by (simp add: slot_ok_def)

lemma key_equals:
  assumes "zs_h (ce_key e) = zend_inline_hash_func (zval_of_key e)" "zs_ok key"
  shows "apc_entry_key_equals e key (ZSTR_HASH key) \<longleftrightarrow> zval_of_key e = zs_val key"
  using assms by (auto simp: apc_entry_key_equals_def zs_ok_hash zval_of_key_def ZSTR_LEN_def)

lemma chain_find_map:
  "slot_ok n s es \<Longrightarrow> zs_ok key \<Longrightarrow> chain_find key (ZSTR_HASH key) es = chain_map es (zs_val key)"
  by (induction es) (auto simp: slot_ok_Cons key_equals)

section \<open>What the walks do to a chain\<close>

lemma filter_chain:
  assumes "slot_ok n s es"
  shows "slot_ok n s (filter P es)" "sheds (\<lambda>e. \<not> P e) (chain_map es) (chain_map (filter P es))"
    "chain_map (filter P es) v = (case chain_map es v of None \<Rightarrow> None | Some e \<Rightarrow> if P e then Some e else None)"
proof -
  show "slot_ok n s (filter P es)" using assms by (auto simp: slot_ok_def distinct_map_filter)
  show f: "chain_map (filter P es) v =
      (case chain_map es v of None \<Rightarrow> None | Some e \<Rightarrow> if P e then Some e else None)" for v
    using assms
  proof (induction es)
    case (Cons e es)
    then have "chain_map es (zval_of_key e) = None" by (simp add: slot_ok_Cons chain_map_None)
    with Cons show ?case by (auto simp: slot_ok_Cons split: option.splits)
  qed simp
  show "sheds (\<lambda>e. \<not> P e) (chain_map es) (chain_map (filter P es))"
    by (auto simp: sheds_def f split: option.splits)
qed

lemma delete_chain_spec:
  assumes "slot_ok n s es" "zs_ok key" "delete_chain key (ZSTR_HASH key) es = (es', ds)"
  shows "slot_ok n s es'" "mset es' + mset ds = mset es" "set ds \<subseteq> set es"
    "ds \<noteq> [] \<longleftrightarrow> chain_map es (zs_val key) \<noteq> None" "chain_map es' = (chain_map es)(zs_val key := None)"
proof -
  have "slot_ok n s es' \<and> mset es' + mset ds = mset es \<and> set ds \<subseteq> set es \<and> zval_of_key ` set es' \<subseteq> zval_of_key ` set es \<and>
    (ds \<noteq> [] \<longleftrightarrow> chain_map es (zs_val key) \<noteq> None) \<and> chain_map es' = (chain_map es)(zs_val key := None)"
    using assms
  proof (induction es arbitrary: es' ds)
    case (Cons e es)
    obtain es1 ds1 where d: "delete_chain key (ZSTR_HASH key) es = (es1, ds1)" by (metis surj_pair)
    from Cons.prems have e: "zs_h (ce_key e) = zend_inline_hash_func (zval_of_key e)" "slot_ok n s es"
      "chain_map es (zval_of_key e) = None"
      by (simp_all add: slot_ok_Cons chain_map_None)
    note k = key_equals [OF e(1) Cons.prems(2)]
    show ?case
    proof (cases "zval_of_key e = zs_val key")
      case True
      then show ?thesis using Cons.prems e k by (auto simp: fun_eq_iff)
    next
      case False
      note ih = Cons.IH [OF e(2) Cons.prems(2) d]
      have "zval_of_key e \<notin> zval_of_key ` set es1" using ih Cons.prems(1) [unfolded slot_ok_Cons] by blast
      with ih Cons.prems k d False show ?thesis by (auto simp: slot_ok_Cons fun_upd_twist image_subset_iff)
    qed
  qed auto
  then show "slot_ok n s es'" "mset es' + mset ds = mset es" "set ds \<subseteq> set es"
    "ds \<noteq> [] \<longleftrightarrow> chain_map es (zs_val key) \<noteq> None" "chain_map es' = (chain_map es)(zs_val key := None)"
    by blast+
qed

lemma delete_chain_removed:
  "slot_ok n s es \<Longrightarrow> zs_ok key \<Longrightarrow>
     snd (delete_chain key (ZSTR_HASH key) es) = (case chain_map es (zs_val key) of None \<Rightarrow> [] | Some e \<Rightarrow> [e])"
proof (induction es)
  case (Cons e es)
  from Cons.prems have e: "zs_h (ce_key e) = zend_inline_hash_func (zval_of_key e)" "slot_ok n s es" by (simp_all add: slot_ok_Cons)
  with Cons.IH [OF e(2) Cons.prems(2)] key_equals [OF e(1) Cons.prems(2)] show ?case
    by (auto simp: case_prod_unfold)
qed simp

text \<open>
  Inserting: the entry is linked in unless an exclusive insertion meets a live entry with the key;
  entries passed on the way may go when they are expired.
\<close>

definition blocks_insert :: "bool \<Rightarrow> i64 \<Rightarrow> apc_cache_entry_t option \<Rightarrow> bool" where
  "blocks_insert exclusive t old \<longleftrightarrow>
     exclusive \<and> (case old of None \<Rightarrow> False | Some e \<Rightarrow> \<not> apc_cache_entry_hard_expired e t)"

definition chain_spec where
  "chain_spec n s new excl cttl es ok es' ds \<longleftrightarrow>
     slot_ok n s es' \<and> mset es' + mset ds = mset es + mset (if ok then [new] else []) \<and> set ds \<subseteq> set es \<and>
     zval_of_key ` set es' \<subseteq> insert (zval_of_key new) (zval_of_key ` set es) \<and>
     (ok \<longleftrightarrow> \<not> blocks_insert excl (ce_ctime new) (chain_map es (zval_of_key new))) \<and>
     (\<exists>m. sheds (\<lambda>e. apc_cache_entry_expired cttl e (ce_ctime new)) (chain_map es) m \<and>
        m (zval_of_key new) = chain_map es (zval_of_key new) \<and>
        chain_map es' = (if ok then m(zval_of_key new \<mapsto> new) else m))"

text \<open>Passing over an entry with another key: it is dropped when expired, and kept otherwise.\<close>

lemma chain_spec_pass:
  assumes sp: "chain_spec n s new excl cttl es ok es1 ds1" and e: "slot_ok n s (e # es)" "zval_of_key e \<noteq> zval_of_key new"
  shows "apc_cache_entry_expired cttl e (ce_ctime new) \<Longrightarrow> chain_spec n s new excl cttl (e # es) ok es1 (e # ds1)"
    "\<not> apc_cache_entry_expired cttl e (ce_ctime new) \<Longrightarrow> chain_spec n s new excl cttl (e # es) ok (e # es1) ds1"
proof -
  let ?P = "\<lambda>e. apc_cache_entry_expired cttl e (ce_ctime new)"
  let ?k = "zval_of_key new"
  have en: "zval_of_key e \<notin> zval_of_key ` set es" using e(1) by (simp add: slot_ok_Cons)
  note e0 = en [folded chain_map_None]
  from sp obtain m where m: "sheds ?P (chain_map es) m" "m ?k = chain_map es ?k"
    "chain_map es1 = (if ok then m(?k \<mapsto> new) else m)" unfolding chain_spec_def by blast
  note sp' = sp [unfolded chain_spec_def]
  show "chain_spec n s new excl cttl (e # es) ok es1 (e # ds1)" if "?P e"
  proof -
    have "sheds ?P (chain_map (e # es)) m \<and> m ?k = chain_map (e # es) ?k \<and> chain_map es1 = (if ok then m(?k \<mapsto> new) else m)"
      using m e(2) sheds_drop [of "chain_map es" "zval_of_key e" ?P e m] e0 that by simp
    then have ex: "\<exists>m. sheds ?P (chain_map (e # es)) m \<and> m ?k = chain_map (e # es) ?k \<and> chain_map es1 = (if ok then m(?k \<mapsto> new) else m)"
      by blast
    show ?thesis unfolding chain_spec_def by (intro conjI ex) (use sp' e(2) in \<open>auto split: if_splits\<close>)
  qed
  show "chain_spec n s new excl cttl (e # es) ok (e # es1) ds1" if "\<not> ?P e"
  proof -
    let ?m = "m(zval_of_key e \<mapsto> e)"
    have "sheds ?P (chain_map (e # es)) ?m \<and> ?m ?k = chain_map (e # es) ?k \<and>
      chain_map (e # es1) = (if ok then ?m(?k \<mapsto> new) else ?m)"
      using m e(2) sheds_upd [OF m(1)] by (auto simp: fun_upd_twist)
    then have ex: "\<exists>m. sheds ?P (chain_map (e # es)) m \<and> m ?k = chain_map (e # es) ?k \<and>
      chain_map (e # es1) = (if ok then m(?k \<mapsto> new) else m)" by blast
    have "zval_of_key e \<notin> zval_of_key ` set es1" using sp' en e(2) by blast
    then have "slot_ok n s (e # es1)" using sp' e(1) by (simp add: slot_ok_Cons)
    then show ?thesis unfolding chain_spec_def by (intro conjI ex) (use sp' e(2) in \<open>auto split: if_splits\<close>)
  qed
qed

lemma insert_chain_spec':
  "slot_ok n s es \<Longrightarrow> slot_ok n s [new] \<Longrightarrow> insert_chain new excl (ZSTR_HASH (ce_key new)) cttl es = (ok, es', ds) \<Longrightarrow>
   chain_spec n s new excl cttl es ok es' ds"
proof (induction es arbitrary: ok es' ds)
  case Nil
  then show ?case by (auto simp: chain_spec_def blocks_insert_def intro!: exI [of _ "\<lambda>_. None"])
next
  case (Cons e es)
  let ?k = "zval_of_key new"
  have ko: "zs_ok (ce_key new)" using Cons.prems(2) by (simp add: slot_ok_Cons zs_ok_def zval_of_key_def)
  from Cons.prems(1) have e: "zs_h (ce_key e) = zend_inline_hash_func (zval_of_key e)" "slot_ok n s es"
    "zval_of_key e \<notin> zval_of_key ` set es"
    by (simp_all add: slot_ok_Cons)
  have k: "apc_entry_key_equals e (ce_key new) (ZSTR_HASH (ce_key new)) \<longleftrightarrow> zval_of_key e = ?k"
    using key_equals [OF e(1) ko] by (simp add: zval_of_key_def)
  consider (blocked) "zval_of_key e = ?k" "excl \<and> \<not> apc_cache_entry_hard_expired e (ce_ctime new)"
    | (replaced) "zval_of_key e = ?k" "\<not> (excl \<and> \<not> apc_cache_entry_hard_expired e (ce_ctime new))"
    | (other) "zval_of_key e \<noteq> ?k" by blast
  then show ?case
  proof cases
    case blocked
    with Cons.prems k show ?thesis
      by (auto simp: chain_spec_def blocks_insert_def intro!: exI [of _ "chain_map (e # es)"])
  next
    case replaced
    with Cons.prems k e show ?thesis
      by (auto simp: chain_spec_def blocks_insert_def slot_ok_Cons fun_upd_def intro!: exI [of _ "chain_map (e # es)"])
  next
    case other
    obtain ok1 es1 ds1 where c: "insert_chain new excl (ZSTR_HASH (ce_key new)) cttl es = (ok1, es1, ds1)"
      by (metis prod_cases3)
    note sp = chain_spec_pass [OF Cons.IH [OF e(2) Cons.prems(2) c] Cons.prems(1) other]
    show ?thesis using sp Cons.prems(3) c k other by (auto split: if_splits)
  qed
qed

lemma insert_chain_spec:
  assumes "slot_ok n s es" "insert_chain new excl (ZSTR_HASH (ce_key new)) cttl es = (ok, es', ds)"
    "slot_ok n s [new]"
  shows "slot_ok n s es'" "mset es' + mset ds = mset es + mset (if ok then [new] else [])" "set ds \<subseteq> set es"
    "ok \<longleftrightarrow> \<not> blocks_insert excl (ce_ctime new) (chain_map es (zval_of_key new))"
    "\<exists>m. sheds (\<lambda>e. apc_cache_entry_expired cttl e (ce_ctime new)) (chain_map es) m \<and>
       m (zval_of_key new) = chain_map es (zval_of_key new) \<and>
       chain_map es' = (if ok then m(zval_of_key new \<mapsto> new) else m)"
  using insert_chain_spec' [OF assms(1,3,2)] unfolding chain_spec_def by blast+

end
