(* ===== verification/Apc_Cache_Map.thy ===== *)
theory Apc_Cache_Map imports Apc_Cache_Table begin

text \<open>
  The table seen as one map from keys to entries, what the operations leave alone, and insertion
  under the lock in these terms.
\<close>

section \<open>The table as one map\<close>

definition slot_of :: "nat \<Rightarrow> string \<Rightarrow> nat" where
  "slot_of n v = unat (zend_inline_hash_func v) mod n"

definition cmap :: "apc_cache_t \<Rightarrow> string \<Rightarrow> apc_cache_entry_t option" where
  "cmap c v = chain_map (c_slots c ! slot_of (c_nslots c) v) v"

lemma chain_map_slot:
  assumes "slot_ok n s es" "slot_of n v \<noteq> s"
  shows "chain_map es v = None"
  using assms by (auto simp: chain_map_None slot_ok_def slot_of_def)

lemma cmap_set_slot:
  assumes "table_ok c" "s < c_nslots c"
  shows "cmap (set_slot s es c) v = (if slot_of (c_nslots c) v = s then chain_map es v else cmap c v)"
  using assms by (auto simp: cmap_def set_slot_def table_ok_def nth_list_update)

lemma cmap_cong: "c_slots c' = c_slots c \<Longrightarrow> c_nslots c' = c_nslots c \<Longrightarrow> cmap c' = cmap c"
  by (simp add: cmap_def fun_eq_iff)

lemma slot_of_less: "table_ok c \<Longrightarrow> slot_of (c_nslots c) v < c_nslots c"
  by (simp add: slot_of_def table_ok_def)

lemma cmap_slot:
  assumes "table_ok c" "s < c_nslots c"
  shows "chain_map (c_slots c ! s) v = (if slot_of (c_nslots c) v = s then cmap c v else None)"
  using chain_map_slot [OF table_okD(3) [OF assms]] by (auto simp: cmap_def)

lemma cmap_entry:
  assumes "table_ok c" "cmap c v = Some e"
  shows "e \<in> set (entries c)" "zval_of_key e = v" "zs_h (ce_key e) = zend_inline_hash_func v"
proof -
  let ?s = "slot_of (c_nslots c) v"
  have s: "?s < c_nslots c" by (rule slot_of_less [OF assms(1)])
  have m: "e \<in> set (c_slots c ! ?s)" "zval_of_key e = v"
    using chain_map_mem [of "c_slots c ! ?s" v e] assms(2) by (auto simp: cmap_def)
  with s show "e \<in> set (entries c)" using entries_in_slot [of ?s c e] table_okD(2) [OF assms(1)] by simp
  from m table_okD(3) [OF assms(1) s] show "zval_of_key e = v" "zs_h (ce_key e) = zend_inline_hash_func v"
    by (auto simp: slot_ok_def)
qed

lemma entry_cmap:
  assumes "table_ok c" "e \<in> set (entries c)"
  shows "cmap c (zval_of_key e) = Some e"
proof -
  from assms(2) obtain es where es: "es \<in> set (c_slots c)" "e \<in> set es" by (auto simp: entries_def)
  then obtain s where s: "s < c_nslots c" "es = c_slots c ! s"
    using table_okD(2) [OF assms(1)] by (metis in_set_conv_nth)
  from table_okD(3) [OF assms(1) s(1)] es(2) s(2)
  have so: "slot_of (c_nslots c) (zval_of_key e) = s" "distinct (map zval_of_key es)"
    by (simp_all add: slot_ok_def slot_of_def)
  with chain_map_in [OF so(2) es(2)] s(2) show ?thesis by (simp add: cmap_def)
qed

lemma apc_cache_hash_slot_of:
  "zs_ok key \<Longrightarrow> apc_cache_hash_slot n key = (ZSTR_HASH key, slot_of n (zs_val key))"
  by (simp add: apc_cache_hash_slot_def slot_of_def zs_ok_hash)

section \<open>Frames\<close>

text \<open>What no operation on the table changes.\<close>

definition config :: "apc_cache_t \<Rightarrow> apc_cache_t" where
  "config c = c\<lparr>c_mem_size := 0, c_nentries := 0, c_gc := [], c_slots := [], c_ninserts := 0, c_nhits := 0,
     c_nmisses := 0, c_nexpunges := 0, c_stime := 0, c_lastkey := no_slam_key\<rparr>"

definition tick :: "apc_env \<Rightarrow> apc_globals \<Rightarrow> apc_globals \<Rightarrow> bool" where
  "tick ev g g' \<longleftrightarrow> g' = g \<or> g' = snd (apc_time ev g)"

definition same_config :: "apc_env \<Rightarrow> world \<Rightarrow> world \<Rightarrow> bool" where
  "same_config ev w w' \<longleftrightarrow> config (cch w') = config (cch w) \<and> cs_null (snd w') = cs_null (snd w) \<and>
     tick ev (glb w) (glb w') \<and> cs_shm (snd w') = cs_shm (snd w) \<and> sma_frame (fst w') = sma_frame (fst w)"

lemma apc_time_again [simp]: "apc_time ev (snd (apc_time ev g)) = apc_time ev g"
  by (auto simp: apc_time_def Let_def)

lemma tick_refl [simp]: "tick ev g g" "tick ev g (snd (apc_time ev g))"
  by (simp_all add: tick_def)

lemma tick_trans: "tick ev g g1 \<Longrightarrow> tick ev g1 g2 \<Longrightarrow> tick ev g g2"
  by (auto simp: tick_def)

lemma tick_time: "tick ev g g' \<Longrightarrow> apc_time ev g' = (fst (apc_time ev g), snd (apc_time ev g))"
  by (auto simp: tick_def)

lemma tickD:
  assumes "tick ev g g'"
  shows "g_entry_level g' = g_entry_level g" "g_depth g' = g_depth g"
  using assms apc_time_frame [of ev g "fst (apc_time ev g)" "snd (apc_time ev g)"] by (auto simp: tick_def)

lemma same_config_refl [simp]: "same_config ev w w"
  by (simp add: same_config_def)

lemma same_config_trans: "same_config ev w w1 \<Longrightarrow> same_config ev w1 w2 \<Longrightarrow> same_config ev w w2"
  by (auto simp: same_config_def intro: tick_trans)

lemma config_core: "core c' = core c \<Longrightarrow> config c' = config c"
proof -
  assume e: "core c' = core c"
  have k: "config k = config (core k)" for k by (simp add: config_def core_def)
  show ?thesis by (rule trans [OF k trans [OF arg_cong [where f = config, OF e] k [symmetric]]])
qed

lemma same_core_config: "same_core w w' \<Longrightarrow> same_config ev w w'"
  using config_core [of "cch w'" "cch w"] by (simp add: same_core_def same_config_def)

lemma same_config_upd: "(\<And>c. config (f c) = config c) \<Longrightarrow> same_config ev w (upd_cache f w)"
  by (simp add: same_config_def)

lemma same_config_time: "same_config ev w (upd_g (snd (apc_time ev (glb w))) w)"
  by (simp add: same_config_def)

lemma config_set_slot [simp]: "config (set_slot s es c) = config c"
  by (simp add: config_def set_slot_def)

lemma same_configD:
  assumes "same_config ev w w'"
  shows "c_nslots (cch w') = c_nslots (cch w)" "c_shmaddr (cch w') = c_shmaddr (cch w)"
    "c_ttl (cch w') = c_ttl (cch w)" "c_gc_ttl (cch w') = c_gc_ttl (cch w)" "c_lock (cch w') = c_lock (cch w)"
    "c_serializer (cch w') = c_serializer (cch w)" "c_smart (cch w') = c_smart (cch w)"
    "c_defend (cch w') = c_defend (cch w)" "cs_null (snd w') = cs_null (snd w)" "cs_shm (snd w') = cs_shm (snd w)"
    "sma_frame (fst w') = sma_frame (fst w)" "tick ev (glb w) (glb w')"
    "g_entry_level (glb w') = g_entry_level (glb w)" "g_depth (glb w') = g_depth (glb w)"
proof -
  have c: "f (config c) = f c \<Longrightarrow> f (config c') = f c' \<Longrightarrow> config c' = config c \<Longrightarrow> f c' = f c" for f c c'
    by metis
  from assms have e: "config (cch w') = config (cch w)" by (simp add: same_config_def)
  show "c_nslots (cch w') = c_nslots (cch w)" "c_shmaddr (cch w') = c_shmaddr (cch w)"
    "c_ttl (cch w') = c_ttl (cch w)" "c_gc_ttl (cch w') = c_gc_ttl (cch w)" "c_lock (cch w') = c_lock (cch w)"
    "c_serializer (cch w') = c_serializer (cch w)" "c_smart (cch w') = c_smart (cch w)"
    "c_defend (cch w') = c_defend (cch w)"
    by (rule c [OF _ _ e]; simp add: config_def)+
qed (use assms tickD [of ev "glb w" "glb w'"] in \<open>simp_all add: same_config_def\<close>)

lemma upd_cache_id [simp]: "upd_cache (\<lambda>c. c) w = w"
  by (cases w) (simp add: upd_cache_def)

lemma cache_inv_cong:
  assumes "fst w' = fst w" "c_slots (cch w') = c_slots (cch w)" "c_nslots (cch w') = c_nslots (cch w)"
    "c_gc (cch w') = c_gc (cch w)" "c_shmaddr (cch w') = c_shmaddr (cch w)"
    "c_nentries (cch w') = c_nentries (cch w)"
  shows "cache_inv X w' = cache_inv X w"
  using assms by (simp add: cache_inv_def table_ok_def holds_def entries_def addrs_def gc_addrs_def)

section \<open>Insertion and deletion under the lock\<close>

lemma gc_inv:
  assumes "cache_inv X w"
  obtains w' where "apc_cache_wlocked_gc ev w = Some w'" "cache_inv X w'" "same_core w w'"
proof -
  obtain w' where w': "apc_cache_wlocked_gc ev w = Some w'"
      "holds (length (entries (cch w))) (addrs (cch w) \<union> X) w'" "same_core w w'"
    by (rule apc_cache_wlocked_gc_ok [OF cache_invD(3) [OF assms]])
  note c = same_coreD [OF w'(3)]
  have "cache_inv X w'"
    using w'(2) cache_invD(1,2) [OF assms] by (simp add: cache_inv_def table_ok_def entries_def addrs_def c)
  with w' that show ?thesis by blast
qed

definition inserted :: "i64 \<Rightarrow> apc_cache_entry_t \<Rightarrow> bool \<Rightarrow> world \<Rightarrow> world \<Rightarrow> bool" where
  "inserted t new ok w w' \<longleftrightarrow> (\<exists>m. sheds (\<lambda>e. apc_cache_entry_expired (c_ttl (cch w)) e t) (cmap (cch w)) m \<and>
     m (zval_of_key new) = cmap (cch w) (zval_of_key new) \<and>
     cmap (cch w') = (if ok then m(zval_of_key new \<mapsto> new) else m))"

lemma wlocked_insert_ok:
  assumes inv: "cache_inv X w" and new: "ce_addr new \<in> X"
    and key: "zs_h (ce_key new) = zend_inline_hash_func (zval_of_key new)"
  obtains ok w' where "apc_cache_wlocked_insert ev new excl w = Some (ok, w')"
    "cache_inv (if ok then X - {ce_addr new} else X) w'" "same_config ev w w'"
    "ok \<longleftrightarrow> \<not> blocks_insert excl (ce_ctime new) (cmap (cch w) (zval_of_key new))"
    "inserted (ce_ctime new) new ok w w'"
proof -
  obtain w1 where w1: "apc_cache_wlocked_gc ev w = Some w1" "cache_inv X w1" "same_core w w1"
    by (rule gc_inv [OF inv])
  note c1 = same_coreD [OF w1(3)]
  let ?c = "cch w1" and ?v = "zval_of_key new"
  let ?s = "slot_of (c_nslots ?c) ?v"
  note tab = cache_invD(1) [OF w1(2)]
  have cm: "cmap ?c = cmap (cch w)" by (rule cmap_cong) (simp_all add: c1)
  have s: "?s < c_nslots ?c" by (rule slot_of_less [OF tab])
  have zk: "zs_ok (ce_key new)" "zs_val (ce_key new) = ?v" using key by (simp_all add: zs_ok_def zval_of_key_def)
  have sk: "slot_ok (c_nslots ?c) ?s [new]" using key by (simp add: slot_ok_def slot_of_def)
  obtain ok es' ds where ch: "insert_chain new excl (ZSTR_HASH (ce_key new)) (c_ttl ?c) (c_slots ?c ! ?s) = (ok, es', ds)"
    by (metis prod_cases3)
  note chs = insert_chain_spec [OF table_okD(3) [OF tab s] ch sk]
  let ?ns = "if ok then [new] else []"
  let ?f = "\<lambda>c. if ok then c\<lparr>c_mem_size := c_mem_size c + ce_mem_size new, c_nentries := c_nentries c + 1,
    c_ninserts := c_ninserts c + 1\<rparr> else c"
  have f: "bump (length ?ns) ?f" by (simp add: bump_def)
  obtain w2 where w2: "remove_all ev ds w1 = Some w2" "same_core w1 w2"
    "cache_inv (X - ce_addr ` set ?ns) (upd_cache ?f (upd_cache (set_slot ?s es') w2))"
    by (rule replace_chain [OF w1(2) s chs(2,1) _ _ f chs(3)]) (use new in \<open>auto split: if_splits\<close>)
  note c2 = same_coreD [OF w2(2)]
  define w3 where "w3 = upd_cache ?f (upd_cache (set_slot ?s es') w2)"
  have ins: "apc_cache_wlocked_insert ev new excl w = Some (ok, w3)"
    using w1(1) w2(1) ch zk
    by (auto simp: apc_cache_wlocked_insert_def apc_cache_hash_slot_of insert_walk_pure Let_def w3_def)
  have sc: "same_config ev w w3"
    unfolding w3_def
    by (rule same_config_trans [OF same_core_config [OF w1(3)] same_config_trans [OF same_core_config [OF w2(2)]
        same_config_trans [OF same_config_upd same_config_upd]]])
      (simp_all add: config_def set_slot_def)
  have iv: "cache_inv (if ok then X - {ce_addr new} else X) w3" using w2(3) by (cases ok) (simp_all add: w3_def)
  have t2: "table_ok (cch w2)" "?s < c_nslots (cch w2)"
    using tab s by (simp_all add: table_ok_def entries_def c2)
  have cm2: "cmap (cch w2) = cmap (cch w)" using cm cmap_cong [OF c2(1,2)] by simp
  have cm': "cmap (cch w3) v = (if slot_of (c_nslots ?c) v = ?s then chain_map es' v else cmap (cch w) v)" for v
  proof -
    have "cmap (cch w3) = cmap (set_slot ?s es' (cch w2))" by (rule cmap_cong) (simp_all add: w3_def)
    then show ?thesis using cmap_set_slot [OF t2] cm2 c2(2) by simp
  qed
  have "inserted (ce_ctime new) new ok w w3"
  proof -
    from chs(5) obtain m where m: "sheds (\<lambda>e. apc_cache_entry_expired (c_ttl ?c) e (ce_ctime new)) (chain_map (c_slots ?c ! ?s)) m"
      "m ?v = chain_map (c_slots ?c ! ?s) ?v" "chain_map es' = (if ok then m(?v \<mapsto> new) else m)" by blast
    let ?m = "\<lambda>v. if slot_of (c_nslots ?c) v = ?s then m v else cmap (cch w) v"
    have "sheds (\<lambda>e. apc_cache_entry_expired (c_ttl (cch w)) e (ce_ctime new)) (cmap (cch w)) ?m"
      unfolding sheds_def
    proof (intro allI, goal_cases)
      case (1 v)
      show ?case using m(1) [unfolded sheds_def cmap_slot [OF tab s] cm c1(4), THEN spec, of v]
        by (cases "slot_of (c_nslots ?c) v = ?s") simp_all
    qed
    moreover have "?m ?v = cmap (cch w) ?v" using m(2) by (simp add: cmap_slot [OF tab s] cm)
    moreover have "cmap (cch w3) = (if ok then ?m(?v \<mapsto> new) else ?m)"
      using m(3) by (auto simp: fun_eq_iff cm')
    ultimately show ?thesis unfolding inserted_def by blast
  qed
  moreover have "ok \<longleftrightarrow> \<not> blocks_insert excl (ce_ctime new) (cmap (cch w) ?v)"
    using chs(4) by (simp add: cmap_slot [OF tab s] cm)
  ultimately show ?thesis using that [OF ins iv sc] by blast
qed

end
