(* ===== verification/Apc_Cache_Expunge.thy ===== *)
theory Apc_Cache_Expunge imports Apc_Cache_Map begin

text \<open>
  Deletion, clearing and expunging in terms of the map; the sections under the lock; and the
  allocation of a block with the cache's expunge behind it.
\<close>

section \<open>Deletion under the lock\<close>

lemma delete_walk_ok:
  assumes inv: "cache_inv X w" and key: "zs_ok key"
  obtains b es' w2 where
    "delete_walk ev key (ZSTR_HASH key) (c_slots (cch w) ! slot_of (c_nslots (cch w)) (zs_val key)) w = Some (b, es', w2)"
    "cache_inv X (upd_cache (set_slot (slot_of (c_nslots (cch w)) (zs_val key)) es') w2)"
    "same_config ev w (upd_cache (set_slot (slot_of (c_nslots (cch w)) (zs_val key)) es') w2)"
    "b \<longleftrightarrow> cmap (cch w) (zs_val key) \<noteq> None"
    "cmap (cch (upd_cache (set_slot (slot_of (c_nslots (cch w)) (zs_val key)) es') w2)) = (cmap (cch w))(zs_val key := None)"
proof -
  let ?c = "cch w"
  let ?s = "slot_of (c_nslots ?c) (zs_val key)"
  note tab = cache_invD(1) [OF inv]
  have s: "?s < c_nslots ?c" by (rule slot_of_less [OF tab])
  obtain es' ds where d: "delete_chain key (ZSTR_HASH key) (c_slots ?c ! ?s) = (es', ds)" by (metis surj_pair)
  note dc = delete_chain_spec [OF table_okD(3) [OF tab s] key d]
  obtain w2 where w2: "remove_all ev ds w = Some w2" "same_core w w2"
    "cache_inv X (upd_cache (\<lambda>c. c) (upd_cache (set_slot ?s es') w2))"
    by (rule replace_chain [OF inv s _ dc(1), of ds "[]" "\<lambda>c. c"]) (use dc in \<open>simp_all add: bump_def\<close>)
  note c2 = same_coreD [OF w2(2)]
  have t2: "table_ok (cch w2)" "?s < c_nslots (cch w2)"
    using tab s by (simp_all add: table_ok_def entries_def c2)
  have cm2: "cmap (cch w2) = cmap ?c" using cmap_cong [OF c2(1,2)] by simp
  have cm: "cmap (set_slot ?s es' (cch w2)) = (cmap ?c)(zs_val key := None)"
    unfolding fun_eq_iff cmap_set_slot [OF t2] cm2 c2(2) dc(5)
    by (simp add: cmap_slot [OF tab s])
  show ?thesis
  proof (rule that [of "ds \<noteq> []" es' w2])
    show "delete_walk ev key (ZSTR_HASH key) (c_slots ?c ! ?s) w = Some (ds \<noteq> [], es', w2)"
      by (simp add: delete_walk_pure d w2(1))
    show "same_config ev w (upd_cache (set_slot ?s es') w2)"
      by (rule same_config_trans [OF same_core_config [OF w2(2)] same_config_upd]) simp
    show "ds \<noteq> [] \<longleftrightarrow> cmap ?c (zs_val key) \<noteq> None" unfolding dc(4) by (simp add: cmap_slot [OF tab s])
  qed (use w2 cm in simp_all)
qed

section \<open>Dropping entries of all slots\<close>

primrec drop_slots :: "(apc_cache_entry_t \<Rightarrow> bool) \<Rightarrow> apc_env \<Rightarrow> nat list \<Rightarrow> world \<Rightarrow> world option" where
  "drop_slots P ev [] w = Some w"
| "drop_slots P ev (i # is) w = do {
     w1 \<leftarrow> remove_all ev (filter P (c_slots (cch w) ! i)) w;
     drop_slots P ev is (upd_cache (set_slot i (filter (\<lambda>e. \<not> P e) (c_slots (cch w) ! i))) w1)
   }"

lemma remove_slots_drop: "remove_slots ev is w = drop_slots (\<lambda>_. True) ev is w"
  by (induction "is" arbitrary: w) simp_all

lemma remove_all_ttl: "remove_all ev ds w = Some w' \<Longrightarrow> c_ttl (cch w') = c_ttl (cch w)"
proof (induction ds arbitrary: w)
  case (Cons d ds)
  have "apc_cache_wlocked_remove_entry ev d w = Some w1 \<Longrightarrow> c_ttl (cch w1) = c_ttl (cch w)" for w1
    by (auto simp: apc_cache_wlocked_remove_entry_def Let_def free_entry_def cache_unaccount_def
        split: if_splits Option.bind_splits)
  with Cons show ?case by (auto split: Option.bind_splits)
qed simp

lemma junk_slots_drop:
  "junk_slots ev t is w = drop_slots (\<lambda>e. apc_cache_entry_expired (c_ttl (cch w)) e t) ev is w"
proof (induction "is" arbitrary: w)
  case (Cons i "is")
  let ?P = "\<lambda>e. apc_cache_entry_expired (c_ttl (cch w)) e t"
  show ?case
  proof (cases "remove_all ev (filter ?P (c_slots (cch w) ! i)) w")
    case (Some w1)
    then show ?thesis using remove_all_ttl [OF Some] by (simp add: junk_walk_pure Cons set_slot_def)
  qed (simp add: junk_walk_pure)
qed simp

definition keep_if :: "(apc_cache_entry_t \<Rightarrow> bool) \<Rightarrow> (string \<Rightarrow> apc_cache_entry_t option) \<Rightarrow> string \<Rightarrow>
    apc_cache_entry_t option" where
  "keep_if P m v = (case m v of None \<Rightarrow> None | Some e \<Rightarrow> if P e then Some e else None)"

lemma sheds_keep_if: "sheds P m (keep_if (\<lambda>e. \<not> P e) m)"
  by (auto simp: sheds_def keep_if_def split: option.splits)

lemma drop_slots_ok:
  assumes "cache_inv X w" "set is \<subseteq> {..<c_nslots (cch w)}"
  obtains w' where "drop_slots P ev is w = Some w'" "cache_inv X w'" "same_config ev w w'" "glb w' = glb w"
    "\<forall>v. cmap (cch w') v = (if slot_of (c_nslots (cch w)) v \<in> set is then keep_if (\<lambda>e. \<not> P e) (cmap (cch w)) v
       else cmap (cch w) v)"
  using assms
proof (induction "is" arbitrary: w thesis)
  case Nil
  then show ?case by simp
next
  case (Cons i "is")
  let ?c = "cch w"
  let ?ds = "filter P (c_slots ?c ! i)" and ?es = "filter (\<lambda>e. \<not> P e) (c_slots ?c ! i)"
  note tab = cache_invD(1) [OF Cons.prems(2)]
  have i: "i < c_nslots ?c" using Cons.prems(3) by simp
  note fc = filter_chain [OF table_okD(3) [OF tab i], of "\<lambda>e. \<not> P e"]
  have ms: "mset ?es + mset ?ds = mset (c_slots ?c ! i) + mset []"
    using multiset_partition [of "mset (c_slots ?c ! i)" P] by (simp add: add.commute)
  obtain w1 where w1: "remove_all ev ?ds w = Some w1" "same_core w w1"
    "cache_inv X (upd_cache (\<lambda>c. c) (upd_cache (set_slot i ?es) w1))"
    by (rule replace_chain [OF Cons.prems(2) i ms fc(1), of "\<lambda>c. c"]) (simp_all add: bump_def)
  note c1 = same_coreD [OF w1(2)]
  define w2 where "w2 = upd_cache (set_slot i ?es) w1"
  have t1: "table_ok (cch w1)" "i < c_nslots (cch w1)"
    using tab i by (simp_all add: table_ok_def entries_def c1)
  have n2: "c_nslots (cch w2) = c_nslots ?c" by (simp add: w2_def set_slot_def c1)
  have cm2: "cmap (cch w2) v = (if slot_of (c_nslots ?c) v = i then keep_if (\<lambda>e. \<not> P e) (cmap ?c) v else cmap ?c v)" for v
    unfolding w2_def upd_cache_simps cmap_set_slot [OF t1] c1(2) fc(3) cmap_cong [OF c1(1,2)]
    by (simp add: keep_if_def cmap_slot [OF tab i])
  have inv2: "cache_inv X w2" using w1(3) by (simp add: w2_def)
  have sub: "set is \<subseteq> {..<c_nslots (cch w2)}" using Cons.prems(3) n2 by simp
  obtain w' where w': "drop_slots P ev is w2 = Some w'" "cache_inv X w'" "same_config ev w2 w'" "glb w' = glb w2"
    "\<forall>v. cmap (cch w') v = (if slot_of (c_nslots (cch w2)) v \<in> set is then keep_if (\<lambda>e. \<not> P e) (cmap (cch w2)) v
       else cmap (cch w2) v)"
    by (rule Cons.IH [OF _ inv2 sub])
  have "same_config ev w w2" unfolding w2_def
    by (rule same_config_trans [OF same_core_config [OF w1(2)] same_config_upd]) simp
  note sc = same_config_trans [OF this w'(3)]
  have g: "glb w' = glb w" using w'(4) c1(9) by (simp add: w2_def)
  have cm: "cmap (cch w') v = (if slot_of (c_nslots ?c) v \<in> set (i # is) then keep_if (\<lambda>e. \<not> P e) (cmap ?c) v
      else cmap ?c v)" for v
    unfolding w'(5) [rule_format] n2 by (auto simp: cm2 keep_if_def split: option.splits)
  show ?case by (rule Cons.prems(1) [OF _ w'(2) sc g]) (use cm in \<open>simp_all add: w1(1) w'(1) [unfolded w2_def]\<close>)
qed

lemma drop_all_ok:
  assumes inv: "cache_inv X w"
  obtains w' where "drop_slots P ev [0..<c_nslots (cch w)] w = Some w'" "cache_inv X w'" "same_config ev w w'"
    "glb w' = glb w" "cmap (cch w') = keep_if (\<lambda>e. \<not> P e) (cmap (cch w))"
proof -
  have sub: "set [0..<c_nslots (cch w)] \<subseteq> {..<c_nslots (cch w)}" by auto
  obtain w' where w': "drop_slots P ev [0..<c_nslots (cch w)] w = Some w'" "cache_inv X w'" "same_config ev w w'"
    "glb w' = glb w" "\<forall>v. cmap (cch w') v = (if slot_of (c_nslots (cch w)) v \<in> set [0..<c_nslots (cch w)]
       then keep_if (\<lambda>e. \<not> P e) (cmap (cch w)) v else cmap (cch w) v)"
    by (rule drop_slots_ok [OF inv sub])
  have "slot_of (c_nslots (cch w)) v < c_nslots (cch w)" for v by (rule slot_of_less [OF cache_invD(1) [OF inv]])
  then have "cmap (cch w') = keep_if (\<lambda>e. \<not> P e) (cmap (cch w))" using w'(5) by (simp add: fun_eq_iff)
  with w' that show ?thesis by blast
qed

lemma real_expunge_ok:
  assumes inv: "cache_inv X w"
  obtains w' where "apc_cache_wlocked_real_expunge ev w = Some w'" "cache_inv X w'" "same_config ev w w'"
    "cmap (cch w') = (\<lambda>_. None)" "c_nentries (cch w') = 0" "c_lastkey (cch w') = no_slam_key"
proof -
  let ?w1 = "upd_cache (\<lambda>c. c\<lparr>c_nexpunges := c_nexpunges c + 1\<rparr>) w"
  have "cache_inv X ?w1" using inv cache_inv_cong [of ?w1 w X] by simp
  then obtain w2 where w2: "drop_slots (\<lambda>_. True) ev [0..<c_nslots (cch ?w1)] ?w1 = Some w2" "cache_inv X w2"
    "same_config ev ?w1 w2" "glb w2 = glb ?w1" "cmap (cch w2) = keep_if (\<lambda>e. \<not> True) (cmap (cch ?w1))"
    by (rule drop_all_ok)
  let ?f = "\<lambda>c. c\<lparr>c_stime := fst (apc_time ev (glb w2)), c_ninserts := 0, c_nentries := 0, c_nhits := 0,
                  c_nmisses := 0, c_lastkey := no_slam_key\<rparr>"
  define w' where "w' = upd_cache ?f (upd_g (snd (apc_time ev (glb w2))) w2)"
  note cc = cmap_cong [of "cch w'" "cch w2"]
  have cm2: "cmap (cch w2) = (\<lambda>_. None)" unfolding w2(5) by (auto simp: keep_if_def fun_eq_iff split: option.split)
  have no: "entries (cch w2) = []"
    using entry_cmap [OF cache_invD(1) [OF w2(2)]] cm2 by (cases "entries (cch w2)") fastforce+
  have n0: "c_nentries (cch w2) = 0" using holdsD(8) [OF cache_invD(3) [OF w2(2)]] no by simp
  have "cache_inv X w'" using w2(2) cache_inv_cong [of w' w2 X] n0 by (simp add: w'_def)
  moreover have "same_config ev w w'"
  proof -
    have a: "same_config ev w ?w1" by (rule same_config_upd) (simp add: config_def)
    have b: "same_config ev w2 w'" unfolding w'_def by (simp add: same_config_def config_def)
    show ?thesis by (rule same_config_trans [OF a same_config_trans [OF w2(3) b]])
  qed
  moreover have "apc_cache_wlocked_real_expunge ev w = Some w'"
    using w2(1) by (simp add: apc_cache_wlocked_real_expunge_def remove_slots_drop Let_def case_prod_unfold w'_def)
  ultimately show ?thesis using that [of w'] cc cm2 by (simp add: w'_def)
qed

section \<open>The entries a pass leaves to its readers\<close>

lemma drop_slots_gc:
  assumes "drop_slots P ev is w = Some w'" "distinct is" "\<forall>i \<in> set is. i < length (c_slots (cch w))"
  shows "c_gc (cch w') = parked ev (filter P (concat (map (\<lambda>i. c_slots (cch w) ! i) is))) @ c_gc (cch w)"
  using assms
proof (induction "is" arbitrary: w)
  case (Cons i "is")
  then obtain w1 where w1: "remove_all ev (filter P (c_slots (cch w) ! i)) w = Some w1"
    and r: "drop_slots P ev is (upd_cache (set_slot i (filter (\<lambda>e. \<not> P e) (c_slots (cch w) ! i))) w1) = Some w'"
    by (auto split: Option.bind_splits)
  note g = remove_all_parks [OF w1]
  let ?w2 = "upd_cache (set_slot i (filter (\<lambda>e. \<not> P e) (c_slots (cch w) ! i))) w1"
  have e: "concat (map (\<lambda>j. c_slots (cch ?w2) ! j) is) = concat (map (\<lambda>j. c_slots (cch w) ! j) is)"
    using Cons.prems(2,3) g by (intro arg_cong [where f = concat] map_cong) (auto simp: set_slot_def nth_list_update)
  have "\<forall>j \<in> set is. j < length (c_slots (cch ?w2))" using Cons.prems(3) g by (simp add: set_slot_def)
  moreover have "distinct is" using Cons.prems(2) by simp
  ultimately show ?case using Cons.IH [OF r] g unfolding e by (simp add: set_slot_def)
qed simp

lemma drop_all_gc:
  assumes "cache_inv X w" "drop_slots P ev [0..<c_nslots (cch w)] w = Some w'"
  shows "c_gc (cch w') = parked ev (filter P (entries (cch w))) @ c_gc (cch w)"
proof -
  have n: "c_nslots (cch w) = length (c_slots (cch w))" using table_okD(2) [OF cache_invD(1) [OF assms(1)]] by simp
  show ?thesis using drop_slots_gc [OF assms(2)] by (simp add: n map_nth entries_def)
qed

lemma real_expunge_gc:
  assumes inv: "cache_inv X w" and r: "apc_cache_wlocked_real_expunge ev w = Some w'"
  shows "c_gc (cch w') = parked ev (entries (cch w)) @ c_gc (cch w)"
proof -
  let ?w1 = "upd_cache (\<lambda>c. c\<lparr>c_nexpunges := c_nexpunges c + 1\<rparr>) w"
  obtain w2 where w2: "drop_slots (\<lambda>_. True) ev [0..<c_nslots (cch ?w1)] ?w1 = Some w2" "c_gc (cch w') = c_gc (cch w2)"
    using r by (auto simp: apc_cache_wlocked_real_expunge_def remove_slots_drop Let_def case_prod_unfold split: Option.bind_splits)
  have "cache_inv X ?w1" using inv cache_inv_cong [of ?w1 w X] by simp
  from drop_all_gc [OF this w2(1)] w2(2) show ?thesis by (simp add: entries_def)
qed

end
