(* ===== verification/Apc_Cache_Alloc.thy ===== *)
theory Apc_Cache_Alloc imports Apc_Cache_Expunge begin

text \<open>
  The sections under the cache's lock, the expunge the allocator calls, and what an allocation
  and \<open>apc_persist\<close> do to the cache.
\<close>

section \<open>Sections under the lock\<close>

definition relock :: "apc_lock_t \<Rightarrow> int \<Rightarrow> world \<Rightarrow> world" where
  "relock l d w = upd_g ((glb w)\<lparr>g_depth := d\<rparr>) (upd_cache (\<lambda>c. c\<lparr>c_lock := l\<rparr>) w)"

lemma relock_simps [simp]:
  "fst (relock l d w) = fst w" "cch (relock l d w) = (cch w)\<lparr>c_lock := l\<rparr>"
  "glb (relock l d w) = (glb w)\<lparr>g_depth := d\<rparr>" "cs_null (snd (relock l d w)) = cs_null (snd w)"
  "cs_shm (snd (relock l d w)) = cs_shm (snd w)"
  by (simp_all add: relock_def)

lemma relock_same [simp]: "relock (c_lock (cch w)) (g_depth (glb w)) w = w"
  by (cases w) (simp add: relock_def upd_g_def upd_cache_def)

lemma relock_id: "c_lock (cch w) = l \<Longrightarrow> g_depth (glb w) = d \<Longrightarrow> relock l d w = w"
  using relock_same [of w] by simp

lemma relock_twice [simp]: "relock l d (relock l' d' w) = relock l d w"
  by (cases w) (simp add: relock_def upd_g_def upd_cache_def)

lemma cmap_lock [simp]: "cmap (c\<lparr>c_lock := l\<rparr>) = cmap c"
  by (rule cmap_cong) simp_all

lemma cache_inv_relock [simp]: "cache_inv X (relock l d w) = cache_inv X w"
  by (rule cache_inv_cong) simp_all

text \<open>The process does not hold the lock, or holds it through \<open>apcu_entry\<close>.\<close>

definition lock_ready :: "world \<Rightarrow> bool" where
  "lock_ready w \<longleftrightarrow> g_entry_level (glb w) = 0 \<longrightarrow> lock_idle (c_lock (cch w))"

definition lock_works :: "world \<Rightarrow> bool" where
  "lock_works w \<longleftrightarrow> g_entry_level (glb w) = 0 \<longrightarrow> \<not> lk_broken (c_lock (cch w))"

lemma wsection:
  assumes "lock_ready w"
  obtains (failed) "\<not> lock_works w" "apc_cache_wlock w = Some (False, w)"
  | (locked) l d where "lock_works w" "apc_cache_wlock w = Some (True, relock l d w)"
      "\<forall>w2. c_lock (cch w2) = l \<longrightarrow> g_depth (glb w2) = d \<longrightarrow> g_entry_level (glb w2) = g_entry_level (glb w) \<longrightarrow>
         apc_cache_wunlock w2 = Some (relock (c_lock (cch w)) (g_depth (glb w)) w2)"
proof (cases "g_entry_level (glb w) = 0")
  case True
  then have idle: "lock_idle (c_lock (cch w))" using assms by (simp add: lock_ready_def)
  show ?thesis
  proof (cases "lk_broken (c_lock (cch w))")
    case True
    with failed show ?thesis using \<open>g_entry_level (glb w) = 0\<close> relock_same [of w]
      by (simp add: apc_cache_wlock_def lock_works_def lock_defs relock_def)
  next
    case False
    then have lk: "c_lock (cch w) = \<lparr>lk_broken = False, lk_readers = 0, lk_writer = False\<rparr>"
      using idle by (cases "c_lock (cch w)") (simp add: lock_idle_def)
    show ?thesis
      by (rule locked [of "\<lparr>lk_broken = False, lk_readers = 0, lk_writer = True\<rparr>" "g_depth (glb w) + 1"])
        (use True lk in \<open>auto simp: apc_cache_wlock_def apc_cache_wunlock_def lock_works_def lock_defs relock_def\<close>)
  qed
next
  case False
  then show ?thesis
    by (intro locked [of "c_lock (cch w)" "g_depth (glb w)"])
      (simp_all add: lock_works_def apc_cache_wlock_def apc_cache_wunlock_def relock_id)
qed

lemma rsection:
  assumes "lock_ready w"
  obtains (failed) "\<not> lock_works w" "apc_cache_rlock w = Some (False, w)"
  | (locked) l d where "lock_works w" "apc_cache_rlock w = Some (True, relock l d w)"
      "\<forall>w2. c_lock (cch w2) = l \<longrightarrow> g_depth (glb w2) = d \<longrightarrow> g_entry_level (glb w2) = g_entry_level (glb w) \<longrightarrow>
         apc_cache_runlock w2 = Some (relock (c_lock (cch w)) (g_depth (glb w)) w2)"
proof (cases "g_entry_level (glb w) = 0")
  case True
  then have idle: "lock_idle (c_lock (cch w))" using assms by (simp add: lock_ready_def)
  show ?thesis
  proof (cases "lk_broken (c_lock (cch w))")
    case True
    with failed show ?thesis using \<open>g_entry_level (glb w) = 0\<close> relock_same [of w]
      by (simp add: apc_cache_rlock_def lock_works_def lock_defs relock_def)
  next
    case False
    then have lk: "c_lock (cch w) = \<lparr>lk_broken = False, lk_readers = 0, lk_writer = False\<rparr>"
      using idle by (cases "c_lock (cch w)") (simp add: lock_idle_def)
    show ?thesis
      by (rule locked [of "\<lparr>lk_broken = False, lk_readers = 1, lk_writer = False\<rparr>" "g_depth (glb w) + 1"])
        (use True lk in \<open>auto simp: apc_cache_rlock_def apc_cache_runlock_def lock_works_def lock_defs relock_def\<close>)
  qed
next
  case False
  then show ?thesis
    by (intro locked [of "c_lock (cch w)" "g_depth (glb w)"])
      (simp_all add: lock_works_def apc_cache_rlock_def apc_cache_runlock_def relock_id)
qed

lemma same_config_relock:
  assumes "same_config ev (relock l d w) w2"
  shows "same_config ev w (relock (c_lock (cch w)) (g_depth (glb w)) w2)"
proof -
  note c = same_configD [OF assms]
  have k: "config (c\<lparr>c_lock := x\<rparr>) = (config c)\<lparr>c_lock := x\<rparr>" for c x by (simp add: config_def)
  have "config (cch w2) = config ((cch w)\<lparr>c_lock := l\<rparr>)" using assms by (simp add: same_config_def)
  then have "config ((cch w2)\<lparr>c_lock := c_lock (cch w)\<rparr>) = (config (cch w))\<lparr>c_lock := c_lock (cch w)\<rparr>"
    unfolding k by simp
  also have "\<dots> = config (cch w)" by (cases "cch w") (simp add: config_def)
  finally have 1: "config ((cch w2)\<lparr>c_lock := c_lock (cch w)\<rparr>) = config (cch w)" .
  have "tick ev ((glb w)\<lparr>g_depth := d\<rparr>) (glb w2)" using c(12) by simp
  then have 2: "tick ev (glb w) ((glb w2)\<lparr>g_depth := g_depth (glb w)\<rparr>)"
    by (auto simp: tick_def apc_time_def Let_def)
  show ?thesis using 1 2 c by (simp add: same_config_def)
qed

lemma lock_ready_config: "same_config ev w w' \<Longrightarrow> lock_ready w' = lock_ready w"
  using same_configD(5,13) [of ev w w'] by (simp add: lock_ready_def)

lemma lock_works_config: "same_config ev w w' \<Longrightarrow> lock_works w' = lock_works w"
  using same_configD(5,13) [of ev w w'] by (simp add: lock_works_def)

section \<open>The expunge\<close>

lemma sheds_all [simp]: "sheds (\<lambda>_. True) m (\<lambda>_. None)"
  unfolding sheds_def by (metis option.exhaust)

text \<open>The choice that \<open>apc_cache_default_expunge\<close> makes once it has the lock.\<close>

definition make_room :: "bool \<Rightarrow> apc_env \<Rightarrow> i64 \<Rightarrow> nat \<Rightarrow> world \<Rightarrow> world option" where
  "make_room low ev t sz w =
     (if c_ttl (cch w) = 0
      then (if low then apc_cache_wlocked_real_expunge ev w else Some w)
      else (if low
            then do {
              w4 \<leftarrow> junk_slots ev t [0..<c_nslots (cch w)] w;
              if apc_sma_get_avail_size (fst w4) sz
              then Some (upd_cache (\<lambda>c. c\<lparr>c_lastkey := no_slam_key\<rparr>) w4)
              else apc_cache_wlocked_real_expunge ev w4
            }
            else Some w))"

lemma default_expunge_split:
  "apc_cache_default_expunge ev w sz =
     (if cs_null (snd w) then Some w
      else do {
        (ok, w1) \<leftarrow> apc_cache_wlock (upd_g (snd (apc_time ev (glb w))) w);
        if \<not> ok then Some w1
        else do {
          w2 \<leftarrow> apc_cache_wlocked_gc ev w1;
          w3 \<leftarrow> make_room (apc_sma_get_avail_mem (fst w2) < expunge_suitable w1 sz) ev (fst (apc_time ev (glb w))) sz w2;
          apc_cache_wunlock w3
        }
      })"
  unfolding apc_cache_default_expunge_def make_room_def Let_def case_prod_unfold by (rule refl)

lemma make_room_ok:
  assumes inv: "cache_inv X w"
  obtains w' where "make_room low ev t n w = Some w'" "cache_inv X w'" "same_config ev w w'"
    "sheds (\<lambda>_. True) (cmap (cch w)) (cmap (cch w'))"
proof -
  consider (enough) "\<not> low" | (clear) "low" "c_ttl (cch w) = 0" | (junk) "low" "c_ttl (cch w) \<noteq> 0" by blast
  then show thesis
  proof cases
    case enough
    then show thesis by (intro that [of w]) (use inv in \<open>simp_all add: make_room_def\<close>)
  next
    case clear
    obtain w3 where "apc_cache_wlocked_real_expunge ev w = Some w3" "cache_inv X w3" "same_config ev w w3"
      "cmap (cch w3) = (\<lambda>_. None)"
      by (rule real_expunge_ok [OF inv])
    then show thesis by (intro that [of w3]) (use clear in \<open>simp_all add: make_room_def\<close>)
  next
    case junk
    let ?P = "\<lambda>e. apc_cache_entry_expired (c_ttl (cch w)) e t"
    obtain w4 where w4: "drop_slots ?P ev [0..<c_nslots (cch w)] w = Some w4" "cache_inv X w4" "same_config ev w w4"
      "cmap (cch w4) = keep_if (\<lambda>e. \<not> ?P e) (cmap (cch w))"
      by (rule drop_all_ok [OF inv])
    show thesis
    proof (cases "apc_sma_get_avail_size (fst w4) n")
      case True
      let ?w5 = "upd_cache (\<lambda>c. c\<lparr>c_lastkey := no_slam_key\<rparr>) w4"
      have i5: "cache_inv X ?w5" using w4(2) cache_inv_cong [of ?w5 w4 X] by simp
      have s5: "same_config ev w ?w5" by (rule same_config_trans [OF w4(3) same_config_upd]) (simp add: config_def)
      have cm5: "cmap (cch ?w5) = cmap (cch w4)" by (rule cmap_cong) simp_all
      have sh5: "sheds (\<lambda>_. True) (cmap (cch w)) (cmap (cch ?w5))"
        unfolding cm5 w4(4) by (rule sheds_mono [OF sheds_keep_if]) simp
      show thesis by (rule that [OF _ i5 s5 sh5]) (use junk True w4(1) in \<open>simp add: make_room_def junk_slots_drop\<close>)
    next
      case False
      obtain w5 where "apc_cache_wlocked_real_expunge ev w4 = Some w5" "cache_inv X w5" "same_config ev w4 w5"
        "cmap (cch w5) = (\<lambda>_. None)"
        by (rule real_expunge_ok [OF w4(2)])
      then show thesis
        by (intro that [of w5]) (use junk False w4(1) same_config_trans [OF w4(3)] in \<open>simp_all add: make_room_def junk_slots_drop\<close>)
    qed
  qed
qed

lemma default_expunge_ok:
  assumes inv: "cache_inv X w" and lk: "lock_ready w" and nn: "\<not> cs_null (snd w)"
  obtains w' where "apc_cache_default_expunge ev w n = Some w'" "cache_inv X w'" "same_config ev w w'"
    "sheds (\<lambda>_. True) (cmap (cch w)) (cmap (cch w'))"
proof -
  let ?t = "fst (apc_time ev (glb w))" and ?w0 = "upd_g (snd (apc_time ev (glb w))) w"
  have inv0: "cache_inv X ?w0" using inv cache_inv_cong [of ?w0 w X] by simp
  have sc0: "same_config ev w ?w0" by (simp add: same_config_def tick_def)
  have lk0: "lock_ready ?w0" using lk lock_ready_config [OF sc0] by simp
  show ?thesis
  proof (cases rule: wsection [OF lk0])
    case 1
    then show ?thesis
      by (intro that [of ?w0]) (use nn inv0 sc0 in \<open>simp_all add: default_expunge_split\<close>)
  next
    case (2 l d)
    let ?w1 = "relock l d ?w0"
    have inv1: "cache_inv X ?w1" using inv0 by simp
    obtain w2 where w2: "apc_cache_wlocked_gc ev ?w1 = Some w2" "cache_inv X w2" "same_core ?w1 w2"
      by (rule gc_inv [OF inv1])
    note c2 = same_coreD [OF w2(3)] and sc2 = same_core_config [OF w2(3), of ev]
    have cm2: "cmap (cch w2) = cmap (cch w)" using cmap_cong [OF c2(1,2)] by simp
    obtain w3 where w3: "make_room (apc_sma_get_avail_mem (fst w2) < expunge_suitable ?w1 n) ev ?t n w2 = Some w3" "cache_inv X w3"
      "same_config ev w2 w3" "sheds (\<lambda>_. True) (cmap (cch w2)) (cmap (cch w3))" by (rule make_room_ok [OF w2(2)])
    let ?w' = "relock (c_lock (cch ?w0)) (g_depth (glb ?w0)) w3"
    have sc3: "same_config ev ?w1 w3" by (rule same_config_trans [OF sc2 w3(3)])
    have "c_lock (cch w3) = l" "g_depth (glb w3) = d" "g_entry_level (glb w3) = g_entry_level (glb ?w0)"
      using same_configD(5,13,14) [OF sc3] by simp_all
    with 2(3) have "apc_cache_wunlock w3 = Some ?w'" by blast
    then have "apc_cache_default_expunge ev w n = Some ?w'"
      using nn 2(2) w2(1) w3(1) by (simp add: default_expunge_split)
    moreover have "same_config ev w ?w'" by (rule same_config_trans [OF sc0 same_config_relock [OF sc3]])
    ultimately show ?thesis using that [of ?w'] w3(2,4) cm2 by simp
  qed
qed

section \<open>Allocation\<close>

text \<open>What any allocation leaves true of the cache the process started from.\<close>

definition shed_from :: "nat set \<Rightarrow> apc_env \<Rightarrow> world \<Rightarrow> world \<Rightarrow> bool" where
  "shed_from X ev w w' \<longleftrightarrow> cache_inv X w' \<and> same_config ev w w' \<and> sheds (\<lambda>_. True) (cmap (cch w)) (cmap (cch w'))"

lemma cache_inv_sma: "cache_inv X w \<Longrightarrow> sma_usable (fst w)"
  by (simp add: cache_inv_def holds_def)

lemma expunge_keeps_cache:
  assumes lk: "lock_ready w" and nn: "\<not> cs_null (snd w)"
  shows "expunge_keeps (shed_from X ev w) (apc_cache_default_expunge ev)"
  unfolding expunge_keeps_def
proof (intro conjI allI impI)
  fix s assume s: "shed_from X ev w s"
  then have c: "cache_inv X s" "same_config ev w s" "sheds (\<lambda>_. True) (cmap (cch w)) (cmap (cch s))"
    by (simp_all add: shed_from_def)
  show "sma_ok (fst s)" using cache_inv_sma [OF c(1)] by (simp add: sma_usable_def)
  show "\<exists>s'. apc_cache_default_expunge ev s n = Some s' \<and> shed_from X ev w s' \<and> sma_frame (fst s') = sma_frame (fst s)" for n
  proof (rule default_expunge_ok [OF c(1), of ev n])
    show "lock_ready s" "\<not> cs_null (snd s)" using lk nn lock_ready_config [OF c(2)] same_configD(9) [OF c(2)] by simp_all
    fix s' assume s': "apc_cache_default_expunge ev s n = Some s'" "cache_inv X s'" "same_config ev s s'"
      "sheds (\<lambda>_. True) (cmap (cch s)) (cmap (cch s'))"
    then show ?thesis
      using c same_config_trans [OF c(2) s'(3)] sheds_trans [OF c(3) s'(4)] same_configD(11) [OF s'(3)]
      by (simp add: shed_from_def)
  qed
qed

lemma take_block:
  assumes inv: "cache_inv X w" and g: "sma_gave n (fst w) p l sma'" and us: "sma_frame sma' = sma_frame (fst w)"
  shows "cache_inv (insert p X) (sma', snd w)" "p \<notin> X"
proof -
  note h = cache_invD(3) [OF inv] and hd = holdsD [OF cache_invD(3) [OF inv]]
  from g have p: "p \<notin> fst ` sma_live (fst w)" "sma_live sma' = insert (p, l) (sma_live (fst w))" "sma_ok sma'"
    by (simp_all add: sma_gave_def)
  have u: "sma_usable sma'" by (rule sma_usable_frame [OF hd(1) p(3) us])
  have fr: "p \<noteq> c_shmaddr (cch w)" "p \<notin> addrs (cch w) \<union> X" "p \<notin> set (gc_addrs w)" using p(1) hd(3) by auto
  have "card (addrs (cch w) \<union> X) \<le> card (addrs (cch w) \<union> insert p X)"
    using holds_card(1) [OF h] by (intro card_mono) auto
  then have "holds (length (entries (cch w))) (addrs (cch w) \<union> insert p X) (sma', snd w)"
    using hd p(2) u fr by (auto simp: holds_def gc_addrs_def)
  then show "cache_inv (insert p X) (sma', snd w)" "p \<notin> X"
    using inv fr by (auto simp: cache_inv_def)
qed

lemma cache_malloc_ok:
  assumes inv: "cache_inv X w" and lk: "lock_ready w" and nn: "\<not> cs_null (snd w)" and n: "n + 39 < SIZE_LIMIT"
  obtains (none) w' where "cache_malloc ev w n = Some (0, w')" "shed_from X ev w w'"
  | (some) p w' where "cache_malloc ev w n = Some (p, w')" "p \<noteq> 0" "p \<notin> X" "shed_from (insert p X) ev w w'"
proof -
  note ex = expunge_keeps_cache [OF lk nn, of X ev]
  have I: "shed_from X ev w w" using inv by (simp add: shed_from_def)
  show ?thesis
  proof (cases rule: apc_sma_malloc_ex_ok [OF ex I n, of 0])
    case (1 i s')
    then show ?thesis using none by (simp add: cache_malloc_def apc_sma_malloc_def)
  next
    case (2 s')
    then show ?thesis using none by (simp add: cache_malloc_def apc_sma_malloc_def)
  next
    case (3 p l s0 sma')
    let ?w' = "(sma', snd s0)"
    have s0: "cache_inv X s0" "same_config ev w s0" "sheds (\<lambda>_. True) (cmap (cch w)) (cmap (cch s0))"
      using 3(2) by (simp_all add: shed_from_def)
    have fr: "sma_frame sma' = sma_frame (fst s0)" using 3(5) same_configD(11) [OF s0(2)] by simp
    note tb = take_block [OF s0(1) 3(4) fr]
    have "same_config ev w ?w'" using s0(2) 3(5) by (simp add: same_config_def)
    then have "shed_from (insert p X) ev w ?w'" using tb(1) s0(3) by (simp add: shed_from_def)
    moreover have "p \<noteq> 0" using 3(4) by (simp add: sma_gave_def)
    ultimately show ?thesis using some [of p ?w'] tb(2) 3(1) by (simp add: cache_malloc_def apc_sma_malloc_def)
  qed
qed

end
