(* ===== verification/Apc_Persist_Graph.thy ===== *)
theory Apc_Persist_Graph imports Apc_Persist_Props begin

text \<open>
  When two values in two stores are the same: there is a map \<open>M\<close> from the structures of the one to
  those of the other under which contents agree. Copying with memoization builds such a map; the
  vocabulary here is shared by the copy into shared memory and the copy out of it.
\<close>

section \<open>Translation along a map of addresses\<close>

definition tr :: "(nat \<rightharpoonup> nat) \<Rightarrow> zval \<Rightarrow> zval option" where
  "tr M v = (case v of
       IS_STRING a \<Rightarrow> map_option IS_STRING (M a)
     | IS_ARRAY a \<Rightarrow> map_option IS_ARRAY (M a)
     | IS_REFERENCE a \<Rightarrow> map_option IS_REFERENCE (M a)
     | _ \<Rightarrow> if z_simple v then Some v else None)"

definition key_eq :: "(nat \<rightharpoonup> counted) \<Rightarrow> nat \<Rightarrow> (nat \<rightharpoonup> counted) \<Rightarrow> nat \<Rightarrow> bool" where
  "key_eq src k dst k' \<longleftrightarrow>
     (if k = 0 then k' = 0
      else k' \<noteq> 0 \<and> (\<exists>s s'. src k = Some (CStr s) \<and> dst k' = Some (CStr s') \<and> zs_val s' = zs_val s))"

text \<open>An unused bucket corresponds to any unused bucket.\<close>

definition bucket_eq :: "(nat \<rightharpoonup> nat) \<Rightarrow> (nat \<rightharpoonup> counted) \<Rightarrow> (nat \<rightharpoonup> counted) \<Rightarrow> bucket \<Rightarrow> bucket \<Rightarrow> bool" where
  "bucket_eq M src dst p q \<longleftrightarrow> tr M (bk_val p) = Some (bk_val q) \<and>
     (bk_val p \<noteq> IS_UNDEF \<longrightarrow> bk_h q = bk_h p \<and> key_eq src (bk_key p) dst (bk_key q))"

text \<open>A table marked static must have no key that is a string.\<close>

definition static :: "hash_table \<Rightarrow> bool" where
  "static ht \<longleftrightarrow> ht_flags ht AND HASH_FLAG_STATIC_KEYS \<noteq> 0"

lemma static_clear [simp]: "\<not> static (ht\<lparr>ht_flags := f AND NOT HASH_FLAG_STATIC_KEYS\<rparr>)"
  by (simp add: static_def and.assoc)

lemma static_fields [simp]:
  "static (ht\<lparr>ht_data := d\<rparr>) = static ht" "static (ht\<lparr>ht_next := n\<rparr>) = static ht" "static (ht\<lparr>ht_internal := i\<rparr>) = static ht"
  by (simp_all add: static_def)

definition keyed :: "bucket \<Rightarrow> bool" where
  "keyed p \<longleftrightarrow> bk_val p \<noteq> IS_UNDEF \<and> bk_key p \<noteq> 0"

definition marks_ok :: "hash_table \<Rightarrow> bool" where
  "marks_ok ht \<longleftrightarrow> static ht \<longrightarrow> (\<forall>q \<in> set (ht_data ht). \<not> keyed q)"

definition table_eq :: "(nat \<rightharpoonup> nat) \<Rightarrow> (nat \<rightharpoonup> counted) \<Rightarrow> (nat \<rightharpoonup> counted) \<Rightarrow> hash_table \<Rightarrow> hash_table \<Rightarrow> bool" where
  "table_eq M src dst ht ht' \<longleftrightarrow> ht_num_elements ht' = ht_num_elements ht \<and> marks_ok ht' \<and>
     list_all2 (bucket_eq M src dst) (ht_data ht) (ht_data ht')"

definition struct_eq :: "(nat \<rightharpoonup> nat) \<Rightarrow> (nat \<rightharpoonup> counted) \<Rightarrow> nat \<Rightarrow> (nat \<rightharpoonup> counted) \<Rightarrow> nat \<Rightarrow> bool" where
  "struct_eq M src a dst b \<longleftrightarrow>
     (case (src a, dst b) of
        (Some (CStr s), Some (CStr s')) \<Rightarrow> zs_val s' = zs_val s
      | (Some (CArr ht), Some (CArr ht')) \<Rightarrow> table_eq M src dst ht ht'
      | (Some (CRef v), Some (CRef v')) \<Rightarrow> tr M v = Some v'
      | _ \<Rightarrow> False)"

definition same_graph :: "(nat \<rightharpoonup> nat) \<Rightarrow> (nat \<rightharpoonup> counted) \<Rightarrow> (nat \<rightharpoonup> counted) \<Rightarrow> bool" where
  "same_graph M src dst \<longleftrightarrow> (\<forall>a b. M a = Some b \<longrightarrow> struct_eq M src a dst b)"

definition same_value :: "heap \<Rightarrow> zval \<Rightarrow> heap \<Rightarrow> zval \<Rightarrow> bool" where
  "same_value hp v hp' v' \<longleftrightarrow> (\<exists>M. same_graph M (hp_get hp) (hp_get hp') \<and> tr M v = Some v')"

section \<open>Monotonicity and composition\<close>

lemma tr_simple [simp]: "z_simple v \<Longrightarrow> tr M v = Some v"
  by (cases v) (simp_all add: tr_def)

lemma tr_simps [simp]:
  "tr M (IS_STRING a) = map_option IS_STRING (M a)" "tr M (IS_ARRAY a) = map_option IS_ARRAY (M a)"
  "tr M (IS_REFERENCE a) = map_option IS_REFERENCE (M a)"
  by (simp_all add: tr_def)

lemma tr_undef: "tr M v = Some IS_UNDEF \<longleftrightarrow> v = IS_UNDEF"
  by (cases v) (auto simp: tr_def)

lemma tr_mono: "M \<subseteq>\<^sub>m M' \<Longrightarrow> tr M v = Some v' \<Longrightarrow> tr M' v = Some v'"
  by (cases v) (auto simp: tr_def map_le_def dom_def split: if_splits)

lemma map_leD: "m \<subseteq>\<^sub>m m' \<Longrightarrow> m a = Some b \<Longrightarrow> m' a = Some b"
  by (metis domI map_le_def)

lemma key_eq_mono: "dst \<subseteq>\<^sub>m dst' \<Longrightarrow> key_eq src k dst k' \<Longrightarrow> key_eq src k dst' k'"
  by (auto simp: key_eq_def split: if_splits dest: map_leD)

lemma bucket_eq_mono:
  "M \<subseteq>\<^sub>m M' \<Longrightarrow> dst \<subseteq>\<^sub>m dst' \<Longrightarrow> bucket_eq M src dst p q \<Longrightarrow> bucket_eq M' src dst' p q"
  by (auto simp: bucket_eq_def intro: tr_mono key_eq_mono)

lemma buckets_eq_mono:
  "M \<subseteq>\<^sub>m M' \<Longrightarrow> dst \<subseteq>\<^sub>m dst' \<Longrightarrow> list_all2 (bucket_eq M src dst) ps qs \<Longrightarrow> list_all2 (bucket_eq M' src dst') ps qs"
  by (erule list_all2_mono) (rule bucket_eq_mono)

lemma struct_eq_mono:
  assumes "M \<subseteq>\<^sub>m M'" "dst \<subseteq>\<^sub>m dst'" "struct_eq M src a dst b"
  shows "struct_eq M' src a dst' b"
proof -
  from assms(3) obtain c where c: "dst b = Some c" by (auto simp: struct_eq_def split: option.splits counted.splits)
  have c': "dst' b = Some c" by (rule map_leD [OF assms(2) c])
  show ?thesis
    using assms(3) tr_mono [OF assms(1)] buckets_eq_mono [OF assms(1,2)]
    by (simp add: struct_eq_def c c' table_eq_def split: option.splits counted.splits)
qed

lemma tr_comp: "tr M v = Some v1 \<Longrightarrow> tr N v1 = Some v2 \<Longrightarrow> tr (N \<circ>\<^sub>m M) v = Some v2"
  by (cases v) (auto simp: tr_def map_comp_def split: if_splits)

lemma key_eq_comp: "key_eq g1 k1 g2 k2 \<Longrightarrow> key_eq g2 k2 g3 k3 \<Longrightarrow> key_eq g1 k1 g3 k3"
  by (auto simp: key_eq_def split: if_splits)

lemma bucket_eq_comp:
  "bucket_eq M g1 g2 p q \<Longrightarrow> bucket_eq N g2 g3 q r \<Longrightarrow> bucket_eq (N \<circ>\<^sub>m M) g1 g3 p r"
  by (auto simp: bucket_eq_def tr_undef intro: tr_comp key_eq_comp)

lemma struct_eq_comp:
  assumes "struct_eq M g1 a g2 b" "struct_eq N g2 b g3 c"
  shows "struct_eq (N \<circ>\<^sub>m M) g1 a g3 c"
proof -
  have "list_all2 (bucket_eq (N \<circ>\<^sub>m M) g1 g3) ps rs"
    if "list_all2 (bucket_eq M g1 g2) ps qs" "list_all2 (bucket_eq N g2 g3) qs rs" for ps qs rs
    by (rule list_all2_trans [OF _ that]) (rule bucket_eq_comp)
  with assms show ?thesis
    by (auto simp: struct_eq_def table_eq_def intro: tr_comp split: option.splits counted.splits)
qed

lemma same_graph_comp: "same_graph M g1 g2 \<Longrightarrow> same_graph N g2 g3 \<Longrightarrow> same_graph (N \<circ>\<^sub>m M) g1 g3"
  unfolding same_graph_def map_comp_Some_iff by (metis struct_eq_comp)

lemma same_value_trans: "same_value h1 v1 h2 v2 \<Longrightarrow> same_value h2 v2 h3 v3 \<Longrightarrow> same_value h1 v1 h3 v3"
  by (auto simp: same_value_def intro: same_graph_comp tr_comp)

section \<open>Growing a copy\<close>

text \<open>
  From \<open>(M, dst)\<close> to \<open>(M', dst')\<close> the copier used the addresses from \<open>c\<close> up to \<open>c'\<close> and wrote nothing
  else; every structure it added to the map lies there with its contents.
\<close>

definition grows ::
  "(nat \<rightharpoonup> counted) \<Rightarrow> (nat \<rightharpoonup> nat) \<Rightarrow> (nat \<rightharpoonup> counted) \<Rightarrow> nat \<Rightarrow> (nat \<rightharpoonup> nat) \<Rightarrow> (nat \<rightharpoonup> counted) \<Rightarrow> nat \<Rightarrow> bool" where
  "grows src M dst c M' dst' c' \<longleftrightarrow> M \<subseteq>\<^sub>m M' \<and> c \<le> c' \<and> (\<forall>x. x \<notin> {c..<c'} \<longrightarrow> dst' x = dst x) \<and>
     (\<forall>a. a \<in> dom M' - dom M \<longrightarrow> (\<exists>b. M' a = Some b \<and> c \<le> b \<and> b < c' \<and> struct_eq M' src a (dst' |` {c..<c'}) b))"

lemma growsD:
  assumes "grows src M dst c M' dst' c'"
  shows "M \<subseteq>\<^sub>m M'" "c \<le> c'" "x \<notin> {c..<c'} \<Longrightarrow> dst' x = dst x"
    "M' a = Some b \<Longrightarrow> M a = None \<Longrightarrow> c \<le> b \<and> b < c' \<and> struct_eq M' src a (dst' |` {c..<c'}) b"
  using assms unfolding grows_def by (force simp: dom_def)+

lemma grows_put:
  assumes "c \<le> c'" "\<And>x. x \<notin> {c..<c'} \<Longrightarrow> dst' x = dst x"
  shows "grows src M dst c M dst' c'"
  using assms by (simp add: grows_def)

lemma restrict_le:
  assumes "A \<subseteq> B" "\<And>x. x \<in> A \<Longrightarrow> m' x = m x"
  shows "m |` A \<subseteq>\<^sub>m m' |` B"
  using assms by (auto simp: map_le_def restrict_map_def)

lemma grows_trans:
  assumes "grows src M d c M1 d1 c1" "grows src M1 d1 c1 M2 d2 c2"
  shows "grows src M d c M2 d2 c2"
proof -
  note g = growsD [OF assms(1)] and h = growsD [OF assms(2)]
  have le1: "d1 |` {c..<c1} \<subseteq>\<^sub>m d2 |` {c..<c2}"
    by (rule restrict_le) (use g(2) h(2,3) in auto)
  have le2: "d2 |` {c1..<c2} \<subseteq>\<^sub>m d2 |` {c..<c2}"
    by (rule restrict_le) (use g(2) in auto)
  have new: "c \<le> b \<and> b < c2 \<and> struct_eq M2 src a (d2 |` {c..<c2}) b" if ab: "M2 a = Some b" and an: "M a = None" for a b
  proof (cases "M1 a")
    case None
    from h(4) [OF ab this] g(2) struct_eq_mono [OF map_le_refl le2] show ?thesis by auto
  next
    case (Some b1)
    then have "b1 = b" using map_leD [OF h(1)] ab by simp
    with g(4) [OF Some an] h(2) struct_eq_mono [OF h(1) le1] show ?thesis by auto
  qed
  show ?thesis
    unfolding grows_def
  proof (intro conjI allI impI)
    show "M \<subseteq>\<^sub>m M2" by (rule map_le_trans [OF g(1) h(1)])
    show "c \<le> c2" using g(2) h(2) by simp
    show "d2 x = d x" if "x \<notin> {c..<c2}" for x using that g(2,3) h(2,3) by auto
    show "\<exists>b. M2 a = Some b \<and> c \<le> b \<and> b < c2 \<and> struct_eq M2 src a (d2 |` {c..<c2}) b" if "a \<in> dom M2 - dom M" for a
      using that new by (auto simp: dom_def)
  qed
qed

text \<open>
  Entering the structure \<open>a\<close>: it gets the address \<open>c\<close>, what hangs below it is copied behind, and
  its contents are written at the end.
\<close>

lemma grows_enter:
  assumes inner: "grows src (M(a \<mapsto> c)) d1 c1 M' d' c'"
    and c1: "c < c1" and d1: "\<And>x. x \<notin> {c..<c1} \<Longrightarrow> d1 x = d x" and new: "M a = None"
    and s: "struct_eq M' src a ((d'(c \<mapsto> s)) |` {c..<c'}) c"
  shows "grows src M d c M' (d'(c \<mapsto> s)) c'"
proof -
  note g = growsD [OF inner]
  have le0: "M \<subseteq>\<^sub>m M(a \<mapsto> c)" using new by (auto simp: map_le_def)
  have le: "d' |` {c1..<c'} \<subseteq>\<^sub>m (d'(c \<mapsto> s)) |` {c..<c'}"
    by (rule restrict_le) (use c1 in auto)
  have Ma: "M' a = Some c" by (rule map_leD [OF g(1)]) simp
  show ?thesis
    unfolding grows_def
  proof (intro conjI allI impI)
    show "M \<subseteq>\<^sub>m M'" by (rule map_le_trans [OF le0 g(1)])
    show "c \<le> c'" using c1 g(2) by simp
    show "(d'(c \<mapsto> s)) x = d x" if "x \<notin> {c..<c'}" for x using that c1 g(2,3) d1 by auto
    show "\<exists>y. M' b = Some y \<and> c \<le> y \<and> y < c' \<and> struct_eq M' src b ((d'(c \<mapsto> s)) |` {c..<c'}) y"
      if b: "b \<in> dom M' - dom M" for b
    proof (cases "b = a")
      case True
      with Ma s c1 g(2) show ?thesis by auto
    next
      case False
      obtain y where y: "M' b = Some y" using b by auto
      have "(M(a \<mapsto> c)) b = None" using b False by auto
      from g(4) [OF y this] c1 struct_eq_mono [OF map_le_refl le] y show ?thesis by auto
    qed
  qed
qed

lemma grows_graph:
  assumes "grows src Map.empty d c M' d' c'"
  shows "same_graph M' src (d' |` {c..<c'})"
  using growsD(4) [OF assms] by (simp add: same_graph_def)

lemma same_graph_mono: "dst \<subseteq>\<^sub>m dst' \<Longrightarrow> same_graph M src dst \<Longrightarrow> same_graph M src dst'"
  unfolding same_graph_def by (metis struct_eq_mono [OF map_le_refl])

lemma hp_get_put_fun: "hp_get (hp_put a x hp) = (hp_get hp)(a \<mapsto> x)"
  by (simp add: fun_eq_iff)

text \<open>One bucket and the rest: a key, a value and the other buckets, entered one after the other.\<close>

lemma buckets_step:
  assumes k: "grows src M h c M h1 c1" "key_eq src (bk_key p) (h1 |` {c..<c1}) (bk_key q)" "bk_h q = bk_h p"
    and v: "grows src M h1 c1 M2 h2 c2" "tr M2 (bk_val p) = Some (bk_val q)"
    and r: "grows src M2 h2 c2 M' h' c'" "list_all2 (bucket_eq M' src (h' |` {c2..<c'})) ps qs"
  shows "grows src M h c M' h' c'" "list_all2 (bucket_eq M' src (h' |` {c..<c'})) (p # ps) (q # qs)"
proof -
  show "grows src M h c M' h' c'" by (rule grows_trans [OF grows_trans [OF k(1) v(1)] r(1)])
  have le: "c \<le> c1" "c1 \<le> c2" "c2 \<le> c'" using growsD(2) [OF k(1)] growsD(2) [OF v(1)] growsD(2) [OF r(1)] .
  have keys: "h1 |` {c..<c1} \<subseteq>\<^sub>m h' |` {c..<c'}"
  proof (rule restrict_le)
    fix x assume "x \<in> {c..<c1}"
    then show "h' x = h1 x" using growsD(3) [OF v(1), of x] growsD(3) [OF r(1), of x] le by simp
  qed (use le in auto)
  have tl: "h' |` {c2..<c'} \<subseteq>\<^sub>m h' |` {c..<c'}" by (rule restrict_le) (use le in auto)
  have "tr M' (bk_val p) = Some (bk_val q)" by (rule tr_mono [OF growsD(1) [OF r(1)] v(2)])
  then have "bucket_eq M' src (h' |` {c..<c'}) p q" using key_eq_mono [OF keys k(2)] k(3) by (simp add: bucket_eq_def)
  then show "list_all2 (bucket_eq M' src (h' |` {c..<c'})) (p # ps) (q # qs)"
    using buckets_eq_mono [OF map_le_refl tl r(2)] by simp
qed

end
