(* ===== verification/Apc_Persist_Roundtrip.thy ===== *)
theory Apc_Persist_Roundtrip imports Apc_Persist_Graph begin

text \<open>
  Copying an array into shared memory and out of it again gives the same value: structure by
  structure, sharing and cycles through references included.
\<close>

section \<open>Into shared memory\<close>

abbreviation memo :: "persist_ctxt \<Rightarrow> (nat \<rightharpoonup> nat)" where "memo cc \<equiv> map_of (cx_already_allocated cc)"

definition memo_on :: "persist_ctxt \<Rightarrow> bool" where
  "memo_on cc \<longleftrightarrow> cx_memoization_needed cc \<and> \<not> cx_use_serialization cc \<and> 0 < cx_alloc_cur cc \<and> (\<forall>a. memo cc a \<noteq> Some 0)"

definition copy_ok :: "heap \<Rightarrow> (zval \<Rightarrow> persist_ctxt \<times> heap \<Rightarrow> (zval \<times> persist_ctxt \<times> heap) option) \<Rightarrow> bool" where
  "copy_ok rq copy \<longleftrightarrow> (\<forall>v cc sh r cc' sh'. copy v (cc, sh) = Some (r, cc', sh') \<longrightarrow> memo_on cc \<longrightarrow>
     memo_on cc' \<and> grows (hp_get rq) (memo cc) (hp_get sh) (cx_alloc_cur cc) (memo cc') (hp_get sh') (cx_alloc_cur cc') \<and>
     tr (memo cc') v = Some r)"

lemma copy_okD:
  assumes "copy_ok rq copy" "copy v (cc, sh) = Some (r, cc', sh')" "memo_on cc"
  shows "memo_on cc'"
    "grows (hp_get rq) (memo cc) (hp_get sh) (cx_alloc_cur cc) (memo cc') (hp_get sh') (cx_alloc_cur cc')"
    "tr (memo cc') v = Some r"
  using assms unfolding copy_ok_def by blast+

lemma alloc_ok:
  assumes "apc_persist_alloc sz cc = Some (p, cc')" "0 < sz"
  shows "p = cx_alloc_cur cc" "cc' = cc\<lparr>cx_alloc_cur := cx_alloc_cur cc + ZEND_MM_ALIGNED_SIZE sz\<rparr>"
    "cx_alloc_cur cc < cx_alloc_cur cc'"
  using assms aligned_bounds(1) [of sz] by (auto simp: apc_persist_alloc_def Let_def split: Option.bind_splits)

text \<open>A string that nothing points to through the table: a key.\<close>

lemma copy_key_ok:
  assumes "apc_persist_copy_zstr_no_add s (cc, sh) = Some (p, cc', sh')" "memo_on cc"
  shows "memo_on cc'" "memo cc' = memo cc" "p \<noteq> 0" "cx_alloc_cur cc \<le> p" "p < cx_alloc_cur cc'"
    "hp_get sh' = (hp_get sh)(p \<mapsto> CStr (persist_zstr (zs_val s) (zs_h s)))"
    "grows src (memo cc) (hp_get sh) (cx_alloc_cur cc) (memo cc') (hp_get sh') (cx_alloc_cur cc')"
proof -
  let ?sz = "ZSTR_STRUCT_SIZE (length (zs_val s))"
  have sz: "0 < ?sz" by (simp add: ZSTR_STRUCT_SIZE_def)
  obtain cx1 where a: "apc_persist_alloc ?sz cc = Some (p, cx1)" and r: "cc' = cx1"
    "sh' = hp_put p (CStr (persist_zstr (zs_val s) (zs_h s))) sh"
    using assms(1) by (auto simp: apc_persist_copy_zstr_no_add_def apc_persist_copy_cstr_def split: Option.bind_splits)
  note al = alloc_ok [OF a sz]
  show m: "memo cc' = memo cc" and on: "memo_on cc'" using al assms(2) r by (auto simp: memo_on_def)
  show p: "p \<noteq> 0" "cx_alloc_cur cc \<le> p" "p < cx_alloc_cur cc'" using al r assms(2) by (auto simp: memo_on_def)
  show h: "hp_get sh' = (hp_get sh)(p \<mapsto> CStr (persist_zstr (zs_val s) (zs_h s)))"
    by (simp add: r(2) hp_get_put_fun)
  show "grows src (memo cc) (hp_get sh) (cx_alloc_cur cc) (memo cc') (hp_get sh') (cx_alloc_cur cc')"
    unfolding m h by (rule grows_put) (use p in auto)
qed

text \<open>Adding a structure to the table.\<close>

lemma add_already_on:
  assumes "memo_on cc" "p \<noteq> 0"
  shows "memo_on (apc_persist_add_already_allocated a p cc)"
    "memo (apc_persist_add_already_allocated a p cc) = (memo cc)(a \<mapsto> p)"
    "cx_alloc_cur (apc_persist_add_already_allocated a p cc) = cx_alloc_cur cc"
  using assms by (auto simp: memo_on_def apc_persist_add_already_allocated_def)

lemma get_already_on:
  assumes "memo_on cc"
  shows "memo cc a = (if apc_persist_get_already_allocated a cc = 0 then None else Some (apc_persist_get_already_allocated a cc))"
  using assms by (auto simp: memo_on_def apc_persist_get_already_allocated_def split: option.splits intro: gr0I)

text \<open>The loop over the buckets.\<close>

lemma copy_key_eq:
  assumes k: "copy_key rq p (marked idx ht) (cc, sh) = Some ((key, ht2), cc1, sh1)" and on: "memo_on cc"
  shows "memo_on cc1 \<and> memo cc1 = memo cc \<and>
    grows (hp_get rq) (memo cc) (hp_get sh) (cx_alloc_cur cc) (memo cc1) (hp_get sh1) (cx_alloc_cur cc1) \<and>
    key_eq (hp_get rq) (bk_key p) (hp_get sh1 |` {cx_alloc_cur cc..<cx_alloc_cur cc1}) key \<and>
    ht_data ht2 = ht_data ht \<and> (static ht2 \<longrightarrow> static ht \<and> key = 0) \<and> ht_num_elements ht2 = ht_num_elements ht \<and>
    ht_hash ht2 = ht_hash ht"
proof (cases "bk_key p = 0")
  case True
  with k on show ?thesis by (auto simp: copy_key_def marked_def key_eq_def grows_put split: if_splits)
next
  case nz: False
  with k obtain s where s: "hp_str rq (bk_key p) = Some s"
    "apc_persist_copy_zstr_no_add s (cc, sh) = Some (key, cc1, sh1)"
    "ht2 = (marked idx ht)\<lparr>ht_flags := ht_flags (marked idx ht) AND NOT HASH_FLAG_STATIC_KEYS\<rparr>"
    by (auto simp: copy_key_def split: Option.bind_splits)
  note ck = copy_key_ok [OF s(2) on]
  have "key_eq (hp_get rq) (bk_key p) (hp_get sh1 |` {cx_alloc_cur cc..<cx_alloc_cur cc1}) key"
    using nz ck hp_strD [OF s(1)] by (simp add: key_eq_def restrict_map_def persist_zstr_def Let_def)
  with ck s(3) show ?thesis by (auto simp: ck(7) marked_def)
qed

lemma copy_buckets_ok:
  assumes cp: "copy_ok rq copy"
  shows "persist_copy_buckets copy rq idx ps ht (cc, sh) = Some (ht', cc', sh') \<Longrightarrow> memo_on cc \<Longrightarrow>
    memo_on cc' \<and> grows (hp_get rq) (memo cc) (hp_get sh) (cx_alloc_cur cc) (memo cc') (hp_get sh') (cx_alloc_cur cc') \<and>
    (\<exists>qs. ht_data ht' = ht_data ht @ qs \<and>
       list_all2 (bucket_eq (memo cc') (hp_get rq) (hp_get sh' |` {cx_alloc_cur cc..<cx_alloc_cur cc'})) ps qs \<and>
       (static ht' \<longrightarrow> static ht \<and> (\<forall>q \<in> set qs. \<not> keyed q))) \<and>
    ht_num_elements ht' = ht_num_elements ht \<and> ht_hash ht' = ht_hash ht"
proof (induction ps arbitrary: idx ht cc sh)
  case Nil
  then show ?case by (auto simp: grows_put)
next
  case (Cons p ps)
  show ?case
  proof (cases "bk_val p = IS_UNDEF")
    case True
    note IH = Cons.IH [of "Suc idx" "ht\<lparr>ht_data := ht_data ht @ [p]\<rparr>" cc sh]
    have "bucket_eq M src dst p p" for M src dst using True by (simp add: bucket_eq_def)
    moreover have "\<not> keyed p" using True by (simp add: keyed_def)
    ultimately show ?thesis using IH Cons.prems True by fastforce
  next
    case False
    from Cons.prems(1) obtain key ht2 cc1 sh1 v cc2 sh2 where
      k: "copy_key rq p (marked idx ht) (cc, sh) = Some ((key, ht2), cc1, sh1)"
      and c: "copy (bk_val p) (cc1, sh1) = Some (v, cc2, sh2)"
      and rest: "persist_copy_buckets copy rq (Suc idx) ps (ht2\<lparr>ht_data := ht_data ht2 @ [p\<lparr>bk_key := key, bk_val := v\<rparr>]\<rparr>)
        (cc2, sh2) = Some (ht', cc', sh')"
      unfolding copy_buckets_Cons [OF False] by (auto simp: copy_rest_def split: option.splits)
    let ?q = "p\<lparr>bk_key := key, bk_val := v\<rparr>"
    note k1 = copy_key_eq [OF k Cons.prems(2)]
    note cv = copy_okD [OF cp c k1 [THEN conjunct1]]
    from Cons.IH [OF rest cv(1)] obtain qs where
      r: "memo_on cc'" "grows (hp_get rq) (memo cc2) (hp_get sh2) (cx_alloc_cur cc2) (memo cc') (hp_get sh') (cx_alloc_cur cc')"
      "ht_data ht' = ht_data ht2 @ ?q # qs"
      "list_all2 (bucket_eq (memo cc') (hp_get rq) (hp_get sh' |` {cx_alloc_cur cc2..<cx_alloc_cur cc'})) ps qs"
      "static ht' \<longrightarrow> static ht2 \<and> (\<forall>q \<in> set qs. \<not> keyed q)" "ht_num_elements ht' = ht_num_elements ht2" "ht_hash ht' = ht_hash ht2"
      by auto
    have m: "memo cc1 = memo cc" using k1 by blast
    have g: "grows (hp_get rq) (memo cc) (hp_get sh) (cx_alloc_cur cc) (memo cc) (hp_get sh1) (cx_alloc_cur cc1)"
      "grows (hp_get rq) (memo cc) (hp_get sh1) (cx_alloc_cur cc1) (memo cc2) (hp_get sh2) (cx_alloc_cur cc2)"
      "key_eq (hp_get rq) (bk_key p) (hp_get sh1 |` {cx_alloc_cur cc..<cx_alloc_cur cc1}) (bk_key ?q)"
      "bk_h ?q = bk_h p" "tr (memo cc2) (bk_val p) = Some (bk_val ?q)"
      using k1 [unfolded m] cv(2,3) [unfolded m] by simp_all
    note st = buckets_step [OF g(1,3,4,2,5) r(2,4)]
    show ?thesis using st r(1,3,5-7) k1 by (auto simp: keyed_def)
  qed
qed

text \<open>A whole table, and a whole value.\<close>

lemma aligned_pos: "0 < sz \<Longrightarrow> 0 < ZEND_MM_ALIGNED_SIZE sz"
  using aligned_bounds(1) [of sz] by simp

lemma copy_ht_ok:
  assumes cp: "copy_ok rq copy" and c: "persist_copy_ht copy rq a orig (cc, sh) = Some (p, cc', sh')" and on: "memo_on cc"
    and src: "hp_arr rq a = Some orig" and new: "memo cc a = None"
  shows "memo_on cc'" "grows (hp_get rq) (memo cc) (hp_get sh) (cx_alloc_cur cc) (memo cc') (hp_get sh') (cx_alloc_cur cc')"
    "memo cc' a = Some p"
proof -
  let ?c = "cx_alloc_cur cc"
  let ?ht = "orig\<lparr>ht_flags := ht_flags orig OR HASH_FLAG_STATIC_KEYS, ht_next := 0\<rparr>"
  from c obtain cx1 where al: "apc_persist_alloc SIZEOF_HASHTABLE cc = Some (p, cx1)"
    by (auto simp: persist_copy_ht_def Let_def split: Option.bind_splits if_splits)
  note a1 = alloc_ok [OF al]
  have p: "p = ?c" "?c < cx_alloc_cur cx1" "p \<noteq> 0" using a1 on by (auto simp: SIZEOF_HASHTABLE_def memo_on_def)
  have on1: "memo_on cx1" "memo cx1 = memo cc" using a1 on by (auto simp: SIZEOF_HASHTABLE_def memo_on_def)
  let ?cx2 = "apc_persist_add_already_allocated a p cx1"
  note a2 = add_already_on [OF on1(1) p(3), of a]
  have ma: "memo ?cx2 = (memo cc)(a \<mapsto> ?c)" using a2(2) on1(2) p(1) by simp
  have cur2: "cx_alloc_cur ?cx2 = cx_alloc_cur cx1" by (rule a2(3))
  have sa: "hp_get rq a = Some (CArr orig)" by (rule hp_arrD [OF src])
  show "memo_on cc'" "grows (hp_get rq) (memo cc) (hp_get sh) ?c (memo cc') (hp_get sh') (cx_alloc_cur cc')" "memo cc' a = Some p"
  proof (atomize (full), cases "ht_data orig = []")
    case True
    let ?h = "?ht\<lparr>ht_flags := HASH_FLAG_UNINITIALIZED, ht_hash := [HT_INVALID_IDX, HT_INVALID_IDX]\<rparr>"
    from c al True have r: "cc' = ?cx2" "sh' = hp_put p (CArr ?h) sh" by (auto simp: persist_copy_ht_def Let_def)
    have inner: "grows (hp_get rq) ((memo cc)(a \<mapsto> ?c)) (hp_get sh) (cx_alloc_cur cx1) ((memo cc)(a \<mapsto> ?c)) (hp_get sh) (cx_alloc_cur cx1)"
      by (rule grows_put) auto
    have "struct_eq ((memo cc)(a \<mapsto> ?c)) (hp_get rq) a (((hp_get sh)(?c \<mapsto> CArr ?h)) |` {?c..<cx_alloc_cur cx1}) ?c"
      using p sa True by (simp add: struct_eq_def table_eq_def restrict_map_def marks_ok_def)
    then have "grows (hp_get rq) (memo cc) (hp_get sh) ?c ((memo cc)(a \<mapsto> ?c)) ((hp_get sh)(?c \<mapsto> CArr ?h)) (cx_alloc_cur cx1)"
      by (intro grows_enter [OF inner p(2) _ new]) simp_all
    then have "grows (hp_get rq) (memo cc) (hp_get sh) ?c (memo cc') (hp_get sh') (cx_alloc_cur cc')"
      unfolding r hp_get_put_fun ma cur2 unfolding p(1) .
    then show "memo_on cc' \<and> grows (hp_get rq) (memo cc) (hp_get sh) ?c (memo cc') (hp_get sh') (cx_alloc_cur cc') \<and> memo cc' a = Some p"
      using a2(1) ma r(1) p(1) by simp
  next
    case False
    let ?ht0 = "?ht\<lparr>ht_internal := HT_INVALID_IDX, ht_data := []\<rparr>"
    from c al False obtain q cx3 ht' cx4 sh4 where al3: "apc_persist_alloc (HT_USED_SIZE orig) ?cx2 = Some (q, cx3)"
      and bs: "persist_copy_buckets copy rq 0 (ht_data orig) ?ht0 (cx3, sh) = Some (ht', cx4, sh4)"
      and r: "cc' = cx4" "sh' = hp_put p (CArr ht') sh4"
      by (auto simp: persist_copy_ht_def Let_def split: Option.bind_splits)
    have hs: "0 < HT_USED_SIZE orig" using False by (simp add: HT_USED_SIZE_def SIZEOF_BUCKET_def)
    note a3 = alloc_ok [OF al3 hs]
    have on3: "memo_on cx3" "memo cx3 = (memo cc)(a \<mapsto> ?c)" using a3(2) a2(1) ma by (auto simp: memo_on_def)
    have c3: "?c < cx_alloc_cur cx3" using a3(3) cur2 p(2) by simp
    from copy_buckets_ok [OF cp bs on3(1)] obtain qs where
      b: "memo_on cx4" "grows (hp_get rq) ((memo cc)(a \<mapsto> ?c)) (hp_get sh) (cx_alloc_cur cx3) (memo cx4) (hp_get sh4) (cx_alloc_cur cx4)"
      "ht_data ht' = qs" "list_all2 (bucket_eq (memo cx4) (hp_get rq) (hp_get sh4 |` {cx_alloc_cur cx3..<cx_alloc_cur cx4})) (ht_data orig) qs"
      "static ht' \<longrightarrow> (\<forall>q \<in> set qs. \<not> keyed q)" "ht_num_elements ht' = ht_num_elements orig"
      unfolding on3(2) by auto
    have c4: "cx_alloc_cur cx3 \<le> cx_alloc_cur cx4" by (rule growsD(2) [OF b(2)])
    have le: "hp_get sh4 |` {cx_alloc_cur cx3..<cx_alloc_cur cx4} \<subseteq>\<^sub>m ((hp_get sh4)(?c \<mapsto> CArr ht')) |` {?c..<cx_alloc_cur cx4}"
      by (rule restrict_le) (use c3 in auto)
    have "struct_eq (memo cx4) (hp_get rq) a (((hp_get sh4)(?c \<mapsto> CArr ht')) |` {?c..<cx_alloc_cur cx4}) ?c"
      using b(3,5,6) buckets_eq_mono [OF map_le_refl le b(4)] sa c3 c4
      by (simp add: struct_eq_def table_eq_def marks_ok_def restrict_map_def)
    then have "grows (hp_get rq) (memo cc) (hp_get sh) ?c (memo cx4) ((hp_get sh4)(?c \<mapsto> CArr ht')) (cx_alloc_cur cx4)"
      by (intro grows_enter [OF b(2) c3 _ new]) simp_all
    then have "grows (hp_get rq) (memo cc) (hp_get sh) ?c (memo cc') (hp_get sh') (cx_alloc_cur cc')"
      unfolding r hp_get_put_fun p(1) .
    moreover have "memo cx4 a = Some ?c" by (rule map_leD [OF growsD(1) [OF b(2)]]) simp
    ultimately show "memo_on cc' \<and> grows (hp_get rq) (memo cc) (hp_get sh) ?c (memo cc') (hp_get sh') (cx_alloc_cur cc') \<and> memo cc' a = Some p"
      using b(1) r(1) p(1) by simp
  qed
qed

lemma copy_string_ok:
  assumes k: "apc_persist_copy_zstr_no_add s (cc, sh) = Some (p, cx1, sh')" and on: "memo_on cc"
    and s: "hp_str rq a = Some s" and new: "memo cc a = None" and r: "cc' = apc_persist_add_already_allocated a p cx1"
  shows "memo_on cc' \<and> grows (hp_get rq) (memo cc) (hp_get sh) (cx_alloc_cur cc) (memo cc') (hp_get sh') (cx_alloc_cur cc') \<and>
    memo cc' a = Some p"
proof -
  note ck = copy_key_ok [OF k on]
  note ad = add_already_on [OF ck(1,3), of a]
  have m: "memo cc' = (memo cc)(a \<mapsto> p)" "cx_alloc_cur cc' = cx_alloc_cur cx1" using ad ck(2) r by simp_all
  have "grows (hp_get rq) (memo cc) (hp_get sh) (cx_alloc_cur cc) (memo cc') (hp_get sh') (cx_alloc_cur cc')"
    unfolding grows_def m
    using ck(4-6) new hp_strD [OF s]
    by (auto simp: struct_eq_def restrict_map_def persist_zstr_def Let_def map_le_def)
  with ad(1) r m(1) show ?thesis by simp
qed

lemma copy_reference_ok:
  assumes ih: "copy_ok rq copy" and al: "apc_persist_alloc SIZEOF_REFERENCE cc = Some (p, cx1)"
    and k: "copy w (apc_persist_add_already_allocated a p cx1, sh) = Some (w', cx2, sh2)"
    and on: "memo_on cc" and s: "hp_ref rq a = Some w" and new: "memo cc a = None"
  shows "memo_on cx2 \<and> grows (hp_get rq) (memo cc) (hp_get sh) (cx_alloc_cur cc) (memo cx2)
      (hp_get (hp_put p (CRef w') sh2)) (cx_alloc_cur cx2) \<and> memo cx2 a = Some p"
proof -
  let ?c = "cx_alloc_cur cc"
  have a1: "p = ?c" "?c < cx_alloc_cur cx1" "p \<noteq> 0" "memo_on cx1" "memo cx1 = memo cc"
    using alloc_ok [OF al] on by (auto simp: SIZEOF_REFERENCE_def memo_on_def)
  note ad = add_already_on [OF a1(4,3), of a]
  have ma: "memo (apc_persist_add_already_allocated a p cx1) = (memo cc)(a \<mapsto> ?c)" using ad(2) a1 by simp
  note ih = copy_okD [OF ih k ad(1)]
  have g: "grows (hp_get rq) ((memo cc)(a \<mapsto> ?c)) (hp_get sh) (cx_alloc_cur cx1) (memo cx2) (hp_get sh2) (cx_alloc_cur cx2)"
    using ih(2) unfolding ma ad(3) .
  have c4: "cx_alloc_cur cx1 \<le> cx_alloc_cur cx2" by (rule growsD(2) [OF g])
  have "struct_eq (memo cx2) (hp_get rq) a (((hp_get sh2)(?c \<mapsto> CRef w')) |` {?c..<cx_alloc_cur cx2}) ?c"
    using ih(3) hp_refD [OF s] a1(2) c4 by (simp add: struct_eq_def restrict_map_def)
  then have "grows (hp_get rq) (memo cc) (hp_get sh) ?c (memo cx2) ((hp_get sh2)(?c \<mapsto> CRef w')) (cx_alloc_cur cx2)"
    using new by (intro grows_enter [OF g a1(2)]) simp_all
  then have "grows (hp_get rq) (memo cc) (hp_get sh) ?c (memo cx2) (hp_get (hp_put p (CRef w') sh2)) (cx_alloc_cur cx2)"
    unfolding hp_get_put_fun a1(1) .
  moreover have "memo cx2 a = Some p" unfolding a1(1) by (rule map_leD [OF growsD(1) [OF g]]) simp
  ultimately show ?thesis using ih(1) by blast
qed

lemma copy_zval_ok: "copy_ok rq (persist_copy_zval n rq)"
proof (induction n)
  case 0
  then show ?case by (simp add: copy_ok_def)
next
  case (Suc n)
  have "memo_on cc' \<and> grows (hp_get rq) (memo cc) (hp_get sh) (cx_alloc_cur cc) (memo cc') (hp_get sh') (cx_alloc_cur cc') \<and>
     tr (memo cc') v = Some r"
    if c: "persist_copy_zval (Suc n) rq v (cc, sh) = Some (r, cc', sh')" and on: "memo_on cc" for v cc sh r cc' sh'
  proof -
    let ?ptr = "apc_persist_get_already_allocated (Z_COUNTED v) cc"
    have ser: "\<not> cx_use_serialization cc" using on by (simp add: memo_on_def)
    consider (simple) "z_simple v" | (seen) "\<not> z_simple v" "?ptr \<noteq> 0" | (new) "\<not> z_simple v" "?ptr = 0" by blast
    then show ?thesis
    proof cases
      case simple
      with c on show ?thesis by (auto simp: grows_put)
    next
      case seen
      then have "memo cc (Z_COUNTED v) = Some ?ptr" using get_already_on [OF on, of "Z_COUNTED v"] by simp
      with c on seen ser show ?thesis by (cases v) (auto simp: grows_put Let_def)
    next
      case new
      then have n0: "memo cc (Z_COUNTED v) = None" using get_already_on [OF on, of "Z_COUNTED v"] by simp
      show ?thesis
      proof (cases v)
        case (IS_STRING a)
        with c new ser obtain s p cx1 where s: "hp_str rq a = Some s"
          and k: "apc_persist_copy_zstr_no_add s (cc, sh) = Some (p, cx1, sh')"
          and r: "r = IS_STRING p" "cc' = apc_persist_add_already_allocated a p cx1"
          by (auto simp: Let_def apc_persist_copy_zstr_def split: Option.bind_splits)
        then show ?thesis using copy_string_ok [OF k on s _ r(2)] n0 IS_STRING by simp
      next
        case (IS_ARRAY a)
        with c new ser obtain ht p where s: "hp_arr rq a = Some ht"
          and k: "persist_copy_ht (persist_copy_zval n rq) rq a ht (cc, sh) = Some (p, cc', sh')" and r: "r = IS_ARRAY p"
          by (auto simp: Let_def split: Option.bind_splits)
        then show ?thesis using copy_ht_ok [OF Suc.IH k on s] n0 IS_ARRAY by simp
      next
        case (IS_REFERENCE a)
        with c new ser obtain w p cx1 w' cx2 sh2 where s: "hp_ref rq a = Some w"
          and al: "apc_persist_alloc SIZEOF_REFERENCE cc = Some (p, cx1)"
          and k: "persist_copy_zval n rq w (apc_persist_add_already_allocated a p cx1, sh) = Some (w', cx2, sh2)"
          and r: "r = IS_REFERENCE p" "cc' = cx2" "sh' = hp_put p (CRef w') sh2"
          by (auto simp: Let_def persist_copy_ref_def split: Option.bind_splits)
        then show ?thesis using copy_reference_ok [OF Suc.IH al k on s] n0 IS_REFERENCE by simp
      qed (use c new ser in \<open>auto simp: Let_def\<close>)
    qed
  qed
  then show ?case unfolding copy_ok_def by blast
qed

section \<open>Out of shared memory\<close>

text \<open>Values whose structures lie in a set \<open>R\<close> of addresses that is closed in the store.\<close>

definition zv_in :: "nat set \<Rightarrow> heap \<Rightarrow> zval \<Rightarrow> bool" where
  "zv_in R sh v = (case v of
       IS_STRING a \<Rightarrow> a \<in> R \<and> hp_str sh a \<noteq> None
     | IS_ARRAY a \<Rightarrow> a \<in> R \<and> hp_arr sh a \<noteq> None
     | IS_REFERENCE a \<Rightarrow> a \<in> R \<and> hp_ref sh a \<noteq> None
     | _ \<Rightarrow> z_simple v)"

definition closed :: "nat set \<Rightarrow> heap \<Rightarrow> bool" where
  "closed R sh \<longleftrightarrow> (\<forall>a \<in> R.
     (\<forall>ht. hp_arr sh a = Some ht \<longrightarrow> marks_ok ht \<and> (\<forall>q \<in> set (ht_data ht). zv_in R sh (bk_val q) \<and>
        (keyed q \<longrightarrow> hp_str sh (bk_key q) \<noteq> None))) \<and>
     (\<forall>v. hp_ref sh a = Some v \<longrightarrow> zv_in R sh v))"

definition left :: "heap \<Rightarrow> (nat \<times> nat) list \<Rightarrow> nat" where
  "left sh tab = card (dom (hp_get sh) - dom (map_of tab))"

lemma finite_dom_hp: "finite (dom (hp_get hp))"
proof -
  have "hp_get hp = map_of hp" by (simp add: hp_get_def fun_eq_iff)
  then show ?thesis by (simp add: finite_dom_map_of)
qed

lemma left_mono: "map_of tab \<subseteq>\<^sub>m map_of tab' \<Longrightarrow> left sh tab' \<le> left sh tab"
  unfolding left_def by (intro card_mono finite_Diff finite_dom_hp) (auto dest: map_leD)

lemma left_enter:
  assumes "hp_get sh a = Some x" "map_of tab a = None"
  shows "left sh ((a, p) # tab) < left sh tab"
  unfolding left_def by (rule psubset_card_mono [OF finite_Diff [OF finite_dom_hp]]) (use assms in \<open>auto simp: dom_def\<close>)

definition unp_ok :: "nat set \<Rightarrow> heap \<Rightarrow> nat \<Rightarrow> (zval \<Rightarrow> unpersist_state \<Rightarrow> (zval \<times> unpersist_state) option) \<Rightarrow> bool" where
  "unp_ok R sh n unp \<longleftrightarrow> (\<forall>v tab hp gc. zv_in R sh v \<longrightarrow> left sh tab < n \<longrightarrow>
     (\<exists>r tab' hp' gc'. unp v (tab, hp, gc) = Some (r, tab', hp', gc') \<and>
        grows (hp_get sh) (map_of tab) (hp_get hp) (hp_fresh hp) (map_of tab') (hp_get hp') (hp_fresh hp') \<and>
        tr (map_of tab') v = Some r))"

lemma unp_okE:
  assumes "unp_ok R sh n unp" "zv_in R sh v" "left sh tab < n"
  obtains r tab' hp' gc' where "unp v (tab, hp, gc) = Some (r, tab', hp', gc')"
    "grows (hp_get sh) (map_of tab) (hp_get hp) (hp_fresh hp) (map_of tab') (hp_get hp') (hp_fresh hp')"
    "tr (map_of tab') v = Some r" "left sh tab' < n"
proof -
  obtain r tab' hp' gc' where r: "unp v (tab, hp, gc) = Some (r, tab', hp', gc')"
    "grows (hp_get sh) (map_of tab) (hp_get hp) (hp_fresh hp) (map_of tab') (hp_get hp') (hp_fresh hp')"
    "tr (map_of tab') v = Some r"
    using assms unfolding unp_ok_def by blast
  from that [OF r] left_mono [OF growsD(1) [OF r(2)], of sh] assms(3) show ?thesis by simp
qed

lemma hp_fresh_put: "hp_fresh (hp_put a x hp) = max (Suc a) (hp_fresh hp)"
  by (simp add: hp_fresh_def hp_put_def)

lemma put_fresh_grows:
  "grows src M (hp_get hp) (hp_fresh hp) M (hp_get (hp_put (hp_fresh hp) x hp)) (hp_fresh (hp_put (hp_fresh hp) x hp))"
  unfolding hp_get_put_fun by (rule grows_put) (auto simp: hp_fresh_put)

lemma unp_buckets_static_ok:
  assumes un: "unp_ok R sh n unp"
  shows "\<forall>q \<in> set qs. zv_in R sh (bk_val q) \<and> \<not> keyed q \<Longrightarrow> left sh tab < n \<Longrightarrow>
    \<exists>rs tab' hp' gc'. unpersist_buckets_static unp qs (tab, hp, gc) = Some (rs, tab', hp', gc') \<and>
      grows (hp_get sh) (map_of tab) (hp_get hp) (hp_fresh hp) (map_of tab') (hp_get hp') (hp_fresh hp') \<and>
      list_all2 (bucket_eq (map_of tab') (hp_get sh) (hp_get hp' |` {hp_fresh hp..<hp_fresh hp'})) qs rs \<and>
      (\<forall>r \<in> set rs. \<not> keyed r)"
proof (induction qs arbitrary: tab hp gc)
  case Nil
  then show ?case by (auto simp: grows_put)
next
  case (Cons q qs)
  have q: "zv_in R sh (bk_val q)" "\<not> keyed q" using Cons.prems(1) by simp_all
  obtain v tab1 hp1 gc1 where v: "unp (bk_val q) (tab, hp, gc) = Some (v, tab1, hp1, gc1)"
    "grows (hp_get sh) (map_of tab) (hp_get hp) (hp_fresh hp) (map_of tab1) (hp_get hp1) (hp_fresh hp1)"
    "tr (map_of tab1) (bk_val q) = Some v" "left sh tab1 < n"
    by (rule unp_okE [OF un q(1) Cons.prems(2)])
  from Cons.IH [OF _ v(4), of hp1 gc1] Cons.prems(1) obtain rs tab' hp' gc' where
    r: "unpersist_buckets_static unp qs (tab1, hp1, gc1) = Some (rs, tab', hp', gc')"
      "grows (hp_get sh) (map_of tab1) (hp_get hp1) (hp_fresh hp1) (map_of tab') (hp_get hp') (hp_fresh hp')"
      "list_all2 (bucket_eq (map_of tab') (hp_get sh) (hp_get hp' |` {hp_fresh hp1..<hp_fresh hp'})) qs rs"
      "\<forall>r \<in> set rs. \<not> keyed r" by auto
  have tl: "hp_get hp' |` {hp_fresh hp1..<hp_fresh hp'} \<subseteq>\<^sub>m hp_get hp' |` {hp_fresh hp..<hp_fresh hp'}"
    by (rule restrict_le) (use growsD(2) [OF v(2)] in auto)
  have tv: "tr (map_of tab') (bk_val q) = Some v" by (rule tr_mono [OF growsD(1) [OF r(2)] v(3)])
  have "bucket_eq (map_of tab') (hp_get sh) (hp_get hp' |` {hp_fresh hp..<hp_fresh hp'}) q (q\<lparr>bk_val := v\<rparr>)"
    using tv q(2) by (auto simp: bucket_eq_def key_eq_def keyed_def)
  moreover have "\<not> keyed (q\<lparr>bk_val := v\<rparr>)" using tv q(2) by (auto simp: keyed_def)
  ultimately show ?case
    using v(1) r(1,4) grows_trans [OF v(2) r(2)] buckets_eq_mono [OF map_le_refl tl r(3)] by auto
qed

lemma unp_key_eq:
  assumes "bk_key q \<noteq> 0 \<longrightarrow> hp_str sh (bk_key q) \<noteq> None"
  obtains key hp1 gc1 where "unpersist_key sh (bk_key q) (tab, hp, gc) = Some (key, tab, hp1, gc1)"
    "grows (hp_get sh) (map_of tab) (hp_get hp) (hp_fresh hp) (map_of tab) (hp_get hp1) (hp_fresh hp1)"
    "key_eq (hp_get sh) (bk_key q) (hp_get hp1 |` {hp_fresh hp..<hp_fresh hp1}) key"
proof (cases "bk_key q = 0")
  case True
  then show thesis by (intro that [of 0 hp gc]) (auto simp: unpersist_key_def key_eq_def grows_put)
next
  case nz: False
  then obtain s where s: "hp_str sh (bk_key q) = Some s" using assms by auto
  let ?hp1 = "hp_put (hp_fresh hp) (CStr (mk_zstr (zs_val s))) hp"
  have "key_eq (hp_get sh) (bk_key q) (hp_get ?hp1 |` {hp_fresh hp..<hp_fresh ?hp1}) (hp_fresh hp)"
    using nz hp_strD [OF s] by (auto simp: key_eq_def hp_fresh_put restrict_map_def)
  with put_fresh_grows s nz show thesis
    by (intro that [of "hp_fresh hp" ?hp1 "gc(hp_fresh hp := 1)"])
      (auto simp: unpersist_key_def apc_unpersist_zstr_def unpersist_enter_def unpersist_add_def Let_def)
qed

lemma unp_buckets_ok:
  assumes un: "unp_ok R sh n unp"
  shows "\<forall>q \<in> set qs. zv_in R sh (bk_val q) \<and> (keyed q \<longrightarrow> hp_str sh (bk_key q) \<noteq> None) \<Longrightarrow> left sh tab < n \<Longrightarrow>
    \<exists>rs tab' hp' gc'. unpersist_buckets unp sh qs (tab, hp, gc) = Some (rs, tab', hp', gc') \<and>
      grows (hp_get sh) (map_of tab) (hp_get hp) (hp_fresh hp) (map_of tab') (hp_get hp') (hp_fresh hp') \<and>
      list_all2 (bucket_eq (map_of tab') (hp_get sh) (hp_get hp' |` {hp_fresh hp..<hp_fresh hp'})) qs rs"
proof (induction qs arbitrary: tab hp gc)
  case Nil
  then show ?case by (auto simp: grows_put)
next
  case (Cons q qs)
  show ?case
  proof (cases "bk_val q = IS_UNDEF")
    case True
    from Cons.IH [of tab hp gc] Cons.prems True show ?thesis by (auto simp: bucket_eq_def)
  next
    case False
    have "bk_key q \<noteq> 0 \<longrightarrow> hp_str sh (bk_key q) \<noteq> None" using Cons.prems(1) False by (simp add: keyed_def)
    then obtain key hp1 gc1 where k: "unpersist_key sh (bk_key q) (tab, hp, gc) = Some (key, tab, hp1, gc1)"
      "grows (hp_get sh) (map_of tab) (hp_get hp) (hp_fresh hp) (map_of tab) (hp_get hp1) (hp_fresh hp1)"
      "key_eq (hp_get sh) (bk_key q) (hp_get hp1 |` {hp_fresh hp..<hp_fresh hp1}) key" by (rule unp_key_eq)
    have q: "zv_in R sh (bk_val q)" using Cons.prems(1) by simp
    obtain v tab2 hp2 gc2 where v: "unp (bk_val q) (tab, hp1, gc1) = Some (v, tab2, hp2, gc2)"
      "grows (hp_get sh) (map_of tab) (hp_get hp1) (hp_fresh hp1) (map_of tab2) (hp_get hp2) (hp_fresh hp2)"
      "tr (map_of tab2) (bk_val q) = Some v" "left sh tab2 < n"
      by (rule unp_okE [OF un q Cons.prems(2)])
    from Cons.IH [OF _ v(4), of hp2 gc2] Cons.prems(1) obtain rs tab' hp' gc' where
      r: "unpersist_buckets unp sh qs (tab2, hp2, gc2) = Some (rs, tab', hp', gc')"
        "grows (hp_get sh) (map_of tab2) (hp_get hp2) (hp_fresh hp2) (map_of tab') (hp_get hp') (hp_fresh hp')"
        "list_all2 (bucket_eq (map_of tab') (hp_get sh) (hp_get hp' |` {hp_fresh hp2..<hp_fresh hp'})) qs rs" by auto
    let ?r = "\<lparr>bk_val = v, bk_h = bk_h q, bk_key = key\<rparr>"
    have "unpersist_buckets unp sh (q # qs) (tab, hp, gc) = Some (?r # rs, tab', hp', gc')"
      using k(1) v(1) r(1) False by simp
    moreover have e: "key_eq (hp_get sh) (bk_key q) (hp_get hp1 |` {hp_fresh hp..<hp_fresh hp1}) (bk_key ?r)"
      "bk_h ?r = bk_h q" "tr (map_of tab2) (bk_val q) = Some (bk_val ?r)"
      using k(3) v(3) by simp_all
    note buckets_step [OF k(2) e(1,2) v(2) e(3) r(2,3)]
    ultimately show ?thesis by blast
  qed
qed

lemma fresh_restrict_put:
  "hp_get (hp_put (hp_fresh hp) x hp2) |` {hp_fresh hp..<m} = ((hp_get hp2)(hp_fresh hp \<mapsto> x)) |` {hp_fresh hp..<m}"
  by (simp add: hp_get_put_fun)

text \<open>A structure is entered at the fresh address \<open>p\<close>, and written when its parts are done.\<close>

lemma unp_enter:
  fixes hp :: heap
  defines "p \<equiv> hp_fresh hp"
  assumes g: "grows (hp_get sh) (map_of ((a, p) # tab)) (hp_get (hp_put p x hp)) (hp_fresh (hp_put p x hp))
      (map_of tab') (hp_get hp2) (hp_fresh hp2)"
    and new: "map_of tab a = None"
    and s: "struct_eq (map_of tab') (hp_get sh) a (((hp_get hp2)(p \<mapsto> y)) |` {p..<hp_fresh hp2}) p"
  shows "grows (hp_get sh) (map_of tab) (hp_get hp) p (map_of tab') (hp_get (hp_put p y hp2)) (hp_fresh (hp_put p y hp2)) \<and>
    map_of tab' a = Some p"
proof -
  have c1: "p < hp_fresh (hp_put p x hp)" by (simp add: p_def hp_fresh_put)
  have g': "grows (hp_get sh) ((map_of tab)(a \<mapsto> p)) (hp_get (hp_put p x hp)) (hp_fresh (hp_put p x hp))
      (map_of tab') (hp_get hp2) (hp_fresh hp2)" using g by simp
  have f2: "hp_fresh (hp_put p y hp2) = hp_fresh hp2" using growsD(2) [OF g'] c1 by (simp add: hp_fresh_put)
  have "grows (hp_get sh) (map_of tab) (hp_get hp) p (map_of tab') ((hp_get hp2)(p \<mapsto> y)) (hp_fresh hp2)"
    by (rule grows_enter [OF g' c1 _ new s]) (use c1 in \<open>auto simp: hp_get_put_fun\<close>)
  moreover have "map_of tab' a = Some p" by (rule map_leD [OF growsD(1) [OF g']]) simp
  ultimately show ?thesis by (simp add: f2 hp_get_put_fun)
qed

lemma unp_ht_ok:
  assumes un: "unp_ok R sh n unp" and cl: "closed R sh" and a: "a \<in> R" "hp_arr sh a = Some ht"
    and new: "map_of tab a = None" and lf: "left sh tab < Suc n"
  shows "\<exists>p tab' hp' gc'. unpersist_ht unp True sh a ht (tab, hp, gc) = Some (p, tab', hp', gc') \<and>
    grows (hp_get sh) (map_of tab) (hp_get hp) (hp_fresh hp) (map_of tab') (hp_get hp') (hp_fresh hp') \<and>
    map_of tab' a = Some p"
proof -
  let ?p = "hp_fresh hp"
  have sa: "hp_get sh a = Some (CArr ht)" by (rule hp_arrD [OF a(2)])
  have mk: "marks_ok ht" "\<forall>q \<in> set (ht_data ht). zv_in R sh (bk_val q) \<and> (keyed q \<longrightarrow> hp_str sh (bk_key q) \<noteq> None)"
    using cl a unfolding closed_def by blast+
  have c1: "?p < hp_fresh (hp_put ?p x hp)" for x by (simp add: hp_fresh_put)
  show ?thesis
  proof (cases "ht_data ht = []")
    case True
    let ?y = "CArr (ht\<lparr>ht_hash := [HT_INVALID_IDX, HT_INVALID_IDX]\<rparr>)"
    let ?hp1 = "hp_put ?p (CArr ht) hp"
    have inner: "grows (hp_get sh) (map_of ((a, ?p) # tab)) (hp_get ?hp1) (hp_fresh ?hp1) (map_of ((a, ?p) # tab)) (hp_get ?hp1) (hp_fresh ?hp1)"
      by (rule grows_put) auto
    have "struct_eq (map_of ((a, ?p) # tab)) (hp_get sh) a (((hp_get ?hp1)(?p \<mapsto> ?y)) |` {?p..<hp_fresh ?hp1}) ?p"
      using c1 sa True by (simp add: struct_eq_def table_eq_def marks_ok_def restrict_map_def)
    from unp_enter [OF inner new this] have
      "grows (hp_get sh) (map_of tab) (hp_get hp) ?p (map_of ((a, ?p) # tab))
         (hp_get (hp_put ?p ?y ?hp1)) (hp_fresh (hp_put ?p ?y ?hp1))" by simp
    then show ?thesis using True
      by (simp add: unpersist_ht_def unpersist_enter_def unpersist_write_def unpersist_add_def Let_def)
  next
    case False
    let ?hp1 = "hp_put ?p (CArr ht) hp" and ?tab1 = "(a, ?p) # tab"
    have lf1: "left sh ?tab1 < n" using left_enter [OF sa new] lf by (meson less_Suc_eq_le less_le_trans)
    let ?gc1 = "gc(?p := 1)"
    have "\<exists>rs tab' hp' gc'. (if static ht then unpersist_buckets_static unp (ht_data ht) (?tab1, ?hp1, ?gc1)
          else unpersist_buckets unp sh (ht_data ht) (?tab1, ?hp1, ?gc1)) = Some (rs, tab', hp', gc') \<and>
        grows (hp_get sh) (map_of ?tab1) (hp_get ?hp1) (hp_fresh ?hp1) (map_of tab') (hp_get hp') (hp_fresh hp') \<and>
        list_all2 (bucket_eq (map_of tab') (hp_get sh) (hp_get hp' |` {hp_fresh ?hp1..<hp_fresh hp'})) (ht_data ht) rs \<and>
        (static ht \<longrightarrow> (\<forall>r \<in> set rs. \<not> keyed r))"
    proof (cases "static ht")
      case True
      then have "\<forall>q \<in> set (ht_data ht). zv_in R sh (bk_val q) \<and> \<not> keyed q" using mk by (simp add: marks_ok_def)
      from unp_buckets_static_ok [OF un this lf1, of ?hp1 ?gc1] True show ?thesis by auto
    next
      case False
      with unp_buckets_ok [OF un mk(2) lf1, of ?hp1 ?gc1] show ?thesis by auto
    qed
    then obtain rs tab' hp' gc' where r: "(if static ht then unpersist_buckets_static unp (ht_data ht) (?tab1, ?hp1, ?gc1)
          else unpersist_buckets unp sh (ht_data ht) (?tab1, ?hp1, ?gc1)) = Some (rs, tab', hp', gc')"
      "grows (hp_get sh) (map_of ?tab1) (hp_get ?hp1) (hp_fresh ?hp1) (map_of tab') (hp_get hp') (hp_fresh hp')"
      "list_all2 (bucket_eq (map_of tab') (hp_get sh) (hp_get hp' |` {hp_fresh ?hp1..<hp_fresh hp'})) (ht_data ht) rs"
      "static ht \<longrightarrow> (\<forall>r \<in> set rs. \<not> keyed r)" by blast
    let ?y = "CArr (ht\<lparr>ht_data := rs\<rparr>)"
    have le: "hp_get hp' |` {hp_fresh ?hp1..<hp_fresh hp'} \<subseteq>\<^sub>m ((hp_get hp')(?p \<mapsto> ?y)) |` {?p..<hp_fresh hp'}"
      by (rule restrict_le) (use c1 [of "CArr ht"] in auto)
    have lt: "?p < hp_fresh hp'" using c1 [of "CArr ht"] growsD(2) [OF r(2)] by simp
    have "struct_eq (map_of tab') (hp_get sh) a (((hp_get hp')(?p \<mapsto> ?y)) |` {?p..<hp_fresh hp'}) ?p"
      using buckets_eq_mono [OF map_le_refl le r(3)] sa lt r(4)
      by (simp add: struct_eq_def table_eq_def marks_ok_def restrict_map_def)
    from unp_enter [OF r(2) new this] r(1) False show ?thesis
      by (auto simp: unpersist_ht_def unpersist_enter_def unpersist_write_def unpersist_add_def static_def [symmetric] Let_def
          split: if_splits)
  qed
qed

lemma unp_string_ok:
  assumes s: "hp_str sh a = Some s" and new: "map_of tab a = None"
  shows "grows (hp_get sh) (map_of tab) (hp_get hp) (hp_fresh hp) (map_of ((a, hp_fresh hp) # tab))
    (hp_get (hp_put (hp_fresh hp) (CStr s) hp)) (hp_fresh (hp_put (hp_fresh hp) (CStr s) hp))"
proof -
  let ?p = "hp_fresh hp"
  have inner: "grows (hp_get sh) (map_of ((a, ?p) # tab)) (hp_get (hp_put ?p (CStr s) hp)) (hp_fresh (hp_put ?p (CStr s) hp))
      (map_of ((a, ?p) # tab)) (hp_get (hp_put ?p (CStr s) hp)) (hp_fresh (hp_put ?p (CStr s) hp))"
    by (rule grows_put) auto
  have "struct_eq (map_of ((a, ?p) # tab)) (hp_get sh) a
      (((hp_get (hp_put ?p (CStr s) hp))(?p \<mapsto> CStr s)) |` {?p..<hp_fresh (hp_put ?p (CStr s) hp)}) ?p"
    using hp_strD [OF s] by (simp add: struct_eq_def restrict_map_def hp_fresh_put)
  then show ?thesis
    using unp_enter [OF inner new, of "CStr s"] by (simp add: hp_get_put_fun hp_fresh_put)
qed

lemma unp_reference_ok:
  assumes un: "unp_ok R sh n unp" and cl: "closed R sh" and s: "hp_ref sh a = Some w" "a \<in> R"
    and new: "map_of tab a = None" and lf: "left sh tab < Suc n"
  obtains r tab' hp' gc' where
    "unp w ((a, hp_fresh hp) # tab, hp_put (hp_fresh hp) (CRef w) hp, gc(hp_fresh hp := 1)) = Some (r, tab', hp', gc')"
    "grows (hp_get sh) (map_of tab) (hp_get hp) (hp_fresh hp) (map_of tab')
      (hp_get (hp_put (hp_fresh hp) (CRef r) hp')) (hp_fresh (hp_put (hp_fresh hp) (CRef r) hp'))"
    "map_of tab' a = Some (hp_fresh hp)"
proof -
  let ?p = "hp_fresh hp" and ?hp1 = "hp_put (hp_fresh hp) (CRef w) hp"
  have lf1: "left sh ((a, ?p) # tab) < n"
    using left_enter [OF hp_refD [OF s(1)] new, of ?p] lf by (meson less_Suc_eq_le less_le_trans)
  have w: "zv_in R sh w" using cl s unfolding closed_def by blast
  obtain r tab' hp' gc' where r: "unp w ((a, ?p) # tab, ?hp1, gc(?p := 1)) = Some (r, tab', hp', gc')"
    "grows (hp_get sh) (map_of ((a, ?p) # tab)) (hp_get ?hp1) (hp_fresh ?hp1) (map_of tab') (hp_get hp') (hp_fresh hp')"
    "tr (map_of tab') w = Some r"
    by (rule unp_okE [OF un w lf1])
  have lt: "?p < hp_fresh hp'" using growsD(2) [OF r(2)] by (simp add: hp_fresh_put)
  have "struct_eq (map_of tab') (hp_get sh) a (((hp_get hp')(?p \<mapsto> CRef r)) |` {?p..<hp_fresh hp'}) ?p"
    using r(3) lt hp_refD [OF s(1)] by (simp add: struct_eq_def restrict_map_def)
  from unp_enter [OF r(2) new this] that [OF r(1)] show thesis by blast
qed

lemma unp_zval_ok:
  assumes cl: "closed R sh"
  shows "unp_ok R sh n (unpersist_zval n True sh)"
proof (induction n)
  case 0
  then show ?case by (simp add: unp_ok_def)
next
  case (Suc n)
  have "\<exists>r tab' hp' gc'. unpersist_zval (Suc n) True sh v (tab, hp, gc) = Some (r, tab', hp', gc') \<and>
        grows (hp_get sh) (map_of tab) (hp_get hp) (hp_fresh hp) (map_of tab') (hp_get hp') (hp_fresh hp') \<and>
        tr (map_of tab') v = Some r"
    if v: "zv_in R sh v" and lf: "left sh tab < Suc n" for v tab hp gc
  proof -
    consider (simple) "z_simple v" | (seen) p where "\<not> z_simple v" "map_of tab (Z_COUNTED v) = Some p"
      | (new) "\<not> z_simple v" "map_of tab (Z_COUNTED v) = None" by blast
    then show ?thesis
    proof cases
      case simple
      then show ?thesis by (auto simp: grows_put)
    next
      case seen
      then show ?thesis using v by (cases v) (auto simp: unpersist_copied_def Z_ADDREF_def zv_in_def grows_put)
    next
      case new
      show ?thesis
      proof (cases v)
        case (IS_STRING a)
        then obtain s where s: "hp_str sh a = Some s" using v by (auto simp: zv_in_def)
        have "map_of tab a = None" using new IS_STRING by simp
        from unp_string_ok [OF s this, of hp] show ?thesis
          using s new IS_STRING by (simp add: unpersist_copied_def apc_unpersist_zstr_def unpersist_enter_def unpersist_add_def Let_def)
      next
        case (IS_ARRAY a)
        then obtain ht where s: "hp_arr sh a = Some ht" "a \<in> R" using v by (auto simp: zv_in_def)
        have "map_of tab a = None" using new IS_ARRAY by simp
        from unp_ht_ok [OF Suc.IH cl s(2,1) this lf, of hp gc] s IS_ARRAY new show ?thesis
          by (auto simp: unpersist_copied_def)
      next
        case (IS_REFERENCE a)
        then obtain w where s: "hp_ref sh a = Some w" "a \<in> R" using v by (auto simp: zv_in_def)
        have "map_of tab a = None" using new IS_REFERENCE by simp
        then obtain r tab' hp' gc' where
          "unpersist_zval n True sh w ((a, hp_fresh hp) # tab, hp_put (hp_fresh hp) (CRef w) hp, gc(hp_fresh hp := 1)) =
             Some (r, tab', hp', gc')"
          "grows (hp_get sh) (map_of tab) (hp_get hp) (hp_fresh hp) (map_of tab')
            (hp_get (hp_put (hp_fresh hp) (CRef r) hp')) (hp_fresh (hp_put (hp_fresh hp) (CRef r) hp'))"
          "map_of tab' a = Some (hp_fresh hp)" by (rule unp_reference_ok [OF Suc.IH cl s _ lf])
        then show ?thesis using s new IS_REFERENCE
          by (simp add: unpersist_ref_def unpersist_enter_def unpersist_write_def unpersist_copied_def unpersist_add_def Let_def)
      qed (use v new in \<open>auto simp: zv_in_def\<close>)
    qed
  qed
  then show ?case unfolding unp_ok_def by blast
qed

end
