(* ===== verification/Apc_Persist_Image.thy ===== *)
theory Apc_Persist_Image imports Apc_Persist_Roundtrip begin

text \<open>
  What \<open>apc_persist\<close> leaves in the block it was given, and what \<open>apc_unpersist\<close> makes of it.
\<close>

section \<open>The image of a value in a block\<close>

definition stored_as ::
  "(heap \<Rightarrow> zval \<Rightarrow> string option) \<Rightarrow> apc_serializer_t option \<Rightarrow> heap \<Rightarrow> zval \<Rightarrow> (nat \<rightharpoonup> counted) \<Rightarrow> zval \<Rightarrow> bool" where
  "stored_as php_ser srz rq v dst v' \<longleftrightarrow>
     Z_TYPE v' \<noteq> 13 \<and> (\<exists>M. same_graph M (hp_get rq) dst \<and> tr M v = Some v') \<or>
     (\<exists>a s. v' = IS_PTR a \<and> dst a = Some (CStr s) \<and> persist_serialize php_ser srz rq v = Some (zs_val s))"

lemma tr_type: "tr M v = Some v' \<Longrightarrow> Z_TYPE v' = Z_TYPE v"
  by (cases v) (auto simp: tr_def)

lemma same_graph_empty [simp]: "same_graph Map.empty src dst"
  by (simp add: same_graph_def)

lemma copy_zstr_raw:
  assumes "apc_persist_copy_cstr s h (cc, sh) = Some (p, cc', sh')"
  shows "p = cx_alloc_cur cc" "cc' = cc\<lparr>cx_alloc_cur := cx_alloc_cur cc'\<rparr>" "cx_alloc_cur cc < cx_alloc_cur cc'"
    "hp_get sh' = (hp_get sh)(p \<mapsto> CStr (persist_zstr s h))"
proof -
  have sz: "0 < ZSTR_STRUCT_SIZE (length s)" by (simp add: ZSTR_STRUCT_SIZE_def)
  from assms have a: "apc_persist_alloc (ZSTR_STRUCT_SIZE (length s)) cc = Some (p, cc')"
    and r: "sh' = hp_put p (CStr (persist_zstr s h)) sh"
    by (auto simp: apc_persist_copy_cstr_def split: Option.bind_splits)
  note al = alloc_ok [OF a sz]
  show "p = cx_alloc_cur cc" "cx_alloc_cur cc < cx_alloc_cur cc'" using al by simp_all
  show "cc' = cc\<lparr>cx_alloc_cur := cx_alloc_cur cc'\<rparr>" using al(2) by (cases cc) simp
  show "hp_get sh' = (hp_get sh)(p \<mapsto> CStr (persist_zstr s h))" by (simp add: r hp_get_put_fun)
qed

lemma zs_val_persist [simp]: "zs_val (persist_zstr s h) = s"
  by (simp add: persist_zstr_def Let_def)

text \<open>One value, copied with the context as the first pass left it.\<close>

lemma value_image:
  assumes hp: "heap_ok rq" and top: "top_ok rq v"
    and c: "persist_copy_zval (persist_fuel rq) rq v (cc, sh) = Some (v', cc', sh')"
    and nz: "0 < cx_alloc_cur cc" and empty: "cx_already_allocated cc = []" and us: "\<not> cx_use_serialization cc"
    and memo: "Z_TYPE v = 7 \<longrightarrow> cx_memoization_needed cc"
  shows "cx_alloc_cur cc \<le> cx_alloc_cur cc'" "x \<notin> {cx_alloc_cur cc..<cx_alloc_cur cc'} \<Longrightarrow> hp_get sh' x = hp_get sh x"
    "stored_as php_ser srz rq v (hp_get sh' |` {cx_alloc_cur cc..<cx_alloc_cur cc'}) v'"
proof -
  have all: "cx_alloc_cur cc \<le> cx_alloc_cur cc' \<and> (\<forall>x. x \<notin> {cx_alloc_cur cc..<cx_alloc_cur cc'} \<longrightarrow> hp_get sh' x = hp_get sh x) \<and>
     stored_as php_ser srz rq v (hp_get sh' |` {cx_alloc_cur cc..<cx_alloc_cur cc'}) v'"
  proof (cases "Z_TYPE v = 7")
    case True
    then have on: "memo_on cc" using nz empty us memo by (simp add: memo_on_def)
    note ck = copy_okD [OF copy_zval_ok c on]
    have g: "grows (hp_get rq) Map.empty (hp_get sh) (cx_alloc_cur cc) (memo cc') (hp_get sh') (cx_alloc_cur cc')"
      using ck(2) empty by simp
    have "Z_TYPE v' \<noteq> 13" using tr_type [OF ck(3)] True by simp
    with growsD(2,3) [OF g] grows_graph [OF g] ck(3) show ?thesis unfolding stored_as_def by blast
  next
    case na: False
    show ?thesis
    proof (cases "z_simple v")
      case True
      with c have e: "v' = v" "cc' = cc" "sh' = sh" by (simp_all add: persist_fuel_Suc)
      have "tr Map.empty v = Some v" "Z_TYPE v \<noteq> 13" using True by (simp_all add: z_simple_def)
      then show ?thesis unfolding stored_as_def e by (auto intro: same_graph_empty)
    next
      case False
      with na top c us obtain a where v: "v = IS_STRING a"
        by (cases v) (auto simp: top_ok_def zv_ok_def persist_fuel_Suc Let_def)
      show ?thesis
      proof (cases "apc_persist_get_already_allocated a cc = 0")
        case True
        with c us v obtain s p cx1 where s: "hp_str rq a = Some s"
          and k: "apc_persist_copy_cstr (zs_val s) (zs_h s) (cc, sh) = Some (p, cx1, sh')"
          and r: "v' = IS_STRING p" "cc' = apc_persist_add_already_allocated a p cx1"
          by (auto simp: Let_def apc_persist_copy_zstr_def apc_persist_copy_zstr_no_add_def persist_fuel_Suc split: Option.bind_splits)
        note kr = copy_zstr_raw [OF k]
        have cur: "cx_alloc_cur cc' = cx_alloc_cur cx1" by (simp add: r apc_persist_add_already_allocated_def)
        have "same_graph [a \<mapsto> p] (hp_get rq) (hp_get sh' |` {cx_alloc_cur cc..<cx_alloc_cur cc'})"
          using kr hp_strD [OF s] by (simp add: same_graph_def struct_eq_def restrict_map_def cur)
        moreover have "tr [a \<mapsto> p] v = Some v'" "Z_TYPE v' \<noteq> 13" using v r by simp_all
        ultimately have "stored_as php_ser srz rq v (hp_get sh' |` {cx_alloc_cur cc..<cx_alloc_cur cc'}) v'"
          unfolding stored_as_def by blast
        with kr cur show ?thesis by auto
      next
        case False
        with empty show ?thesis by (simp add: apc_persist_get_already_allocated_def split: if_splits)
      qed
    qed
  qed
  show "cx_alloc_cur cc \<le> cx_alloc_cur cc'" using all by (rule conjunct1)
  show "x \<notin> {cx_alloc_cur cc..<cx_alloc_cur cc'} \<Longrightarrow> hp_get sh' x = hp_get sh x" by (rule all [THEN conjunct2, THEN conjunct1, rule_format])
  show "stored_as php_ser srz rq v (hp_get sh' |` {cx_alloc_cur cc..<cx_alloc_cur cc'}) v'" by (rule all [THEN conjunct2, THEN conjunct2])
qed

lemma stored_as_mono:
  assumes le: "dst \<subseteq>\<^sub>m dst'" and s: "stored_as php_ser srz rq v dst v'"
  shows "stored_as php_ser srz rq v dst' v'"
  using s unfolding stored_as_def
proof (elim disjE conjE exE)
  fix M assume "Z_TYPE v' \<noteq> 13" "same_graph M (hp_get rq) dst" "tr M v = Some v'"
  then show "Z_TYPE v' \<noteq> 13 \<and> (\<exists>M. same_graph M (hp_get rq) dst' \<and> tr M v = Some v') \<or>
     (\<exists>a s. v' = IS_PTR a \<and> dst' a = Some (CStr s) \<and> persist_serialize php_ser srz rq v = Some (zs_val s))"
    using same_graph_mono [OF le] by blast
next
  fix a s assume "v' = IS_PTR a" "dst a = Some (CStr s)" "persist_serialize php_ser srz rq v = Some (zs_val s)"
  then show "Z_TYPE v' \<noteq> 13 \<and> (\<exists>M. same_graph M (hp_get rq) dst' \<and> tr M v = Some v') \<or>
     (\<exists>a s. v' = IS_PTR a \<and> dst' a = Some (CStr s) \<and> persist_serialize php_ser srz rq v = Some (zs_val s))"
    using map_leD [OF le] by blast
qed

text \<open>The whole entry.\<close>

lemma entry_image:
  assumes hp: "heap_ok rq" and top: "top_ok rq (ce_val orig)" and p: "0 < p"
    and sz: "persist_size php_ser srz rq orig = Some (Some cx)"
    and c: "apc_persist_copy (persist_fuel rq) rq orig (cx\<lparr>cx_alloc := p, cx_alloc_cur := p\<rparr>, sh) = Some (e, cc', sh')"
  shows "x \<notin> {p..<p + cx_size cx} \<Longrightarrow> hp_get sh' x = hp_get sh x"
    "stored_as php_ser srz rq (ce_val orig) (hp_get sh' |` {p..<p + cx_size cx}) (ce_val e)"
proof -
  let ?cc = "cx\<lparr>cx_alloc := p, cx_alloc_cur := p\<rparr>"
  have cur': "cx_alloc_cur cc' = p + cx_size cx" using persist_copy_fits [OF hp top p sz, of sh] c by simp
  from c obtain q cx1 k cx2 sh2 v where a: "apc_persist_alloc SIZEOF_CACHE_ENTRY ?cc = Some (q, cx1)"
    and k: "apc_persist_copy_cstr (zs_val (ce_key orig)) (zs_h (ce_key orig)) (cx1, sh) = Some (k, cx2, sh2)"
    and v: "persist_copy_zval (persist_fuel rq) rq (ce_val orig) (cx2, sh2) = Some (v, cc', sh')" and e: "ce_val e = v"
    by (auto simp: apc_persist_copy_def apc_persist_copy_zstr_no_add_def split: Option.bind_splits)
  note a1 = alloc_ok [OF a]
  have c1: "p < cx_alloc_cur cx1" "cx1 = ?cc\<lparr>cx_alloc_cur := cx_alloc_cur cx1\<rparr>"
    using a1 by (auto simp: SIZEOF_CACHE_ENTRY_def)
  note kr = copy_zstr_raw [OF k]
  have c2: "cx2 = ?cc\<lparr>cx_alloc_cur := cx_alloc_cur cx2\<rparr>" by (subst kr(2), subst c1(2)) simp
  from arg_cong [OF this, of cx_already_allocated] arg_cong [OF this, of cx_use_serialization]
    arg_cong [OF this, of cx_memoization_needed] arg_cong [OF this, of cx_serialized_str]
  have f2: "cx_already_allocated cx2 = cx_already_allocated cx" "cx_use_serialization cx2 = cx_use_serialization cx"
    "cx_memoization_needed cx2 = cx_memoization_needed cx" "cx_serialized_str cx2 = cx_serialized_str cx"
    by simp_all
  have lt: "p < cx_alloc_cur cx2" using c1 kr(3) by simp
  have f12: "x \<notin> {p..<cx_alloc_cur cx2} \<Longrightarrow> hp_get sh2 x = hp_get sh x" for x using kr c1 by auto
  have main: "cx_alloc_cur cx2 \<le> cx_alloc_cur cc' \<and>
      (\<forall>x. x \<notin> {cx_alloc_cur cx2..<cx_alloc_cur cc'} \<longrightarrow> hp_get sh' x = hp_get sh2 x) \<and>
      stored_as php_ser srz rq (ce_val orig) (hp_get sh' |` {cx_alloc_cur cx2..<cx_alloc_cur cc'}) v"
  proof (cases rule: persist_size_cases [OF hp top sz])
    case 1
    let ?c0 = "persist_context srz (ce_val orig)"
    have "calc_good rq (calc_start orig ?c0)"
      using 1(1) by (simp add: calc_good_def persist_context_def apc_persist_init_context_def)
    then have "calc_good rq cx" using follows_zval [OF hp 1(2)] top by (simp add: top_ok_def)
    then have us: "\<not> cx_use_serialization cx2" using f2 by (simp add: calc_good_def)
    have "calc_frame cx = calc_frame ?c0" using calc_zval_frame [OF 1(2)] by simp
    then have "cx_already_allocated cx2 = []" "Z_TYPE (ce_val orig) = 7 \<longrightarrow> cx_memoization_needed cx2"
      using f2 1(1) by (auto simp: calc_frame_def persist_context_def apc_persist_init_context_def)
    note vi = value_image [OF hp top v _ this(1) us this(2)]
    show ?thesis using vi(1) vi(2) vi(3) lt by simp
  next
    case (2 c0 buf)
    have ns: "\<not> z_simple (ce_val orig)" using 2(3) by (auto simp: z_simple_def)
    have cx: "cx_use_serialization cx" "cx_serialized_str cx = Some buf" using 2(1,6) by (simp_all add: ADD_SIZE_STR_def ADD_SIZE_def calc_start_def)
    with v ns f2 obtain a where b: "apc_persist_copy_cstr buf 0 (cx2, sh2) = Some (a, cc', sh')" "v = IS_PTR a"
      by (auto simp: persist_fuel_Suc apc_persist_copy_serialize_def assert_c_def split: Option.bind_splits if_splits)
    note br = copy_zstr_raw [OF b(1)]
    show ?thesis using br b(2) 2(5) unfolding stored_as_def by (auto simp: restrict_map_def)
  qed
  show "hp_get sh' x = hp_get sh x" if "x \<notin> {p..<p + cx_size cx}"
    using main f12 [of x] that lt cur' by auto
  have "stored_as php_ser srz rq (ce_val orig) (hp_get sh' |` {cx_alloc_cur cx2..<cx_alloc_cur cc'}) v" using main by blast
  then show "stored_as php_ser srz rq (ce_val orig) (hp_get sh' |` {p..<p + cx_size cx}) (ce_val e)"
    unfolding e cur' [symmetric] by (rule stored_as_mono [rotated]) (use lt in \<open>auto intro: restrict_le\<close>)
qed

section \<open>Reading the image\<close>

lemma same_graph_at: "same_graph M src dst \<Longrightarrow> M a = Some b \<Longrightarrow> struct_eq M src a dst b"
  by (simp add: same_graph_def)

lemma same_graph_zv_in:
  assumes "heap_ok rq" "same_graph M (hp_get rq) (hp_get sh)" "zv_ok rq v \<or> (\<exists>a. v = IS_INDIRECT a)" "tr M v = Some v'"
  shows "zv_in (ran M) sh v'"
proof (cases v)
  case (IS_STRING a)
  then obtain b s where b: "M a = Some b" "v' = IS_STRING b" "hp_str rq a = Some s" using assms(3,4) by (auto simp: zv_ok_def)
  from same_graph_at [OF assms(2) b(1)] hp_strD [OF b(3)] b show ?thesis
    by (auto simp: zv_in_def struct_eq_def hp_str_def ran_def split: option.splits counted.splits)
next
  case (IS_ARRAY a)
  then obtain b s where b: "M a = Some b" "v' = IS_ARRAY b" "hp_arr rq a = Some s" using assms(3,4) by (auto simp: zv_ok_def)
  from same_graph_at [OF assms(2) b(1)] hp_arrD [OF b(3)] b show ?thesis
    by (auto simp: zv_in_def struct_eq_def hp_arr_def ran_def split: option.splits counted.splits)
next
  case (IS_REFERENCE a)
  then obtain b s where b: "M a = Some b" "v' = IS_REFERENCE b" "hp_ref rq a = Some s" using assms(3,4) by (auto simp: zv_ok_def)
  from same_graph_at [OF assms(2) b(1)] hp_refD [OF b(3)] b show ?thesis
    by (auto simp: zv_in_def struct_eq_def hp_ref_def ran_def split: option.splits counted.splits)
qed (use assms(4) in \<open>auto simp: tr_def zv_in_def\<close>)

lemma same_graph_closed:
  assumes hp: "heap_ok rq" and g: "same_graph M (hp_get rq) (hp_get sh)"
  shows "closed (ran M) sh"
  unfolding closed_def
proof (intro ballI conjI allI impI)
  fix b assume "b \<in> ran M"
  then obtain a where a: "M a = Some b" by (auto simp: ran_def)
  note e = same_graph_at [OF g a]
  {
    fix ht' assume h': "hp_arr sh b = Some ht'"
    with e obtain ht where h: "hp_get rq a = Some (CArr ht)" and t: "table_eq M (hp_get rq) (hp_get sh) ht ht'"
      by (auto simp: struct_eq_def dest!: hp_arrD split: option.splits counted.splits)
    have ok: "bucket_ok rq p" if "p \<in> set (ht_data ht)" for p
      using heap_ok_arr [OF hp _ that, of a] h by (simp add: hp_arr_def)
    show "marks_ok ht'" using t by (simp add: table_eq_def)
    fix q assume "q \<in> set (ht_data ht')"
    moreover have l: "list_all2 (bucket_eq M (hp_get rq) (hp_get sh)) (ht_data ht) (ht_data ht')"
      using t by (simp add: table_eq_def)
    ultimately obtain p where p: "p \<in> set (ht_data ht)" "bucket_eq M (hp_get rq) (hp_get sh) p q"
      by (metis in_set_conv_nth list_all2_lengthD list_all2_nthD2 nth_mem)
    show "zv_in (ran M) sh (bk_val q)"
      using same_graph_zv_in [OF hp g, of "bk_val p" "bk_val q"] ok [OF p(1)] p(2) by (auto simp: bucket_eq_def bucket_ok_def)
    show "hp_str sh (bk_key q) \<noteq> None" if "keyed q"
      using that p(2) by (auto simp: keyed_def bucket_eq_def tr_undef key_eq_def hp_str_def split: if_splits)
  }
  fix v' assume "hp_ref sh b = Some v'"
  with e obtain v where h: "hp_get rq a = Some (CRef v)" "tr M v = Some v'"
    by (auto simp: struct_eq_def dest!: hp_refD split: option.splits counted.splits)
  then show "zv_in (ran M) sh v'"
    using same_graph_zv_in [OF hp g, of v v'] heap_ok_ref [OF hp, of a v] by (simp add: hp_ref_def)
qed

text \<open>
  Reading back: the request's store only grows at fresh addresses, and the value built there is the
  one that was stored, or what \<open>unserialize\<close> makes of the string that \<open>serialize\<close> returned.
\<close>

definition read_back ::
  "(heap \<Rightarrow> string \<Rightarrow> (zval \<times> heap) option) \<Rightarrow> apc_serializer_t option \<Rightarrow> heap \<Rightarrow> string \<Rightarrow> bool \<times> zval \<times> heap" where
  "read_back php_unser serializer rq buf =
     (case (case serializer of None \<Rightarrow> php_unser | Some r \<Rightarrow> ser_unserialize r) rq buf of
        Some (v, rq1) \<Rightarrow> (True, v, rq1)
      | None \<Rightarrow> (False, IS_NULL, rq))"

lemma unpersist_static_string:
  "hp_str sh a = Some s \<Longrightarrow> unpersist_zval (persist_fuel sh) False sh (IS_STRING a) ([], rq, gc) =
     Some (IS_STRING (hp_fresh rq), [], hp_put (hp_fresh rq) (CStr s) rq, gc(hp_fresh rq := 1))"
  by (simp add: persist_fuel_Suc unpersist_copied_def apc_unpersist_zstr_def unpersist_enter_def unpersist_add_def Let_def)

lemma left_start: "left sh [] < persist_fuel sh"
proof -
  have "dom (hp_get sh) = fst ` set sh" by (simp add: hp_get_def [abs_def] dom_map_of_conv_image_fst)
  then have "left sh [] \<le> length sh" by (simp add: left_def) (metis card_image_le card_length finite_set le_trans)
  then show ?thesis by (simp add: persist_fuel_def)
qed

lemma unpersist_image:
  assumes hp: "heap_ok rq" and top: "top_ok rq v" and s: "stored_as php_ser srz rq v (hp_get sh) v'"
  obtains (copied) r rq2 where "apc_unpersist php_unser srz sh v' rq1 = Some (True, r, rq2)"
      "same_value rq v rq2 r" "\<forall>x < hp_fresh rq1. hp_get rq2 x = hp_get rq1 x"
  | (serialized) buf where "persist_serialize php_ser srz rq v = Some buf"
      "apc_unpersist php_unser srz sh v' rq1 = Some (read_back php_unser srz rq1 buf)"
proof (cases "Z_TYPE v' = 13")
  case True
  then obtain a s where "v' = IS_PTR a" "hp_get sh a = Some (CStr s)" "persist_serialize php_ser srz rq v = Some (zs_val s)"
    using s by (auto simp: stored_as_def)
  with serialized show ?thesis by (simp add: apc_unpersist_def apc_unpersist_serialized_def hp_str_def read_back_def split: option.splits)
next
  case False
  then obtain M where M: "same_graph M (hp_get rq) (hp_get sh)" "tr M v = Some v'"
    using s by (auto simp: stored_as_def)
  have in': "zv_in (ran M) sh v'" using same_graph_zv_in [OF hp M(1) _ M(2)] top by (simp add: top_ok_def)
  have sv: "same_value rq v sh v'" using M by (auto simp: same_value_def)
  have nr: "Z_TYPE v' \<noteq> 10" using tr_type [OF M(2)] top by (simp add: top_ok_def)
  have un: "apc_unpersist php_unser srz sh v' rq1 =
      (case unpersist_zval (persist_fuel sh) (Z_TYPE v' = 7) sh v' ([], rq1, \<lambda>_. 0) of
         None \<Rightarrow> None | Some (r, st) \<Rightarrow> Some (True, r, fst (snd st)))"
    using nr False by (cases v') (auto simp: apc_unpersist_def unpersist_value_def assert_c_def split: option.split)
  show ?thesis
  proof (cases "Z_TYPE v' = 7")
    case True
    obtain r tab' rq2 gc2 where r: "unpersist_zval (persist_fuel sh) True sh v' ([], rq1, \<lambda>_. 0) = Some (r, tab', rq2, gc2)"
      "grows (hp_get sh) (map_of []) (hp_get rq1) (hp_fresh rq1) (map_of tab') (hp_get rq2) (hp_fresh rq2)"
      "tr (map_of tab') v' = Some r"
      by (rule unp_okE [OF unp_zval_ok [OF same_graph_closed [OF hp M(1)]] in' left_start])
    have g: "grows (hp_get sh) Map.empty (hp_get rq1) (hp_fresh rq1) (map_of tab') (hp_get rq2) (hp_fresh rq2)" using r(2) by simp
    have "same_graph (map_of tab') (hp_get sh) (hp_get rq2)"
      by (rule same_graph_mono [OF _ grows_graph [OF g]]) (auto simp: map_le_def restrict_map_def)
    with r(3) have "same_value sh v' rq2 r" by (auto simp: same_value_def)
    note eq = same_value_trans [OF sv this]
    have "apc_unpersist php_unser srz sh v' rq1 = Some (True, r, rq2)" using un r(1) True by simp
    then show ?thesis by (rule copied [OF _ eq]) (simp add: growsD(3) [OF g])
  next
    case na: False
    show ?thesis
    proof (cases "z_simple v'")
      case True
      then have "unpersist_zval (persist_fuel sh) (Z_TYPE v' = 7) sh v' ([], rq1, \<lambda>_. 0) = Some (v', [], rq1, \<lambda>_. 0)"
        by (simp add: persist_fuel_Suc)
      then have e: "apc_unpersist php_unser srz sh v' rq1 = Some (True, v', rq1)" using un by simp
      have "z_simple v" using True tr_type [OF M(2)] by (simp add: z_simple_def)
      then have "v = v'" using M(2) by simp
      then have "same_value rq v rq1 v'" unfolding same_value_def using True by (intro exI [of _ Map.empty]) simp
      with e show ?thesis by (rule copied) simp
    next
      case ns: False
      with na in' nr False obtain a s where a: "v' = IS_STRING a" "hp_str sh a = Some s"
        by (cases v') (auto simp: zv_in_def)
      let ?p = "hp_fresh rq1"
      have "same_graph [a \<mapsto> ?p] (hp_get sh) (hp_get (hp_put ?p (CStr s) rq1))"
        using hp_strD [OF a(2)] by (simp add: same_graph_def struct_eq_def)
      then have "same_value sh v' (hp_put ?p (CStr s) rq1) (IS_STRING ?p)"
        unfolding same_value_def a(1) by (intro exI [of _ "[a \<mapsto> ?p]"]) simp
      note eq = same_value_trans [OF sv this]
      have "apc_unpersist php_unser srz sh v' rq1 = Some (True, IS_STRING ?p, hp_put ?p (CStr s) rq1)"
        using un unpersist_static_string [OF a(2), of rq1 "\<lambda>_. 0"] a(1) by simp
      then show ?thesis by (rule copied [OF _ eq]) simp
    qed
  qed
qed

text \<open>Both directions together.\<close>

lemma apc_persist_image:
  assumes hp: "heap_ok rq" and top: "top_ok rq (ce_val orig)"
    and r: "apc_persist php_ser malloc srz rq orig (s, sh) = Some (Some e, s1, sh')"
  obtains n where "malloc s n = Some (ce_addr e, s1)" "0 < ce_addr e" "ce_mem_size e = of_nat n"
    "\<forall>x. x \<notin> {ce_addr e..<ce_addr e + n} \<longrightarrow> hp_get sh' x = hp_get sh x"
    "stored_as php_ser srz rq (ce_val orig) (hp_get sh' |` {ce_addr e..<ce_addr e + n}) (ce_val e)"
proof -
  from r obtain cx p e0 cx2 where sz: "persist_size php_ser srz rq orig = Some (Some cx)"
    and m: "malloc s (cx_size cx) = Some (p, s1)" and p: "0 < p"
    and c: "apc_persist_copy (persist_fuel rq) rq orig (cx\<lparr>cx_alloc := p, cx_alloc_cur := p\<rparr>, sh) = Some (e0, cx2, sh')"
    and e: "e = e0\<lparr>ce_mem_size := of_nat (cx_size cx)\<rparr>"
    by (auto simp: apc_persist_def split: Option.bind_splits option.splits if_splits)
  have a: "ce_addr e = p" "ce_val e = ce_val e0" using apc_persist_copy_entry [OF c] e by auto
  note im = entry_image [OF hp top p sz c]
  show ?thesis
    by (rule that [of "cx_size cx"]) (use m p e a im in simp_all)
qed

lemma persist_unpersist:
  assumes hp: "heap_ok rq" and top: "top_ok rq (ce_val orig)"
    and r: "apc_persist php_ser malloc srz rq orig (s, sh) = Some (Some e, s1, sh')"
  obtains (copied) v rq2 where "apc_unpersist php_unser srz sh' (ce_val e) rq1 = Some (True, v, rq2)"
      "same_value rq (ce_val orig) rq2 v" "\<forall>x < hp_fresh rq1. hp_get rq2 x = hp_get rq1 x"
  | (serialized) buf where "persist_serialize php_ser srz rq (ce_val orig) = Some buf"
      "apc_unpersist php_unser srz sh' (ce_val e) rq1 = Some (read_back php_unser srz rq1 buf)"
proof -
  obtain n where im: "stored_as php_ser srz rq (ce_val orig) (hp_get sh' |` {ce_addr e..<ce_addr e + n}) (ce_val e)"
    by (rule apc_persist_image [OF hp top r])
  have "stored_as php_ser srz rq (ce_val orig) (hp_get sh') (ce_val e)"
    by (rule stored_as_mono [OF _ im]) (auto simp: map_le_def restrict_map_def)
  from unpersist_image [OF hp top this] copied serialized show ?thesis by metis
qed

end
