(* ===== verification/Apc_Cache_Store.thy ===== *)
theory Apc_Cache_Store imports Apc_Cache_Alloc Apc_Persist_Image begin

text \<open>
  Storing: the defense, \<open>apc_persist\<close> through the cache's allocation, insertion, and giving the
  block back when the insertion was refused.
\<close>

definition set_shm :: "heap \<Rightarrow> world \<Rightarrow> world" where
  "set_shm sh w = (fst w, (snd w)\<lparr>cs_shm := sh\<rparr>)"

lemma set_shm_simps [simp]:
  "fst (set_shm sh w) = fst w" "cch (set_shm sh w) = cch w" "glb (set_shm sh w) = glb w"
  "cs_null (snd (set_shm sh w)) = cs_null (snd w)" "cs_shm (snd (set_shm sh w)) = sh"
  by (simp_all add: set_shm_def)

lemma set_shm_same [simp]: "set_shm (cs_shm (snd w)) w = w"
  by (cases w) (simp add: set_shm_def)

lemma cache_inv_set_shm [simp]: "cache_inv X (set_shm sh w) = cache_inv X w"
  by (rule cache_inv_cong) simp_all

text \<open>As \<open>same_config\<close>, for operations that also write values into shared memory.\<close>

definition same_setup :: "apc_env \<Rightarrow> world \<Rightarrow> world \<Rightarrow> bool" where
  "same_setup ev w w' \<longleftrightarrow> same_config ev w (set_shm (cs_shm (snd w)) w')"

lemma same_config_setup: "same_config ev w w' \<Longrightarrow> same_setup ev w w'"
  using same_configD(10) [of ev w w'] by (simp add: same_setup_def) (metis set_shm_same)

lemma same_setup_trans: "same_setup ev w w1 \<Longrightarrow> same_setup ev w1 w2 \<Longrightarrow> same_setup ev w w2"
  by (auto simp: same_setup_def same_config_def intro: tick_trans)

lemma same_setupD:
  assumes "same_setup ev w w'"
  shows "cs_null (snd w') = cs_null (snd w)" "lock_ready w' = lock_ready w" "lock_works w' = lock_works w"
    "g_entry_level (glb w') = g_entry_level (glb w)" "c_lock (cch w') = c_lock (cch w)"
    "g_depth (glb w') = g_depth (glb w)" "c_serializer (cch w') = c_serializer (cch w)"
    "c_ttl (cch w') = c_ttl (cch w)" "tick ev (glb w) (glb w')" "c_nslots (cch w') = c_nslots (cch w)"
    "c_defend (cch w') = c_defend (cch w)" "c_shmaddr (cch w') = c_shmaddr (cch w)"
proof -
  from assms have s: "same_config ev w (set_shm (cs_shm (snd w)) w')" by (simp add: same_setup_def)
  note c = same_configD [OF s]
  show "cs_null (snd w') = cs_null (snd w)" "lock_ready w' = lock_ready w" "lock_works w' = lock_works w"
    "g_entry_level (glb w') = g_entry_level (glb w)" "c_lock (cch w') = c_lock (cch w)"
    "g_depth (glb w') = g_depth (glb w)" "c_serializer (cch w') = c_serializer (cch w)"
    "c_ttl (cch w') = c_ttl (cch w)" "tick ev (glb w) (glb w')" "c_nslots (cch w') = c_nslots (cch w)"
    "c_defend (cch w') = c_defend (cch w)" "c_shmaddr (cch w') = c_shmaddr (cch w)"
    using c by (simp_all add: lock_ready_def lock_works_def)
qed

section \<open>Giving a block back\<close>

lemma free_inv:
  assumes inv: "cache_inv (insert p X) w" and p: "p \<notin> X"
  obtains sma' where "free_entry p w = Some (sma', snd w)" "cache_inv X (sma', snd w)"
    "sma_frame sma' = sma_frame (fst w)"
proof -
  note h = cache_invD(3) [OF inv] and dj = cache_invD(2) [OF inv]
  note hd = holdsD [OF h]
  have lv: "p \<in> fst ` sma_live (fst w)" using hd(3) by auto
  obtain sma' where s: "free_entry p w = Some (sma', snd w)" "sma_usable sma'"
    "fst ` sma_live sma' = fst ` sma_live (fst w) - {p}" "sma_frame sma' = sma_frame (fst w)"
    by (rule free_entry_ok [OF hd(1) lv])
  have pa: "p \<notin> addrs (cch w)" "p \<noteq> c_shmaddr (cch w)" "p \<notin> set (gc_addrs w)" using dj hd(4,6) by auto
  have "card (addrs (cch w)) = length (entries (cch w))"
    using distinct_card [OF table_okD(4) [OF cache_invD(1) [OF inv]]] by (simp add: addrs_def)
  moreover have "card (addrs (cch w)) \<le> card (addrs (cch w) \<union> X)"
    using holds_card(1) [OF h] by (intro card_mono) auto
  ultimately have "holds (length (entries (cch w))) (addrs (cch w) \<union> X) (sma', snd w)"
    using hd s pa p by (auto simp: holds_def gc_addrs_def)
  then have "cache_inv X (sma', snd w)" using inv by (simp add: cache_inv_def)
  with s that show ?thesis by blast
qed

section \<open>The defense\<close>

lemma defense_ok:
  assumes "cache_inv X w"
  shows "cache_inv X (snd (apc_cache_defense ev key t w))" "same_config ev w (snd (apc_cache_defense ev key t w))"
    "cmap (cch (snd (apc_cache_defense ev key t w))) = cmap (cch w)"
  using assms
  by (auto simp: apc_cache_defense_def Let_def cache_inv_cong [of "upd_cache _ w" w] intro!: same_config_upd cmap_cong)
    (simp_all add: config_def)

section \<open>Persisting\<close>

text \<open>What the request may ask for: a value of the request that fits in the address space.\<close>

definition storable :: "apc_env \<Rightarrow> apc_serializer_t option \<Rightarrow> apc_cache_entry_t \<Rightarrow> bool" where
  "storable ev srz orig \<longleftrightarrow> heap_ok (ev_rq ev) \<and> top_ok (ev_rq ev) (ce_val orig) \<and>
     persist_below (SIZE_LIMIT - 39) (php_apc_serializer (ev_php_var_serialize ev)) srz (ev_rq ev) orig"

text \<open>The shared store holds the value under the address that the entry has.\<close>

definition stored_value :: "apc_env \<Rightarrow> apc_serializer_t option \<Rightarrow> zval \<Rightarrow> heap \<Rightarrow> zval \<Rightarrow> bool" where
  "stored_value ev srz val sh v \<longleftrightarrow>
     stored_as (php_apc_serializer (ev_php_var_serialize ev)) srz (ev_rq ev) val (hp_get sh) v"

lemma persist_stored_value:
  assumes st: "storable ev srz orig"
    and r: "apc_persist (php_apc_serializer (ev_php_var_serialize ev)) malloc srz (ev_rq ev) orig (s, sh) = Some (Some e, s1, sh')"
  shows "stored_value ev srz (ce_val orig) sh' (ce_val e)"
proof -
  have st': "heap_ok (ev_rq ev)" "top_ok (ev_rq ev) (ce_val orig)" using st by (simp_all add: storable_def)
  obtain n where "stored_as (php_apc_serializer (ev_php_var_serialize ev)) srz (ev_rq ev) (ce_val orig)
      (hp_get sh' |` {ce_addr e..<ce_addr e + n}) (ce_val e)"
    by (rule apc_persist_image [OF st' r])
  then show ?thesis
    unfolding stored_value_def by (rule stored_as_mono [rotated]) (auto simp: map_le_def restrict_map_def)
qed

lemma cache_persist_ok:
  assumes inv: "cache_inv X w" and lk: "lock_ready w" and nn: "\<not> cs_null (snd w)"
    and st: "storable ev (c_serializer (cch w)) orig"
  obtains (none) w' where "cache_persist ev orig w = Some (None, w')" "shed_from X ev w w'"
  | (some) p v n w' where "cache_persist ev orig w = Some (Some (orig\<lparr>ce_addr := p,
         ce_key := persist_zstr (zs_val (ce_key orig)) (zs_h (ce_key orig)), ce_val := v,
         ce_mem_size := of_nat n\<rparr>), w')" "z_simple (ce_val orig) \<longrightarrow> v = ce_val orig"
      "cache_inv (insert p X) w'" "p \<notin> X" "same_setup ev w w'" "sheds (\<lambda>_. True) (cmap (cch w)) (cmap (cch w'))"
      "stored_value ev (c_serializer (cch w)) (ce_val orig) (cs_shm (snd w')) v"
proof -
  let ?ser = "php_apc_serializer (ev_php_var_serialize ev)"
  have st': "heap_ok (ev_rq ev)" "top_ok (ev_rq ev) (ce_val orig)"
    "persist_below (SIZE_LIMIT - 39) ?ser (c_serializer (cch w)) (ev_rq ev) orig"
    using st by (simp_all add: storable_def)
  have al: "\<exists>q s'. cache_malloc ev w n = Some (q, s')" if "n < SIZE_LIMIT - 39" for n
    by (rule cache_malloc_ok [OF inv lk nn, of n]) (use that in auto)
  show ?thesis
  proof (rule apc_persist_ends [where malloc = "cache_malloc ev" and s = w and sh = "cs_shm (snd w)", OF st'], goal_cases)
    case (1 n)
    then show ?case by (rule al)
  next
    case 2
    have "shed_from X ev w w" using inv by (simp add: shed_from_def)
    then show ?case using none [of w] 2 by (cases w) (simp add: cache_persist_def)
  next
    case (3 n s1)
    then have n: "n + 39 < SIZE_LIMIT" by simp
    have sf: "shed_from X ev w s1"
      by (rule cache_malloc_ok [OF inv lk nn n, of ev]) (use 3 in auto)
    then have "cs_shm (snd s1) = cs_shm (snd w)" using same_configD(10) [of ev w s1] by (simp add: shed_from_def)
    then have "(fst s1, (snd s1)\<lparr>cs_shm := cs_shm (snd w)\<rparr>) = s1" using set_shm_same [of s1] by (simp add: set_shm_def)
    then show ?case using none [OF _ sf] 3 by (simp add: cache_persist_def)
  next
    case (4 n p s1 v sh')
    then have n: "n + 39 < SIZE_LIMIT" by simp
    have pX: "p \<notin> X" "shed_from (insert p X) ev w s1"
      by (rule cache_malloc_ok [OF inv lk nn n, of ev]; use 4 in auto)+
    let ?w' = "set_shm sh' s1"
    from pX have c: "cache_inv (insert p X) ?w'" "same_config ev w s1" "sheds (\<lambda>_. True) (cmap (cch w)) (cmap (cch ?w'))"
      by (simp_all add: shed_from_def)
    have ss: "same_setup ev w ?w'" using same_config_setup [OF c(2)] by (simp add: same_setup_def set_shm_def)
    have sv: "stored_value ev (c_serializer (cch w)) (ce_val orig) (cs_shm (snd ?w')) v"
      using persist_stored_value [OF st 4(4)] by simp
    show ?case
      using some [where v = v and n = n, OF _ _ c(1) pX(1) ss c(3) sv] 4 by (simp add: cache_persist_def set_shm_def)
  qed
qed

section \<open>apc_cache_store\<close>

definition cache_ready :: "world \<Rightarrow> bool" where
  "cache_ready w \<longleftrightarrow> \<not> cs_null (snd w) \<and> cache_inv {} w \<and> lock_ready w"

definition fresh_entry :: "zend_string \<Rightarrow> zval \<Rightarrow> 32 word \<Rightarrow> i64 \<Rightarrow> apc_cache_entry_t \<Rightarrow> bool" where
  "fresh_entry key val ttl t e \<longleftrightarrow> zval_of_key e = zs_val key \<and> (z_simple val \<longrightarrow> ce_val e = val) \<and>
     ce_ttl e = scast ttl \<and> ce_ref_count e = 0 \<and> ce_nhits e = 0 \<and> ce_ctime e = t \<and> ce_mtime e = t \<and> ce_atime e = t"

text \<open>Why a store fails: slammed, not persisted, the lock is unusable, or the key is taken.\<close>

definition store_refused :: "apc_env \<Rightarrow> zend_string \<Rightarrow> zval \<Rightarrow> 32 word \<Rightarrow> bool \<Rightarrow> i64 \<Rightarrow>
    (string \<Rightarrow> apc_cache_entry_t option) \<Rightarrow> world \<Rightarrow> bool" where
  "store_refused ev key val ttl excl t m w \<longleftrightarrow> fst (apc_cache_defense ev key t w) \<or>
     (\<exists>w'. cache_persist ev (apc_cache_init_entry key val ttl t) (snd (apc_cache_defense ev key t w)) = Some (None, w')) \<or>
     \<not> lock_works w \<or> blocks_insert excl t (m (zs_val key))"

definition store_effect :: "apc_env \<Rightarrow> zend_string \<Rightarrow> zval \<Rightarrow> 32 word \<Rightarrow> bool \<Rightarrow> world \<Rightarrow> bool \<Rightarrow> world \<Rightarrow> bool" where
  "store_effect ev key val ttl excl w ok w' \<longleftrightarrow>
     (let (t, g) = apc_time ev (glb w) in
       \<exists>m. sheds (\<lambda>_. True) (cmap (cch w)) m \<and>
         (if ok then \<not> blocks_insert excl t (m (zs_val key)) \<and>
                     (\<exists>e. fresh_entry key val ttl t e \<and> stored_value ev (c_serializer (cch w)) val (cs_shm (snd w')) (ce_val e) \<and>
                        cmap (cch w') = m(zs_val key \<mapsto> e))
          else cmap (cch w') = m \<and> store_refused ev key val ttl excl t m (upd_g g w)))"

lemma persist_zstr_ok:
  "zs_ok key \<Longrightarrow> zs_h (persist_zstr (zs_val key) (zs_h key)) = zend_inline_hash_func (zs_val key)"
  "zs_val (persist_zstr (zs_val key) (zs_h key)) = zs_val key"
  by (auto simp: persist_zstr_def ZSTR_HASH_def zs_ok_def Let_def)

lemma sheds_any: "sheds P m m' \<Longrightarrow> sheds (\<lambda>_. True) m m'"
  by (rule sheds_mono) simp_all

lemma store_start:
  assumes r: "cache_ready w" and tg: "apc_time ev (glb w) = (t, g)"
    and d: "apc_cache_defense ev key t (upd_g g w) = (slam, w1)"
  shows "cache_inv {} w1" "same_config ev w w1" "cmap (cch w1) = cmap (cch w)" "lock_ready w1"
    "\<not> cs_null (snd w1)" "cache_ready w1" "apc_time ev (glb w1) = (t, g)"
proof -
  let ?w0 = "upd_g g w"
  have sc0: "same_config ev w ?w0" using tg by (simp add: same_config_def tick_def)
  have i0: "cache_inv {} ?w0" using r cache_inv_cong [of ?w0 w "{}"] by (simp add: cache_ready_def)
  from defense_ok [OF i0, of ev key t] show i1: "cache_inv {} w1"
    and c: "cmap (cch w1) = cmap (cch w)" by (simp_all add: d)
  have "same_config ev ?w0 w1" using defense_ok [OF i0, of ev key t] by (simp add: d)
  then show sc: "same_config ev w w1" by (rule same_config_trans [OF sc0])
  show l: "lock_ready w1" and n: "\<not> cs_null (snd w1)"
    using lock_ready_config [OF sc] same_configD(9) [OF sc] r by (simp_all add: cache_ready_def)
  show "cache_ready w1" using i1 l n by (simp add: cache_ready_def)
  show "apc_time ev (glb w1) = (t, g)" using tick_time [OF same_configD(12) [OF sc]] tg by simp
qed

text \<open>The insertion of a persisted entry, and giving the block back when it is refused.\<close>

lemma insert_or_free:
  assumes inv: "cache_inv {ce_addr e} w" and key: "zs_h (ce_key e) = zend_inline_hash_func (zval_of_key e)"
  obtains ok w1 where "apc_cache_wlocked_insert ev e excl w = Some (ok, w1)" "same_config ev w w1"
    "ok \<longrightarrow> cache_inv {} w1"
    "\<not> ok \<longrightarrow> cache_inv {ce_addr e} w1"
    "\<exists>m. sheds (\<lambda>_. True) (cmap (cch w)) m \<and> ok = (\<not> blocks_insert excl (ce_ctime e) (m (zval_of_key e))) \<and>
       cmap (cch w1) = (if ok then m(zval_of_key e \<mapsto> e) else m)"
proof -
  have new: "ce_addr e \<in> {ce_addr e}" by simp
  obtain ok w1 where i: "apc_cache_wlocked_insert ev e excl w = Some (ok, w1)"
    "cache_inv (if ok then {ce_addr e} - {ce_addr e} else {ce_addr e}) w1" "same_config ev w w1"
    "ok \<longleftrightarrow> \<not> blocks_insert excl (ce_ctime e) (cmap (cch w) (zval_of_key e))" "inserted (ce_ctime e) e ok w w1"
    by (rule wlocked_insert_ok [OF inv new key])
  from i(5) obtain m where m: "sheds (\<lambda>e'. apc_cache_entry_expired (c_ttl (cch w)) e' (ce_ctime e)) (cmap (cch w)) m"
    "m (zval_of_key e) = cmap (cch w) (zval_of_key e)"
    "cmap (cch w1) = (if ok then m(zval_of_key e \<mapsto> e) else m)" by (auto simp: inserted_def)
  have "\<exists>m. sheds (\<lambda>_. True) (cmap (cch w)) m \<and> ok = (\<not> blocks_insert excl (ce_ctime e) (m (zval_of_key e))) \<and>
       cmap (cch w1) = (if ok then m(zval_of_key e \<mapsto> e) else m)"
    using sheds_any [OF m(1)] m(2,3) i(4) by (intro exI [of _ m]) simp
  with that [OF i(1,3)] i(2) show ?thesis by (cases ok) simp_all
qed

text \<open>The part of a store that follows the copy of the value into the block.\<close>

definition store_tail :: "apc_env \<Rightarrow> apc_cache_entry_t \<Rightarrow> bool \<Rightarrow> world \<Rightarrow> (bool \<times> world) option" where
  "store_tail ev e excl w = do {
     (ok, w3) \<leftarrow> apc_cache_wlock w;
     if \<not> ok then do { w4 \<leftarrow> free_entry (ce_addr e) w3; Some (False, w4) }
     else do {
       (ret, w4) \<leftarrow> apc_cache_wlocked_insert ev e excl w3;
       w5 \<leftarrow> apc_cache_wunlock w4;
       if ret then Some (True, w5)
       else do { w6 \<leftarrow> free_entry (ce_addr e) w5; Some (False, w6) }
     }
   }"

lemma store_by_tail:
  assumes "\<not> cs_null (snd w)" "apc_time ev (glb w) = (t, g)" "apc_cache_defense ev key t (upd_g g w) = (slam, w1)"
  shows "apc_cache_store ev key val ttl excl w = (if slam then Some (False, w1) else do {
      (r, w2) \<leftarrow> cache_persist ev (apc_cache_init_entry key val ttl t) w1;
      (case r of None \<Rightarrow> Some (False, w2) | Some e \<Rightarrow> store_tail ev e excl w2)
    })"
  unfolding store_tail_def using assms by (simp add: apc_cache_store_def)

lemma free_config:
  assumes "cache_inv (insert p {}) w"
  obtains w' where "free_entry p w = Some (fst w', snd w)" "snd w' = snd w" "cache_inv {} w'" "same_config ev w w'"
proof -
  obtain sma' where "free_entry p w = Some (sma', snd w)" "cache_inv {} (sma', snd w)" "sma_frame sma' = sma_frame (fst w)"
    by (rule free_inv [OF assms]) simp
  then show thesis using that [of "(sma', snd w)"] by (simp add: same_config_def)
qed

lemma store_tail_ok:
  assumes inv: "cache_inv (insert (ce_addr e) {}) w" and lk: "lock_ready w"
    and key: "zs_h (ce_key e) = zend_inline_hash_func (zval_of_key e)"
  obtains ok w' m where "store_tail ev e excl w = Some (ok, w')" "cache_inv {} w'" "same_config ev w w'"
    "sheds (\<lambda>_. True) (cmap (cch w)) m" "cmap (cch w') = (if ok then m(zval_of_key e \<mapsto> e) else m)"
    "if ok then \<not> blocks_insert excl (ce_ctime e) (m (zval_of_key e))
     else \<not> lock_works w \<or> blocks_insert excl (ce_ctime e) (m (zval_of_key e))"
proof (cases rule: wsection [OF lk])
  case 1
  obtain w' where fr: "free_entry (ce_addr e) w = Some (fst w', snd w)" "snd w' = snd w" "cache_inv {} w'" "same_config ev w w'"
    by (rule free_config [OF inv])
  then have "free_entry (ce_addr e) w = Some w'" by (metis prod.collapse)
  then show thesis
    by (intro that [of False w' "cmap (cch w)"]) (use 1 fr in \<open>simp_all add: store_tail_def\<close>)
next
  case l: (2 lk dp)
  let ?w3 = "relock lk dp w"
  obtain ok w4 where i: "apc_cache_wlocked_insert ev e excl ?w3 = Some (ok, w4)" "same_config ev ?w3 w4"
    "ok \<longrightarrow> cache_inv {} w4" "\<not> ok \<longrightarrow> cache_inv {ce_addr e} w4"
    "\<exists>m. sheds (\<lambda>_. True) (cmap (cch ?w3)) m \<and> ok = (\<not> blocks_insert excl (ce_ctime e) (m (zval_of_key e))) \<and>
       cmap (cch w4) = (if ok then m(zval_of_key e \<mapsto> e) else m)"
    by (rule insert_or_free [OF _ key, of ?w3]) (use inv in simp)
  let ?w5 = "relock (c_lock (cch w)) (g_depth (glb w)) w4"
  have un: "apc_cache_wunlock w4 = Some ?w5"
    by (rule l(3) [rule_format]) (use same_configD(5,13,14) [OF i(2)] in simp_all)
  have sc5: "same_config ev w ?w5" by (rule same_config_relock [OF i(2)])
  from i(5) obtain m where m: "sheds (\<lambda>_. True) (cmap (cch w)) m"
    "ok = (\<not> blocks_insert excl (ce_ctime e) (m (zval_of_key e)))" "cmap (cch w4) = (if ok then m(zval_of_key e \<mapsto> e) else m)"
    by auto
  show thesis
  proof (cases ok)
    case True
    then show thesis by (intro that [OF _ _ sc5 m(1), of True]) (use l(2) i(1,3) un m in \<open>simp_all add: store_tail_def\<close>)
  next
    case False
    then have "cache_inv (insert (ce_addr e) {}) ?w5" using i(4) by simp
    then obtain w' where fr: "free_entry (ce_addr e) ?w5 = Some (fst w', snd ?w5)" "snd w' = snd ?w5" "cache_inv {} w'"
      "same_config ev ?w5 w'" by (rule free_config)
    then have "free_entry (ce_addr e) ?w5 = Some w'" by (metis prod.collapse)
    then show thesis
      by (intro that [OF _ fr(3) same_config_trans [OF sc5 fr(4)] m(1), of False])
        (use l(2) i(1) un m fr(2) False in \<open>simp_all add: store_tail_def\<close>)
  qed
qed

lemma apc_cache_store_ok:
  assumes r: "cache_ready w" and k: "zs_ok key"
    and st: "storable ev (c_serializer (cch w)) (apc_cache_init_entry key val ttl (fst (apc_time ev (glb w))))"
  obtains ok w' where "apc_cache_store ev key val ttl excl w = Some (ok, w')" "cache_ready w'" "same_setup ev w w'"
    "store_effect ev key val ttl excl w ok w'"
proof -
  note finish = that
  obtain t g where tg: "apc_time ev (glb w) = (t, g)" by (metis surj_pair)
  obtain slam w1 where d: "apc_cache_defense ev key t (upd_g g w) = (slam, w1)" by (metis surj_pair)
  note s = store_start [OF r tg d]
  have n0: "\<not> cs_null (snd w)" using r by (simp add: cache_ready_def)
  note by_tail = store_by_tail [OF n0 tg d, of val ttl excl]
  let ?o = "apc_cache_init_entry key val ttl t"
  have result: thesis if "apc_cache_store ev key val ttl excl w = Some (ok, w')" "cache_inv {} w'" "same_setup ev w1 w'"
    "sheds (\<lambda>_. True) (cmap (cch w)) m"
    "if ok then \<not> blocks_insert excl t (m (zs_val key)) \<and> (\<exists>e. fresh_entry key val ttl t e \<and>
         stored_value ev (c_serializer (cch w)) val (cs_shm (snd w')) (ce_val e) \<and> cmap (cch w') = m(zs_val key \<mapsto> e))
     else cmap (cch w') = m \<and> store_refused ev key val ttl excl t m (upd_g g w)" for ok w' m
  proof (rule finish [OF that(1)])
    show ss: "same_setup ev w w'" by (rule same_setup_trans [OF same_config_setup [OF s(2)] that(3)])
    show "cache_ready w'" using r same_setupD(1,2) [OF ss] that(2) by (simp add: cache_ready_def)
    show "store_effect ev key val ttl excl w ok w'" unfolding store_effect_def using tg that(4,5) by auto
  qed
  show ?thesis
  proof (cases slam)
    case True
    then show ?thesis
      by (intro result [of False w1 "cmap (cch w)"]) (use s d by_tail in \<open>simp_all add: store_refused_def same_config_setup\<close>)
  next
    case False
    have st1: "storable ev (c_serializer (cch w1)) ?o" using st tg same_configD(6) [OF s(2)] by simp
    show ?thesis
    proof (cases rule: cache_persist_ok [OF s(1,4,5) st1])
      case (1 w2)
      then have c: "cache_inv {} w2" "same_config ev w1 w2" "sheds (\<lambda>_. True) (cmap (cch w)) (cmap (cch w2))"
        using s(3) by (simp_all add: shed_from_def)
      show ?thesis
        by (rule result [OF _ c(1) same_config_setup [OF c(2)] c(3), of False])
          (use 1(1) False d by_tail in \<open>simp_all add: store_refused_def\<close>)
    next
      case (2 p v n w2)
      let ?e = "?o\<lparr>ce_addr := p, ce_key := persist_zstr (zs_val (ce_key ?o)) (zs_h (ce_key ?o)), ce_val := v,
        ce_mem_size := of_nat n\<rparr>"
      have ek: "zval_of_key ?e = zs_val key" "zs_h (ce_key ?e) = zend_inline_hash_func (zval_of_key ?e)"
        "ce_ctime ?e = t" "ce_addr ?e = p"
        using persist_zstr_ok [of key] k by (simp_all add: zval_of_key_def apc_cache_init_entry_def)
      have fe: "fresh_entry key val ttl t ?e"
        using 2(2) ek(1) by (simp add: fresh_entry_def apc_cache_init_entry_def zval_of_key_def)
      have i2: "cache_inv (insert (ce_addr ?e) {}) w2" and lk2: "lock_ready w2"
        using 2(3) ek(4) same_setupD(2) [OF 2(5)] s(4) by simp_all
      obtain ok w' m where tl: "store_tail ev ?e excl w2 = Some (ok, w')" "cache_inv {} w'" "same_config ev w2 w'"
        "sheds (\<lambda>_. True) (cmap (cch w2)) m" "cmap (cch w') = (if ok then m(zval_of_key ?e \<mapsto> ?e) else m)"
        "if ok then \<not> blocks_insert excl (ce_ctime ?e) (m (zval_of_key ?e))
         else \<not> lock_works w2 \<or> blocks_insert excl (ce_ctime ?e) (m (zval_of_key ?e))"
        by (rule store_tail_ok [OF i2 lk2 ek(2)])
      have sv: "stored_value ev (c_serializer (cch w)) val (cs_shm (snd w')) (ce_val ?e)"
        using 2(7) same_configD(6) [OF s(2)] same_configD(10) [OF tl(3)] by (simp add: apc_cache_init_entry_def)
      have lw: "lock_works w2 = lock_works (upd_g g w)"
        using same_setupD(3) [OF 2(5)] lock_works_config [OF s(2)] tg apc_time_frame [OF tg] by (simp add: lock_works_def)
      have sm: "sheds (\<lambda>_. True) (cmap (cch w)) m" using sheds_trans [OF 2(6) tl(4)] s(3) by simp
      have "apc_cache_store ev key val ttl excl w = Some (ok, w')" using by_tail False 2(1) tl(1) by simp
      then show ?thesis
        by (rule result [OF _ tl(2) same_setup_trans [OF 2(5) same_config_setup [OF tl(3)]] sm])
          (use tl(5,6) fe sv lw ek(1,3) in \<open>auto simp: store_refused_def split: if_splits\<close>)
    qed
  qed
qed

end
