(* ===== verification/Apc_Cache_Lookup.thy ===== *)
theory Apc_Cache_Lookup imports Apc_Cache_Store begin

text \<open>
  Finding, fetching, updating and deleting entries through the map, and clearing: every
  operation returns and keeps the cache ready for the next one.
\<close>

section \<open>Writing through a pointer to an entry\<close>

definition same_ident :: "(apc_cache_entry_t \<Rightarrow> apc_cache_entry_t) \<Rightarrow> bool" where
  "same_ident f \<longleftrightarrow> (\<forall>e. ce_addr (f e) = ce_addr e \<and> ce_key (f e) = ce_key e)"

lemma upd_entry_simps [simp]:
  "c_nslots (upd_entry a f c) = c_nslots c" "c_shmaddr (upd_entry a f c) = c_shmaddr c"
  "c_nentries (upd_entry a f c) = c_nentries c" "c_lock (upd_entry a f c) = c_lock c"
  by (simp_all add: upd_entry_def Let_def)

lemma config_upd_entry [simp]: "config (upd_entry a f c) = config c"
  by (simp add: config_def upd_entry_def Let_def)

lemma upd_entry_maps:
  assumes "same_ident f"
  shows "map ce_addr (entries (upd_entry a f c)) = map ce_addr (entries c)"
    "map ce_addr (c_gc (upd_entry a f c)) = map ce_addr (c_gc c)"
    "slot_ok n s (map (\<lambda>e. if ce_addr e = a then f e else e) es) = slot_ok n s es"
    "chain_map (map (\<lambda>e. if ce_addr e = a then f e else e) es) v =
       map_option (\<lambda>e. if ce_addr e = a then f e else e) (chain_map es v)"
proof -
  let ?g = "\<lambda>e. if ce_addr e = a then f e else e"
  have g: "ce_addr (?g e) = ce_addr e" "zval_of_key (?g e) = zval_of_key e" "ce_key (?g e) = ce_key e" for e
    using assms by (simp_all add: same_ident_def zval_of_key_def)
  have m: "map ce_addr (map ?g xs) = map ce_addr xs" "map zval_of_key (map ?g xs) = map zval_of_key xs" for xs
    using g by auto
  show "map ce_addr (entries (upd_entry a f c)) = map ce_addr (entries c)"
    "map ce_addr (c_gc (upd_entry a f c)) = map ce_addr (c_gc c)"
    using assms by (simp_all add: entries_def upd_entry_def Let_def same_ident_def flip: map_concat)
  show "slot_ok n s (map ?g es) = slot_ok n s es"
    by (simp only: slot_ok_def m(2) set_map ball_simps(9) g)
  show "chain_map (map ?g es) v = map_option ?g (chain_map es v)"
    by (induction es) (auto simp: g)
qed

lemma cmap_upd_entry:
  assumes "same_ident f" "table_ok c"
  shows "cmap (upd_entry a f c) v = map_option (\<lambda>e. if ce_addr e = a then f e else e) (cmap c v)"
  using upd_entry_maps(4) [OF assms(1)] slot_of_less [OF assms(2), of v] table_okD(2) [OF assms(2)]
  by (simp add: cmap_def upd_entry_def Let_def)

lemma cache_inv_upd_entry:
  assumes "same_ident f"
  shows "cache_inv X (upd_cache (upd_entry a f) w) = cache_inv X w"
proof -
  let ?c' = "upd_entry a f (cch w)"
  note m = upd_entry_maps [OF assms]
  have l: "length (entries ?c') = length (entries (cch w))" using arg_cong [OF m(1), of length] by simp
  have s: "addrs ?c' = addrs (cch w)" using arg_cong [OF m(1), of set] by (simp add: addrs_def)
  have t: "table_ok ?c' = table_ok (cch w)"
  proof -
    have "length (c_slots ?c') = length (c_slots (cch w))"
      "s < length (c_slots (cch w)) \<Longrightarrow> slot_ok n s (c_slots ?c' ! s) = slot_ok n s (c_slots (cch w) ! s)" for s n
      using m(3) by (simp_all add: upd_entry_def Let_def)
    then show ?thesis by (auto simp: table_ok_def m(1))
  qed
  have g: "gc_addrs (upd_cache (upd_entry a f) w) = gc_addrs w" by (simp add: gc_addrs_def m(2))
  show ?thesis by (simp add: cache_inv_def holds_def l s t g)
qed

lemma same_ident_hit [simp]: "same_ident (\<lambda>e. e\<lparr>ce_nhits := ce_nhits e + 1, ce_atime := t\<rparr>)"
  "same_ident incref" "same_ident decref" "same_ident (\<lambda>e. e\<lparr>ce_val := v, ce_mtime := t\<rparr>)"
  by (simp_all add: same_ident_def incref_def decref_def)

section \<open>Finding\<close>

definition live :: "i64 \<Rightarrow> (string \<Rightarrow> apc_cache_entry_t option) \<Rightarrow> string \<Rightarrow> apc_cache_entry_t option" where
  "live t m v = (case m v of None \<Rightarrow> None | Some e \<Rightarrow> if apc_cache_entry_hard_expired e t then None else Some e)"

lemma live_Some: "live t m v = Some e \<longleftrightarrow> m v = Some e \<and> \<not> apc_cache_entry_hard_expired e t"
  by (auto simp: live_def split: option.splits)

lemma find_nostat_live:
  assumes "table_ok (cch w)" "zs_ok key"
  shows "apc_cache_rlocked_find_nostat key t w = live t (cmap (cch w)) (zs_val key)"
  using chain_find_map [OF table_okD(3) [OF assms(1) slot_of_less [OF assms(1)]] assms(2)]
  by (simp add: apc_cache_rlocked_find_nostat_def apc_cache_hash_slot_of [OF assms(2)] live_def cmap_def)

lemma update_entry_only:
  assumes "table_ok c" "cmap c v = Some e" "same_ident f"
  shows "cmap (upd_entry (ce_addr e) f c) = (cmap c)(v \<mapsto> f e)"
proof
  fix u
  have "u = v" if "cmap c u = Some e'" "ce_addr e' = ce_addr e" for e'
  proof -
    have "e' \<in> set (entries c)" "e \<in> set (entries c)" using cmap_entry(1) [OF assms(1)] that(1) assms(2) by blast+
    then have "e' = e" using table_okD(4) [OF assms(1)] that(2) by (auto simp: distinct_map dest: inj_onD)
    with cmap_entry(2) [OF assms(1)] that(1) assms(2) show ?thesis by metis
  qed
  then show "cmap (upd_entry (ce_addr e) f c) u = ((cmap c)(v \<mapsto> f e)) u"
    using assms(2) by (cases "cmap c u") (auto simp: cmap_upd_entry [OF assms(3,1)])
qed

definition hit :: "i64 \<Rightarrow> apc_cache_entry_t \<Rightarrow> apc_cache_entry_t" where
  "hit t e = e\<lparr>ce_nhits := ce_nhits e + 1, ce_atime := t\<rparr>"

lemma same_ident_hit' [simp]: "same_ident (hit t)" "same_ident (\<lambda>e. incref (hit t e))"
  by (simp_all add: same_ident_def hit_def incref_def)

lemma upd_entry_twice:
  "same_ident f \<Longrightarrow> upd_entry a g (upd_entry a f c) = upd_entry a (\<lambda>e. g (f e)) c"
  by (simp add: upd_entry_def Let_def same_ident_def comp_def)

text \<open>
  \<open>apc_cache_rlocked_find_incref\<close>: a live entry is marked and counted as referenced, a missing
  one only counted.
\<close>

lemma find_incref_ok:
  assumes inv: "cache_inv X w" and k: "zs_ok key"
  obtains (miss) w' where "live t (cmap (cch w)) (zs_val key) = None" "apc_cache_rlocked_find_incref key t w = (None, w')"
      "cache_inv X w'" "same_config ev w w'" "cmap (cch w') = cmap (cch w)"
      "c_nmisses (cch w') = c_nmisses (cch w) + 1" "c_nhits (cch w') = c_nhits (cch w)"
  | (hit) e w' where "live t (cmap (cch w)) (zs_val key) = Some e"
      "apc_cache_rlocked_find_incref key t w = (Some (incref (hit t e)), w')"
      "cache_inv X w'" "same_config ev w w'" "cmap (cch w') = (cmap (cch w))(zs_val key \<mapsto> incref (hit t e))"
      "c_nhits (cch w') = c_nhits (cch w) + 1" "c_nmisses (cch w') = c_nmisses (cch w)"
proof (cases "live t (cmap (cch w)) (zs_val key)")
  case None
  let ?w' = "upd_cache (\<lambda>c. c\<lparr>c_nmisses := c_nmisses c + 1\<rparr>) w"
  have "cache_inv X ?w'" using inv cache_inv_cong [of ?w' w X] by simp
  moreover have "same_config ev w ?w'" by (rule same_config_upd) (simp add: config_def)
  moreover have "cmap (cch ?w') = cmap (cch w)" by (rule cmap_cong) simp_all
  moreover have "apc_cache_rlocked_find_incref key t w = (None, ?w')"
    using find_nostat_live [OF cache_invD(1) [OF inv] k, of t] None
    by (simp add: apc_cache_rlocked_find_incref_def apc_cache_rlocked_find_def)
  ultimately show ?thesis using miss [OF None] by simp
next
  case (Some e)
  let ?w1 = "upd_cache (\<lambda>c. c\<lparr>c_nhits := c_nhits c + 1\<rparr>) w"
  define w' where "w' = upd_cache (upd_entry (ce_addr e) (\<lambda>e. incref (Apc_Cache_Lookup.hit t e))) ?w1"
  have i1: "cache_inv X ?w1" using inv cache_inv_cong [of ?w1 w X] by simp
  have "cache_inv X w'" unfolding w'_def using i1 cache_inv_upd_entry by simp
  moreover have "same_config ev w w'" unfolding w'_def by (simp add: same_config_def config_upd_entry) (simp add: config_def)
  moreover have cm: "cmap (cch w') = (cmap (cch w))(zs_val key \<mapsto> incref (Apc_Cache_Lookup.hit t e))"
  proof -
    have "cmap (cch ?w1) = cmap (cch w)" by (rule cmap_cong) simp_all
    then show ?thesis
      using update_entry_only [OF cache_invD(1) [OF i1], of "zs_val key" e "\<lambda>e. incref (Apc_Cache_Lookup.hit t e)"] Some
      by (simp add: w'_def live_Some)
  qed
  moreover have "apc_cache_rlocked_find_incref key t w = (Some (incref (Apc_Cache_Lookup.hit t e)), w')"
    using find_nostat_live [OF cache_invD(1) [OF inv] k, of t] Some
    by (simp add: apc_cache_rlocked_find_incref_def apc_cache_rlocked_find_def Let_def w'_def upd_cache_def
        upd_entry_twice hit_def)
  moreover have "c_nhits (cch w') = c_nhits (cch w) + 1" "c_nmisses (cch w') = c_nmisses (cch w)"
    by (simp_all add: w'_def upd_entry_def Let_def)
  ultimately show ?thesis using hit [OF Some] by blast
qed

section \<open>apc_cache_find, apc_cache_fetch, apc_cache_exists\<close>

lemma cache_readyD:
  assumes "cache_ready w"
  shows "\<not> cs_null (snd w)" "cache_inv {} w" "lock_ready w" "table_ok (cch w)"
  using assms cache_invD(1) [of "{}" w] by (auto simp: cache_ready_def)

lemma cache_ready_config:
  "cache_ready w \<Longrightarrow> cache_inv {} w' \<Longrightarrow> same_config ev w w' \<Longrightarrow> cache_ready w'"
  using lock_ready_config [of ev w w'] same_configD(9) [of ev w w'] by (simp add: cache_ready_def)

lemma apc_cache_exists_ok:
  assumes r: "cache_ready w" and k: "zs_ok key"
  shows "apc_cache_exists key t w = Some (lock_works w \<and> live t (cmap (cch w)) (zs_val key) \<noteq> None, w)"
proof (cases rule: rsection [OF cache_readyD(3) [OF r]])
  case 1
  then show ?thesis using cache_readyD(1) [OF r] by (simp add: apc_cache_exists_def)
next
  case (2 l d)
  have "table_ok (cch (relock l d w))" using cache_readyD(2) [OF r] cache_invD(1) [of "{}" "relock l d w"] by simp
  then have "apc_cache_rlocked_find_nostat key t (relock l d w) = live t (cmap (cch w)) (zs_val key)"
    using find_nostat_live [OF _ k] by simp
  moreover have "apc_cache_runlock (relock l d w) = Some (relock (c_lock (cch w)) (g_depth (glb w)) (relock l d w))"
    by (rule 2(3) [rule_format]) simp_all
  ultimately show ?thesis using 2(1,2) cache_readyD(1) [OF r] by (simp add: apc_cache_exists_def)
qed

text \<open>The section of \<open>apc_cache_find\<close> and \<open>apc_cache_fetch\<close>.\<close>

lemma find_section:
  assumes r: "cache_ready w" and k: "zs_ok key"
  obtains (failed) "\<not> lock_works w" "apc_cache_rlock w = Some (False, w)"
  | (miss) w1 w2 w' where "apc_cache_rlock w = Some (True, w1)" "apc_cache_rlocked_find_incref key t w1 = (None, w2)"
      "apc_cache_runlock w2 = Some w'" "lock_works w" "live t (cmap (cch w)) (zs_val key) = None" "cache_ready w'" "same_config ev w w'"
      "cmap (cch w') = cmap (cch w)" "c_nmisses (cch w') = c_nmisses (cch w) + 1"
  | (hit) w1 w2 w' e where "apc_cache_rlock w = Some (True, w1)"
      "apc_cache_rlocked_find_incref key t w1 = (Some (incref (hit t e)), w2)"
      "apc_cache_runlock w2 = Some w'" "lock_works w" "live t (cmap (cch w)) (zs_val key) = Some e" "cache_ready w'" "same_config ev w w'"
      "cmap (cch w') = (cmap (cch w))(zs_val key \<mapsto> incref (hit t e))" "c_nhits (cch w') = c_nhits (cch w) + 1"
proof (cases rule: rsection [OF cache_readyD(3) [OF r]])
  case 1
  then show ?thesis by (rule failed)
next
  case (2 l d)
  let ?w1 = "relock l d w"
  have i1: "cache_inv {} ?w1" using cache_readyD(2) [OF r] by simp
  have un: "apc_cache_runlock w2 = Some (relock (c_lock (cch w)) (g_depth (glb w)) w2)" if "same_config ev ?w1 w2" for w2
    by (rule 2(3) [rule_format]) (use same_configD(5,13,14) [OF that] in simp_all)
  have rd: "cache_ready (relock (c_lock (cch w)) (g_depth (glb w)) w2)" if "same_config ev ?w1 w2" "cache_inv {} w2" for w2
    by (rule cache_ready_config [OF r _ same_config_relock [OF that(1)]]) (simp add: that(2))
  show ?thesis
  proof (cases rule: find_incref_ok [OF i1 k, where t = t and ev = ev])
    case (1 w2)
    show ?thesis
      by (rule miss [OF 2(2) 1(2) un [OF 1(4)] 2(1) _ rd [OF 1(4,3)] same_config_relock [OF 1(4)]]) (use 1 in simp_all)
  next
    case (2 e w2)
    show ?thesis
      by (rule hit [OF \<open>apc_cache_rlock w = _\<close> 2(2) un [OF 2(4)] \<open>lock_works w\<close> _ rd [OF 2(4,3)] same_config_relock [OF 2(4)]])
        (use 2 in simp_all)
  qed
qed

lemma apc_cache_find_ok:
  assumes r: "cache_ready w" and k: "zs_ok key"
  obtains r w' where "apc_cache_find key t w = Some (r, w')" "cache_ready w'" "same_config ev w w'"
    "r = (if lock_works w then map_option (\<lambda>e. incref (hit t e)) (live t (cmap (cch w)) (zs_val key)) else None)"
    "cmap (cch w') = (case r of None \<Rightarrow> cmap (cch w) | Some e \<Rightarrow> (cmap (cch w))(zs_val key \<mapsto> e))"
proof (cases rule: find_section [OF r k, where t = t and ev = ev])
  case 1
  then show ?thesis by (intro that [of None w]) (use r cache_readyD(1) [OF r] in \<open>simp_all add: apc_cache_find_def\<close>)
next
  case (2 w1 w2 w')
  then show ?thesis by (intro that [of None w']) (use cache_readyD(1) [OF r] in \<open>simp_all add: apc_cache_find_def\<close>)
next
  case (3 w1 w2 w' e)
  then show ?thesis
    by (intro that [of "Some (incref (hit t e))" w']) (use cache_readyD(1) [OF r] in \<open>simp_all add: apc_cache_find_def\<close>)
qed

text \<open>Releasing an entry that is still linked.\<close>

lemma release_ok:
  assumes inv: "cache_inv X w" and e: "cmap (cch w) v = Some e"
  obtains w' where "apc_cache_entry_release (ce_addr e) w = Some w'" "cache_inv X w'" "same_config ev w w'"
    "cmap (cch w') = (cmap (cch w))(v \<mapsto> decref e)"
proof -
  note tab = cache_invD(1) [OF inv]
  let ?w' = "upd_cache (upd_entry (ce_addr e) decref) w"
  have "e \<in> set (entries (cch w))" by (rule cmap_entry(1) [OF tab e])
  then have "has_entry (ce_addr e) (cch w)" by (auto simp: has_entry_def entries_def)
  then have "apc_cache_entry_release (ce_addr e) w = Some ?w'" by (simp add: apc_cache_entry_release_def)
  moreover have "cache_inv X ?w'" using inv cache_inv_upd_entry [of decref] by simp
  moreover have "same_config ev w ?w'" by (rule same_config_upd) simp
  moreover have "cmap (cch ?w') = (cmap (cch w))(v \<mapsto> decref e)" using update_entry_only [OF tab e, of decref] by simp
  ultimately show ?thesis using that by blast
qed

lemma decref_incref [simp]: "decref (incref e) = e"
  by (cases e) (simp add: decref_def incref_def)

lemma incref_hit_simps [simp]:
  "ce_addr (incref e) = ce_addr e" "ce_val (incref e) = ce_val e" "ce_addr (hit t e) = ce_addr e"
  "ce_val (hit t e) = ce_val e"
  by (simp_all add: incref_def hit_def)

definition unpersist_entry :: "apc_env \<Rightarrow> world \<Rightarrow> apc_cache_entry_t \<Rightarrow> (bool \<times> zval \<times> heap) option" where
  "unpersist_entry ev w e = apc_unpersist (php_apc_unserializer (ev_php_var_unserialize ev)) (c_serializer (cch w))
     (cs_shm (snd w)) (ce_val e) (ev_rq ev)"

text \<open>
  Fetching, for an entry whose value can be copied back: the result is that copy, and of the
  table only the statistics of the entry change.
\<close>

lemma apc_cache_fetch_ok:
  assumes r: "cache_ready w" and k: "zs_ok key"
    and un: "\<forall>e. live t (cmap (cch w)) (zs_val key) = Some e \<longrightarrow> unpersist_entry ev w e \<noteq> None"
  obtains ret dst w' where "apc_cache_fetch ev key t w = Some (ret, dst, w')" "cache_ready w'" "same_config ev w w'"
    "(ret, dst) = (case (if lock_works w then live t (cmap (cch w)) (zs_val key) else None) of
       None \<Rightarrow> (False, None)
     | Some e \<Rightarrow> (fst (the (unpersist_entry ev w e)), Some (snd (the (unpersist_entry ev w e)))))"
    "cmap (cch w') = (case (if lock_works w then live t (cmap (cch w)) (zs_val key) else None) of
       None \<Rightarrow> cmap (cch w) | Some e \<Rightarrow> (cmap (cch w))(zs_val key \<mapsto> hit t e))"
proof (cases rule: find_section [OF r k, where t = t and ev = ev])
  case 1
  then show ?thesis by (intro that [of False None w]) (use r cache_readyD(1) [OF r] in \<open>simp_all add: apc_cache_fetch_def\<close>)
next
  case (2 w1 w2 w')
  then show ?thesis by (intro that [of False None w']) (use cache_readyD(1) [OF r] in \<open>simp_all add: apc_cache_fetch_def\<close>)
next
  case (3 w1 w2 w' e)
  let ?e = "incref (hit t e)"
  obtain ret v rq where u: "unpersist_entry ev w e = Some (ret, v, rq)" using un 3(5) by fastforce
  have f: "apc_cache_entry_fetch_zval ev ?e w' = Some (ret, v, rq)"
    using u same_configD(6,10) [OF 3(7)] by (simp add: apc_cache_entry_fetch_zval_def unpersist_entry_def)
  have m: "cmap (cch w') (zs_val key) = Some ?e" using 3(8) by simp
  obtain w4 where w4: "apc_cache_entry_release (ce_addr ?e) w' = Some w4" "cache_inv {} w4" "same_config ev w' w4"
    "cmap (cch w4) = (cmap (cch w'))(zs_val key \<mapsto> decref ?e)"
    by (rule release_ok [OF cache_readyD(2) [OF 3(6)] m])
  show ?thesis
    by (rule that [of ret "Some (v, rq)" w4])
      (use 3 f w4 u cache_ready_config [OF 3(6) w4(2,3)] same_config_trans [OF 3(7) w4(3)] cache_readyD(1) [OF r]
        in \<open>simp_all add: apc_cache_fetch_def\<close>)
qed

section \<open>Deleting and clearing\<close>

lemma apc_cache_delete_ok:
  assumes r: "cache_ready w" and k: "zs_ok key"
  obtains b w' where "apc_cache_delete ev key w = Some (b, w')" "cache_ready w'" "same_config ev w w'"
    "b = (lock_works w \<and> cmap (cch w) (zs_val key) \<noteq> None)"
    "cmap (cch w') = (if lock_works w then (cmap (cch w))(zs_val key := None) else cmap (cch w))"
proof (cases rule: wsection [OF cache_readyD(3) [OF r]])
  case 1
  then show ?thesis
    by (intro that [of False w]) (use r cache_readyD(1) [OF r] in \<open>simp_all add: apc_cache_delete_def apc_cache_hash_slot_of [OF k]\<close>)
next
  case (2 l d)
  let ?w1 = "relock l d w"
  let ?s = "slot_of (c_nslots (cch w)) (zs_val key)"
  have i1: "cache_inv {} ?w1" using cache_readyD(2) [OF r] by simp
  obtain b es' w2 where d: "delete_walk ev key (ZSTR_HASH key) (c_slots (cch ?w1) ! slot_of (c_nslots (cch ?w1)) (zs_val key)) ?w1 =
      Some (b, es', w2)"
    "cache_inv {} (upd_cache (set_slot (slot_of (c_nslots (cch ?w1)) (zs_val key)) es') w2)"
    "same_config ev ?w1 (upd_cache (set_slot (slot_of (c_nslots (cch ?w1)) (zs_val key)) es') w2)"
    "b \<longleftrightarrow> cmap (cch ?w1) (zs_val key) \<noteq> None"
    "cmap (cch (upd_cache (set_slot (slot_of (c_nslots (cch ?w1)) (zs_val key)) es') w2)) = (cmap (cch ?w1))(zs_val key := None)"
    by (rule delete_walk_ok [OF i1 k])
  define w3 where "w3 = upd_cache (set_slot ?s es') w2"
  have w3: "cache_inv {} w3" "same_config ev ?w1 w3" "cmap (cch w3) = (cmap (cch w))(zs_val key := None)"
    using d by (simp_all add: w3_def)
  have un: "apc_cache_wunlock w3 = Some (relock (c_lock (cch w)) (g_depth (glb w)) w3)"
    by (rule 2(3) [rule_format]) (use same_configD(5,13,14) [OF w3(2)] in simp_all)
  have "apc_cache_delete ev key w = Some (b, relock (c_lock (cch w)) (g_depth (glb w)) w3)"
    using 2(2) d(1) un cache_readyD(1) [OF r]
    by (simp add: apc_cache_delete_def apc_cache_hash_slot_of [OF k] w3_def)
  then show ?thesis
    by (rule that [OF _ cache_ready_config [OF r _ same_config_relock [OF w3(2)]] same_config_relock [OF w3(2)]])
      (use w3 2(1) d(4) in simp_all)
qed

lemma apc_cache_clear_ok:
  assumes r: "cache_ready w"
  obtains w' where "apc_cache_clear ev w = Some w'" "cache_ready w'" "same_config ev w w'"
    "cmap (cch w') = (if lock_works w then (\<lambda>_. None) else cmap (cch w))"
proof (cases rule: wsection [OF cache_readyD(3) [OF r]])
  case 1
  then show ?thesis by (intro that [of w]) (use r cache_readyD(1) [OF r] in \<open>simp_all add: apc_cache_clear_def\<close>)
next
  case (2 l d)
  let ?w1 = "relock l d w"
  have i1: "cache_inv {} ?w1" using cache_readyD(2) [OF r] by simp
  obtain w2 where w2: "apc_cache_wlocked_real_expunge ev ?w1 = Some w2" "cache_inv {} w2" "same_config ev ?w1 w2"
    "cmap (cch w2) = (\<lambda>_. None)"
    by (rule real_expunge_ok [OF i1])
  define w3 where "w3 = upd_cache (\<lambda>c. c\<lparr>c_stime := fst (apc_time ev (glb w2)), c_nexpunges := 0\<rparr>)
    (upd_g (snd (apc_time ev (glb w2))) w2)"
  have i3: "cache_inv {} w3" using w2(2) cache_inv_cong [of w3 w2 "{}"] by (simp add: w3_def)
  have "same_config ev w2 w3" by (simp add: same_config_def w3_def config_def)
  then have sc3: "same_config ev ?w1 w3" by (rule same_config_trans [OF w2(3)])
  have cm3: "cmap (cch w3) = (\<lambda>_. None)" using cmap_cong [of "cch w3" "cch w2"] w2(4) by (simp add: w3_def)
  have un: "apc_cache_wunlock w3 = Some (relock (c_lock (cch w)) (g_depth (glb w)) w3)"
    by (rule 2(3) [rule_format]) (use same_configD(5,13,14) [OF sc3] in simp_all)
  have "apc_cache_clear ev w = Some (relock (c_lock (cch w)) (g_depth (glb w)) w3)"
    using 2(2) w2(1) un cache_readyD(1) [OF r] by (simp add: apc_cache_clear_def case_prod_unfold Let_def w3_def)
  then show ?thesis
    by (rule that [OF _ cache_ready_config [OF r _ same_config_relock [OF sc3]] same_config_relock [OF sc3]])
      (use i3 cm3 2(1) in simp_all)
qed

text \<open>Which entries wait in the list of removed entries afterwards.\<close>

lemma apc_cache_clear_gc:
  assumes r: "cache_ready w" "lock_works w" and c: "apc_cache_clear ev w = Some w'"
  shows "c_gc (cch w') = parked ev (entries (cch w)) @ c_gc (cch w)"
proof (cases rule: wsection [OF cache_readyD(3) [OF r(1)]])
  case (2 l d)
  have i1: "cache_inv {} (relock l d w)" using cache_readyD(2) [OF r(1)] by simp
  obtain w2 w3 where w2: "apc_cache_wlocked_real_expunge ev (relock l d w) = Some w2"
    and u: "apc_cache_wunlock w3 = Some w'" "c_gc (cch w3) = c_gc (cch w2)"
    using c 2(2) cache_readyD(1) [OF r(1)] by (auto simp: apc_cache_clear_def case_prod_unfold Let_def split: Option.bind_splits)
  have "c_gc (cch w') = c_gc (cch w3)"
    using u(1) by (auto simp: apc_cache_wunlock_def split: Option.bind_splits if_splits)
  with real_expunge_gc [OF i1 w2] u(2) show ?thesis by (simp add: entries_def)
qed (use r in simp)

lemma apc_cache_delete_gc:
  assumes r: "cache_ready w" "lock_works w" and k: "zs_ok key" and c: "apc_cache_delete ev key w = Some (b, w')"
  shows "c_gc (cch w') = parked ev (case cmap (cch w) (zs_val key) of None \<Rightarrow> [] | Some e \<Rightarrow> [e]) @ c_gc (cch w)"
proof (cases rule: wsection [OF cache_readyD(3) [OF r(1)]])
  case (2 l d)
  let ?s = "slot_of (c_nslots (cch w)) (zs_val key)"
  note tab = cache_invD(1) [OF cache_readyD(2) [OF r(1)]]
  have s: "?s < c_nslots (cch w)" by (rule slot_of_less [OF tab])
  obtain es' ds where dc: "delete_chain key (ZSTR_HASH key) (c_slots (cch w) ! ?s) = (es', ds)" by (metis surj_pair)
  obtain w2 where w2: "remove_all ev ds (relock l d w) = Some w2" and u: "apc_cache_wunlock (upd_cache (set_slot ?s es') w2) = Some w'"
    using c 2(2) cache_readyD(1) [OF r(1)]
    by (auto simp: apc_cache_delete_def apc_cache_hash_slot_of [OF k] delete_walk_pure dc split: Option.bind_splits)
  have "c_gc (cch w') = c_gc (cch w2)"
    using u by (auto simp: apc_cache_wunlock_def set_slot_def split: Option.bind_splits if_splits)
  with remove_all_parks [OF w2] delete_chain_removed [OF table_okD(3) [OF tab s] k] show ?thesis
    by (simp add: dc cmap_slot [OF tab s])
qed (use r in simp)

end
