(* ===== verification/Apc_Cache_Update.thy ===== *)
theory Apc_Cache_Update imports Apc_Cache_Lookup begin

text \<open>
  Updates in place, with the insertion of a missing key and the single retry.
\<close>

section \<open>One attempt\<close>

lemma zval_not_long: "\<nexists>i. zv = IS_LONG i \<Longrightarrow> (case zv of IS_LONG i \<Rightarrow> g i | _ \<Rightarrow> h) = h"
  by (cases zv) auto

lemma update_attempt_ok:
  assumes r: "cache_ready w" and k: "zs_ok key"
  obtains res w' where "update_attempt upd key t w = Some (res, w')" "cache_ready w'" "same_config ev w w'"
    "res = (if \<not> lock_works w then Some False
       else map_option (\<lambda>e. z_simple (ce_val e) \<and> fst (upd e)) (live t (cmap (cch w)) (zs_val key)))"
    "cmap (cch w') = (case (if lock_works w then live t (cmap (cch w)) (zs_val key) else None) of
       None \<Rightarrow> cmap (cch w)
     | Some e \<Rightarrow> if z_simple (ce_val e) then (cmap (cch w))(zs_val key \<mapsto> e\<lparr>ce_val := snd (upd e), ce_mtime := t\<rparr>)
         else cmap (cch w))"
proof (cases rule: wsection [OF cache_readyD(3) [OF r]])
  case 1
  then show ?thesis by (intro that [of "Some False" w]) (use r in \<open>simp_all add: update_attempt_def\<close>)
next
  case (2 l d)
  note lw = 2(1)
  let ?w1 = "relock l d w"
  let ?undo = "relock (c_lock (cch w)) (g_depth (glb w))"
  have i1: "cache_inv {} ?w1" using cache_readyD(2) [OF r] by simp
  note tab = cache_invD(1) [OF i1]
  have f: "apc_cache_rlocked_find_nostat key t ?w1 = live t (cmap (cch w)) (zs_val key)"
    using find_nostat_live [OF tab k] by simp
  have un: "apc_cache_wunlock w2 = Some (?undo w2)" "cache_ready (?undo w2)" "same_config ev w (?undo w2)"
    if "same_config ev ?w1 w2" "cache_inv {} w2" for w2
  proof -
    show "apc_cache_wunlock w2 = Some (?undo w2)"
      by (rule 2(3) [rule_format]) (use same_configD(5,13,14) [OF that(1)] in simp_all)
    show s: "same_config ev w (?undo w2)" by (rule same_config_relock [OF that(1)])
    show "cache_ready (?undo w2)" by (rule cache_ready_config [OF r _ s]) (simp add: that(2))
  qed
  show ?thesis
  proof (cases "live t (cmap (cch w)) (zs_val key)")
    case None
    show ?thesis
      by (rule that [of None w]) (use None f 2(2) lw un [OF same_config_refl i1] r in \<open>simp_all add: update_attempt_def\<close>)
  next
    case (Some e)
    define w2 where "w2 = (if z_simple (ce_val e)
      then upd_cache (upd_entry (ce_addr e) (\<lambda>x. x\<lparr>ce_val := snd (upd e), ce_mtime := t\<rparr>)) ?w1 else ?w1)"
    have i2: "cache_inv {} w2" unfolding w2_def using i1 cache_inv_upd_entry [OF same_ident_hit(4)] by simp
    have s2: "same_config ev ?w1 w2" unfolding w2_def by (auto intro: same_config_upd)
    have "cmap (cch ?w1) (zs_val key) = Some e" using Some by (simp add: live_Some)
    note uo = update_entry_only [OF tab this same_ident_hit(4)]
    have "cmap (cch w2) = (if z_simple (ce_val e) then (cmap (cch w))(zs_val key \<mapsto> e\<lparr>ce_val := snd (upd e), ce_mtime := t\<rparr>)
       else cmap (cch w))" using uo by (simp add: w2_def)
    moreover have "update_attempt upd key t w = Some (Some (z_simple (ce_val e) \<and> fst (upd e)), ?undo w2)"
      using 2(2) f Some un(1) [OF s2 i2]
      by (cases "upd e") (auto simp: update_attempt_def w2_def)
    ultimately show ?thesis
      by (intro that [OF _ un(2,3) [OF s2 i2]]) (use Some lw in simp_all)
  qed
qed

lemma atomic_update_attempt_ok:
  assumes r: "cache_ready w" and k: "zs_ok key"
  obtains res data1 w' where "atomic_update_attempt upd data key t w = Some (res, data1, w')" "cache_ready w'" "same_config ev w w'"
    "res = (if \<not> lock_works w then Some False
       else map_option (\<lambda>e. case ce_val e of IS_LONG i \<Rightarrow> fst (upd i data) | _ \<Rightarrow> False) (live t (cmap (cch w)) (zs_val key)))"
    "cmap (cch w') = (case (if lock_works w then live t (cmap (cch w)) (zs_val key) else None) of
       None \<Rightarrow> cmap (cch w)
     | Some e \<Rightarrow> (case ce_val e of
           IS_LONG i \<Rightarrow> (cmap (cch w))(zs_val key \<mapsto> e\<lparr>ce_val := IS_LONG (fst (snd (upd i data))), ce_mtime := t\<rparr>)
         | _ \<Rightarrow> cmap (cch w)))"
    "data1 = (case (if lock_works w then live t (cmap (cch w)) (zs_val key) else None) of
       None \<Rightarrow> data
     | Some e \<Rightarrow> (case ce_val e of IS_LONG i \<Rightarrow> snd (snd (upd i data)) | _ \<Rightarrow> data))"
proof (cases rule: rsection [OF cache_readyD(3) [OF r]])
  case 1
  then show ?thesis by (intro that [of "Some False" data w]) (use r in \<open>simp_all add: atomic_update_attempt_def\<close>)
next
  case (2 l d)
  note lw = 2(1)
  let ?w1 = "relock l d w"
  let ?undo = "relock (c_lock (cch w)) (g_depth (glb w))"
  have i1: "cache_inv {} ?w1" using cache_readyD(2) [OF r] by simp
  note tab = cache_invD(1) [OF i1]
  have f: "apc_cache_rlocked_find_nostat key t ?w1 = live t (cmap (cch w)) (zs_val key)"
    using find_nostat_live [OF tab k] by simp
  have un: "apc_cache_runlock w2 = Some (?undo w2)" "cache_ready (?undo w2)" "same_config ev w (?undo w2)"
    if "same_config ev ?w1 w2" "cache_inv {} w2" for w2
  proof -
    show "apc_cache_runlock w2 = Some (?undo w2)"
      by (rule 2(3) [rule_format]) (use same_configD(5,13,14) [OF that(1)] in simp_all)
    show s: "same_config ev w (?undo w2)" by (rule same_config_relock [OF that(1)])
    show "cache_ready (?undo w2)" by (rule cache_ready_config [OF r _ s]) (simp add: that(2))
  qed
  show ?thesis
  proof (cases "live t (cmap (cch w)) (zs_val key)")
    case None
    show ?thesis
      by (rule that [of None data w]) (use None f 2(2) lw un [OF same_config_refl i1] r in \<open>simp_all add: atomic_update_attempt_def\<close>)
  next
    case (Some e)
    have m: "cmap (cch ?w1) (zs_val key) = Some e" using Some by (simp add: live_Some)
    show ?thesis
    proof (cases "\<exists>i. ce_val e = IS_LONG i")
      case True
      then obtain i where i: "ce_val e = IS_LONG i" by blast
      define w2 where "w2 = upd_cache (upd_entry (ce_addr e) (\<lambda>x. x\<lparr>ce_val := IS_LONG (fst (snd (upd i data))), ce_mtime := t\<rparr>)) ?w1"
      have i2: "cache_inv {} w2" unfolding w2_def using i1 cache_inv_upd_entry [OF same_ident_hit(4)] by simp
      have s2: "same_config ev ?w1 w2" unfolding w2_def by (rule same_config_upd) simp
      have "cmap (cch w2) = (cmap (cch w))(zs_val key \<mapsto> e\<lparr>ce_val := IS_LONG (fst (snd (upd i data))), ce_mtime := t\<rparr>)"
        using update_entry_only [OF tab m same_ident_hit(4)] by (simp add: w2_def)
      moreover have "atomic_update_attempt upd data key t w = Some (Some (fst (upd i data)), snd (snd (upd i data)), ?undo w2)"
        using 2(2) f Some un(1) [OF s2 i2] i
        by (cases "upd i data") (auto simp: atomic_update_attempt_def w2_def)
      ultimately show ?thesis
        by (intro that [OF _ un(2,3) [OF s2 i2]]) (use Some lw i in simp_all)
    next
      case False
      show ?thesis
        by (rule that [of "Some False" data w])
          (use Some lw f 2(2) un [OF same_config_refl i1] r
            in \<open>simp_all add: atomic_update_attempt_def zval_not_long [OF False]\<close>)
    qed
  qed
qed

section \<open>Small values can always be stored\<close>

lemma persist_size_simple:
  assumes "z_simple (ce_val orig)"
  shows "persist_size ser srz rq orig = Some (Some (calc_start orig (persist_context srz (ce_val orig))))"
    "cx_size (calc_start orig (persist_context srz (ce_val orig))) =
        ZEND_MM_ALIGNED_SIZE SIZEOF_CACHE_ENTRY + ZEND_MM_ALIGNED_SIZE (ZSTR_STRUCT_SIZE (ZSTR_LEN (ce_key orig)))"
proof -
  have t: "top_ok rq (ce_val orig)" "Z_TYPE (ce_val orig) \<noteq> 10"
    using assms by (cases "ce_val orig"; simp add: top_ok_def zv_ok_def)+
  have "apc_persist_calc (persist_fuel rq) (persist_serialize ser srz) rq orig (persist_context srz (ce_val orig)) =
      Some (True, calc_start orig (persist_context srz (ce_val orig)))"
    using assms by (simp add: apc_persist_calc_def persist_fuel_Suc calc_start_def)
  then show "persist_size ser srz rq orig = Some (Some (calc_start orig (persist_context srz (ce_val orig))))"
    using t by (simp add: persist_size_def Let_def)
  show "cx_size (calc_start orig (persist_context srz (ce_val orig))) =
        ZEND_MM_ALIGNED_SIZE SIZEOF_CACHE_ENTRY + ZEND_MM_ALIGNED_SIZE (ZSTR_STRUCT_SIZE (ZSTR_LEN (ce_key orig)))"
    by (simp add: calc_start_def ADD_SIZE_def ADD_SIZE_STR_def persist_context_def apc_persist_init_context_def)
qed

lemma storable_simple:
  assumes "z_simple (ce_val orig)" "heap_ok (ev_rq ev)" "ZSTR_LEN (ce_key orig) < SIZE_LIMIT - 200"
  shows "storable ev srz orig"
proof -
  note p = persist_size_simple [OF assms(1)]
  have "cx_size (calc_start orig (persist_context srz (ce_val orig))) <
      (SIZEOF_CACHE_ENTRY + 8) + (ZSTR_STRUCT_SIZE (ZSTR_LEN (ce_key orig)) + 8)"
    unfolding p(2) by (intro add_strict_mono aligned_bounds)
  then have "cx_size (calc_start orig (persist_context srz (ce_val orig))) < SIZE_LIMIT - 39"
    using assms(3) by (simp add: SIZEOF_CACHE_ENTRY_def ZSTR_STRUCT_SIZE_def)
  moreover have "top_ok (ev_rq ev) (ce_val orig)" using assms(1) by (cases "ce_val orig"; simp add: top_ok_def zv_ok_def)
  ultimately show ?thesis using assms(2) p(1) by (simp add: storable_def persist_below_def)
qed

section \<open>The whole update\<close>

text \<open>The second attempt of an update whose key was missing, after the exclusive store.\<close>

lemma apc_cache_atomic_update_long_ok:
  assumes r: "cache_ready w" and k: "zs_ok key"
    and h: "heap_ok (ev_rq ev)" and kl: "ZSTR_LEN key < SIZE_LIMIT - 200"
  obtains b data1 w' where "apc_cache_atomic_update_long ev key upd data ins ttl w = Some (b, data1, w')" "cache_ready w'"
    "same_setup ev w w'"
proof -
  note result = that
  obtain t g where tg: "apc_time ev (glb w) = (t, g)" by (metis surj_pair)
  let ?w0 = "upd_g g w"
  have s0: "same_config ev w ?w0" using tg by (simp add: same_config_def tick_def)
  have r0: "cache_ready ?w0"
    by (rule cache_ready_config [OF r _ s0]) (use cache_readyD(2) [OF r] cache_inv_cong [of ?w0 w "{}"] in simp)
  note n0 = cache_readyD(1) [OF r0]
  obtain res data1 w1 where a: "atomic_update_attempt upd data key t ?w0 = Some (res, data1, w1)" "cache_ready w1" "same_config ev ?w0 w1"
    by (rule atomic_update_attempt_ok [OF r0 k])
  have ss1: "same_setup ev w w1" by (rule same_config_setup [OF same_config_trans [OF s0 a(3)]])
  show ?thesis
  proof (cases "res = None \<and> ins")
    case False
    then show ?thesis using a n0 tg
      by (cases res) (auto intro!: result [OF _ a(2) ss1] simp: apc_cache_atomic_update_long_def)
  next
    case True
    have st: "storable ev (c_serializer (cch w1)) (apc_cache_init_entry key (IS_LONG 0) (ucast ttl) (fst (apc_time ev (glb w1))))"
      by (rule storable_simple) (use h kl in \<open>simp_all add: apc_cache_init_entry_def\<close>)
    obtain ok w2 where s: "apc_cache_store ev key (IS_LONG 0) (ucast ttl) True w1 = Some (ok, w2)" "cache_ready w2"
      "same_setup ev w1 w2"
      by (rule apc_cache_store_ok [OF a(2) k st])
    obtain res2 data2 w3 where b: "atomic_update_attempt upd data1 key t w2 = Some (res2, data2, w3)" "cache_ready w3" "same_config ev w2 w3"
      by (rule atomic_update_attempt_ok [OF s(2) k])
    note ss = same_setup_trans [OF ss1 same_setup_trans [OF s(3) same_config_setup [OF b(3)]]]
    show ?thesis
      by (rule result [OF _ b(2) ss]) (use True a(1) s(1) b(1) n0 tg in \<open>simp add: apc_cache_atomic_update_long_def\<close>)
  qed
qed

lemma apc_cache_update_ok:
  assumes r: "cache_ready w" and k: "zs_ok key"
    and h: "heap_ok (ev_rq ev)" and kl: "ZSTR_LEN key < SIZE_LIMIT - 200"
  obtains b w' where "apc_cache_update ev key upd ins ttl w = Some (b, w')" "cache_ready w'" "same_setup ev w w'"
proof -
  note result = that
  obtain t g where tg: "apc_time ev (glb w) = (t, g)" by (metis surj_pair)
  let ?w0 = "upd_g g w"
  have s0: "same_config ev w ?w0" using tg by (simp add: same_config_def tick_def)
  have r0: "cache_ready ?w0"
    by (rule cache_ready_config [OF r _ s0]) (use cache_readyD(2) [OF r] cache_inv_cong [of ?w0 w "{}"] in simp)
  note n0 = cache_readyD(1) [OF r0]
  obtain res w1 where a: "update_attempt upd key t ?w0 = Some (res, w1)" "cache_ready w1" "same_config ev ?w0 w1"
    by (rule update_attempt_ok [OF r0 k])
  have ss1: "same_setup ev w w1" by (rule same_config_setup [OF same_config_trans [OF s0 a(3)]])
  show ?thesis
  proof (cases "res = None \<and> ins")
    case False
    then show ?thesis using a n0 tg
      by (cases res) (auto intro!: result [OF _ a(2) ss1] simp: apc_cache_update_def)
  next
    case True
    have st: "storable ev (c_serializer (cch w1)) (apc_cache_init_entry key (IS_LONG 0) (ucast ttl) (fst (apc_time ev (glb w1))))"
      by (rule storable_simple) (use h kl in \<open>simp_all add: apc_cache_init_entry_def\<close>)
    obtain ok w2 where s: "apc_cache_store ev key (IS_LONG 0) (ucast ttl) True w1 = Some (ok, w2)" "cache_ready w2"
      "same_setup ev w1 w2"
      by (rule apc_cache_store_ok [OF a(2) k st])
    obtain res2 w3 where b: "update_attempt upd key t w2 = Some (res2, w3)" "cache_ready w3" "same_config ev w2 w3"
      by (rule update_attempt_ok [OF s(2) k])
    note ss = same_setup_trans [OF ss1 same_setup_trans [OF s(3) same_config_setup [OF b(3)]]]
    show ?thesis
      by (rule result [OF _ b(2) ss]) (use True a(1) s(1) b(1) n0 tg in \<open>simp add: apc_cache_update_def\<close>)
  qed
qed

end
