(* ===== verification/Apc_Serializer.thy ===== *)
theory Apc_Serializer imports Apc_Persist begin

text \<open>
  \<open>apc.c\<close>: the registry of serializers and the flipped search list; and the PHP arrays that the
  information calls and functions of the extension return, as lists of keys and values in order.
\<close>

section \<open>The registry\<close>

text \<open>A slot whose name is \<open>NULL\<close> is empty. The list has \<open>APC_MAX_SERIALIZERS\<close> slots.\<close>

definition APC_MAX_SERIALIZERS :: nat where "APC_MAX_SERIALIZERS = 16"

type_synonym registry = "apc_serializer_t option list"

definition no_serializers :: registry where
  "no_serializers = replicate APC_MAX_SERIALIZERS None"

primrec register_from :: "nat \<Rightarrow> nat \<Rightarrow> apc_serializer_t \<Rightarrow> registry \<Rightarrow> bool \<times> registry" where
  "register_from 0 i s reg = (False, reg)"
| "register_from (Suc n) i s reg =
     (if reg ! i = None
      then (True, (let reg1 = reg[i := Some s]
                   in if i < APC_MAX_SERIALIZERS - 1 then reg1[i + 1 := None] else reg1))
      else register_from n (i + 1) s reg)"

definition apc_register_serializer :: "apc_serializer_t \<Rightarrow> registry \<Rightarrow> bool \<times> registry" where
  "apc_register_serializer s reg = register_from APC_MAX_SERIALIZERS 0 s reg"

definition apc_find_serializer :: "string \<Rightarrow> registry \<Rightarrow> apc_serializer_t option" where
  "apc_find_serializer name reg =
     (case List.find (\<lambda>s. case s of None \<Rightarrow> False | Some s' \<Rightarrow> ser_name s' = name) reg of
        Some (Some s) \<Rightarrow> Some s | _ \<Rightarrow> None)"

text \<open>
  The names the information page lists: from \<open>apc_get_serializers\<close> up to the first empty slot.
  When all sixteen slots are taken the walk leaves the array, which is \<open>None\<close>.
\<close>

fun serializer_names :: "registry \<Rightarrow> string list option" where
  "serializer_names [] = None"
| "serializer_names (None # reg) = Some []"
| "serializer_names (Some s # reg) = map_option ((#) (ser_name s)) (serializer_names reg)"

section \<open>Arrays\<close>

datatype info_key = KStr string | KIdx u64

text \<open>\<open>IDouble n\<close> is the double that C converts the integer \<open>n\<close> to; \<open>IZval\<close> a value of the request.\<close>

datatype info_val =
    INull
  | IFalse
  | ITrue
  | ILong i64
  | IDouble i64
  | IStr string
  | IZval zval
  | IArr "(info_key \<times> info_val) list"

type_synonym info_arr = "(info_key \<times> info_val) list"

definition add_assoc :: "string \<Rightarrow> info_val \<Rightarrow> info_arr \<Rightarrow> info_arr" where
  "add_assoc k v xs = xs @ [(KStr k, v)]"

definition add_index :: "u64 \<Rightarrow> info_val \<Rightarrow> info_arr \<Rightarrow> info_arr" where
  "add_index i v xs = xs @ [(KIdx i, v)]"

text \<open>On arrays that are only appended to, the next index is the length.\<close>

definition add_next_index :: "info_val \<Rightarrow> info_arr \<Rightarrow> info_arr" where
  "add_next_index v xs = xs @ [(KIdx (of_nat (length xs)), v)]"

definition arr_update :: "info_key \<Rightarrow> 'v \<Rightarrow> (info_key \<times> 'v) list \<Rightarrow> (info_key \<times> 'v) list" where
  "arr_update k v xs = (if k \<in> fst ` set xs then map (\<lambda>(k', v'). (k', if k' = k then v else v')) xs
                        else xs @ [(k, v)])"

text \<open>\<open>zend_hash_add_new\<close> trusts its caller that the key is new and does not look for it.\<close>

definition arr_add_new :: "info_key \<Rightarrow> 'v \<Rightarrow> (info_key \<times> 'v) list \<Rightarrow> (info_key \<times> 'v) list" where
  "arr_add_new k v xs = xs @ [(k, v)]"

section \<open>The flipped list\<close>

text \<open>\<open>ZVAL_DEREF\<close>, and the iteration over the values of a table, which passes over unused buckets.\<close>

definition ZVAL_DEREF :: "heap \<Rightarrow> zval \<Rightarrow> zval option" where
  "ZVAL_DEREF hp zv = (case zv of IS_REFERENCE a \<Rightarrow> hp_ref hp a | _ \<Rightarrow> Some zv)"

definition ht_values :: "hash_table \<Rightarrow> zval list" where
  "ht_values ht = filter (\<lambda>v. v \<noteq> IS_UNDEF) (map bk_val (ht_data ht))"

text \<open>\<open>Z_LVAL\<close> reads the value's eight bytes; \<open>stale\<close> is what is in them for a type without data.\<close>

definition Z_LVAL :: "i64 \<Rightarrow> zval \<Rightarrow> i64" where
  "Z_LVAL stale zv = (case zv of IS_LONG i \<Rightarrow> i | IS_DOUBLE d \<Rightarrow> d
     | IS_UNDEF \<Rightarrow> stale | IS_NULL \<Rightarrow> stale | IS_FALSE \<Rightarrow> stale | IS_TRUE \<Rightarrow> stale | _ \<Rightarrow> of_nat (Z_COUNTED zv))"

primrec flip_values :: "i64 \<Rightarrow> heap \<Rightarrow> zval list \<Rightarrow> (info_key \<times> i64) list \<Rightarrow> (info_key \<times> i64) list option" where
  "flip_values stale rq [] new_hash = Some new_hash"
| "flip_values stale rq (v # vs) new_hash = do {
     entry \<leftarrow> ZVAL_DEREF rq v;
     (case entry of
        IS_STRING a \<Rightarrow> do {
          s \<leftarrow> hp_str rq a;
          flip_values stale rq vs (arr_update (KStr (zs_val s)) 1 new_hash)
        }
      | _ \<Rightarrow> flip_values stale rq vs (arr_update (KIdx (Z_LVAL stale entry)) 1 new_hash))
   }"

definition apc_flip_hash :: "i64 \<Rightarrow> heap \<Rightarrow> hash_table \<Rightarrow> (info_key \<times> i64) list option" where
  "apc_flip_hash stale rq hash = flip_values stale rq (ht_values hash) []"

section \<open>Facts\<close>

lemma register_from_free:
  "j < n \<Longrightarrow> reg ! (i + j) = None \<Longrightarrow> \<forall>k < j. reg ! (i + k) \<noteq> None \<Longrightarrow>
   register_from n i s reg = (True, (let reg1 = reg[i + j := Some s]
     in if i + j < APC_MAX_SERIALIZERS - 1 then reg1[i + j + 1 := None] else reg1))"
proof (induction n arbitrary: i j)
  case (Suc n)
  show ?case
  proof (cases j)
    case 0
    then show ?thesis using Suc.prems by (simp add: Let_def)
  next
    case (Suc j')
    have "\<forall>k < j'. reg ! (i + 1 + k) \<noteq> None"
    proof (intro allI impI)
      fix k assume "k < j'"
      then show "reg ! (i + 1 + k) \<noteq> None" using Suc.prems(3) [THEN spec, of "Suc k"] \<open>j = Suc j'\<close> by simp
    qed
    moreover have "reg ! i \<noteq> None" using Suc.prems(3) \<open>j = Suc j'\<close> by (metis add.right_neutral zero_less_Suc)
    ultimately show ?thesis using Suc.IH [of j' "i + 1"] Suc.prems \<open>j = Suc j'\<close> by (auto simp: Let_def)
  qed
qed simp

lemma register_from_full:
  "\<forall>k < n. reg ! (i + k) \<noteq> None \<Longrightarrow> register_from n i s reg = (False, reg)"
proof (induction n arbitrary: i)
  case (Suc n)
  have "\<forall>k < n. reg ! (i + 1 + k) \<noteq> None"
  proof (intro allI impI)
    fix k assume "k < n"
    then show "reg ! (i + 1 + k) \<noteq> None" using Suc.prems [THEN spec, of "Suc k"] by simp
  qed
  moreover have "reg ! i \<noteq> None" using Suc.prems by (metis add.right_neutral zero_less_Suc)
  ultimately show ?case using Suc.IH [of "i + 1"] by simp
qed simp

text \<open>
  The registry as registration builds it: the taken slots come first.
\<close>

definition packed :: "apc_serializer_t list \<Rightarrow> registry \<Rightarrow> bool" where
  "packed ss reg \<longleftrightarrow> length ss \<le> APC_MAX_SERIALIZERS \<and>
     reg = map Some ss @ replicate (APC_MAX_SERIALIZERS - length ss) None"

lemma packed_none [simp]: "packed [] no_serializers"
  by (simp add: packed_def no_serializers_def)

lemma register_packed:
  assumes "packed ss reg"
  shows "apc_register_serializer s reg =
    (if length ss < APC_MAX_SERIALIZERS then (True, map Some (ss @ [s]) @ replicate (APC_MAX_SERIALIZERS - length ss - 1) None)
     else (False, reg))"
proof -
  let ?N = APC_MAX_SERIALIZERS
  have reg: "reg = map Some ss @ replicate (?N - length ss) None" "length ss \<le> ?N" "length reg = ?N"
    using assms by (auto simp: packed_def)
  have nth: "reg ! i = None \<longleftrightarrow> length ss \<le> i" if "i < ?N" for i
    using that by (simp add: reg(1) nth_append)
  show ?thesis
  proof (cases "length ss < ?N")
    case True
    have r: "register_from ?N 0 s reg = (True, (let reg1 = reg[length ss := Some s]
       in if length ss < ?N - 1 then reg1[length ss + 1 := None] else reg1))"
      using register_from_free [of "length ss" ?N reg 0 s] True nth by (simp add: Let_def)
    have w: "reg[length ss := Some s] = map Some (ss @ [s]) @ replicate (?N - length ss - 1) None"
    proof -
      have "?N - length ss = Suc (?N - length ss - 1)" using True by simp
      then have "replicate (?N - length ss) None = (None :: apc_serializer_t option) # replicate (?N - length ss - 1) None"
        by (metis replicate_Suc)
      then show ?thesis by (simp add: reg(1) list_update_append)
    qed
    have "reg[length ss := Some s, length ss + 1 := None] = reg[length ss := Some s]" if "length ss < ?N - 1"
    proof -
      have "reg[length ss := Some s] ! (length ss + 1) = None" using that nth [of "length ss + 1"] by simp
      then show ?thesis by (metis list_update_id)
    qed
    with r w True show ?thesis by (simp add: apc_register_serializer_def Let_def)
  next
    case False
    then show ?thesis
      using register_from_full [of ?N reg 0 s] nth reg(2) by (simp add: apc_register_serializer_def)
  qed
qed

lemma find_packed:
  assumes "packed ss reg"
  shows "apc_find_serializer name reg = List.find (\<lambda>s. ser_name s = name) ss"
proof -
  have "List.find P (replicate n None) = None" if "\<not> P (None :: apc_serializer_t option)" for P n
    using that by (induction n) auto
  moreover have "List.find P (map Some ss @ zs) = (case List.find (\<lambda>s. P (Some s)) ss of Some s \<Rightarrow> Some (Some s) | None \<Rightarrow> List.find P zs)"
    for P zs by (induction ss) auto
  ultimately show ?thesis using assms by (auto simp: packed_def apc_find_serializer_def split: option.split)
qed

end
