(* ===== verification/Apc_Cache_Admin.thy ===== *)
theory Apc_Cache_Admin imports Apc_Cache_Update Apc_Serializer begin

text \<open>
  The rest of \<open>apc_cache.c\<close>: creating and detaching the cache, the choice of a serializer, the
  information calls, \<open>apc_cache_entry\<close> and preloading.
\<close>

section \<open>Creation\<close>

text \<open>
  The number of slots comes from an \<open>int\<close> parameter, so the hint is cut to 32 bits. The cache
  block is zeroed; the lock is made last, and what its creation answers is not looked at.
\<close>

definition cache_nslots :: "i64 \<Rightarrow> nat" where
  "cache_nslots size_hint =
     make_prime (sint (ucast (if i64_less 0 size_hint then size_hint else 2000) :: 32 word))"

definition apc_cache_create ::
  "apc_env \<Rightarrow> int \<Rightarrow> apc_serializer_t option \<Rightarrow> i64 \<Rightarrow> i64 \<Rightarrow> i64 \<Rightarrow> i64 \<Rightarrow> bool \<Rightarrow> world \<Rightarrow>
   ((string + apc_cache_t) \<times> world) option" where
  "apc_cache_create ev rwlock_init serializer size_hint gc_ttl ttl smart defend w = do {
     let nslots = cache_nslots size_hint;
     let cache_size = SIZEOF_CACHE_HEADER + nslots * 8;
     (p, w1) \<leftarrow> apc_sma_malloc (apc_cache_default_expunge ev) w cache_size;
     if p = 0 then Some (Inl ''Unable to allocate shared memory for cache structures'', w1)
     else Some (Inr \<lparr>c_shmaddr = p, c_lock = snd (apc_lock_create rwlock_init),
        c_nhits = 0, c_nmisses = 0, c_ninserts = 0, c_nexpunges = 0, c_nentries = 0, c_mem_size = 0,
        c_stime = ev_time ev, c_state = 0, c_lastkey = no_slam_key, c_gc = [], c_slots = replicate nslots [],
        c_serializer = serializer, c_nslots = nslots, c_gc_ttl = gc_ttl, c_ttl = ttl, c_smart = smart,
        c_defend = defend\<rparr>, w1)
   }"

text \<open>\<open>apc_user_cache = apc_cache_create(...)\<close> of the module's startup, and detaching.\<close>

definition use_cache :: "apc_cache_t \<Rightarrow> world \<Rightarrow> world" where
  "use_cache c w = (fst w, (snd w)\<lparr>cs_null := False, cs_cache := c\<rparr>)"

text \<open>
  \<open>apc_cache_detach\<close> frees the process's own structure. The pointer to it is not cleared, which
  the model shows by making any later use undefined: it returns the allocator alone.
\<close>

definition apc_cache_detach :: "world \<Rightarrow> apc_sma_t" where
  "apc_cache_detach w = fst w"

definition apc_cache_serializer :: "registry \<Rightarrow> string \<Rightarrow> world \<Rightarrow> world" where
  "apc_cache_serializer reg name w =
     (if \<not> cs_null (snd w) \<and> c_serializer (cch w) = None
      then upd_cache (\<lambda>c. c\<lparr>c_serializer := apc_find_serializer name reg\<rparr>) w
      else w)"

section \<open>Information\<close>

definition array_add_long :: "string \<Rightarrow> i64 \<Rightarrow> info_arr \<Rightarrow> info_arr" where
  "array_add_long k v xs = arr_add_new (KStr k) (ILong v) xs"

definition array_add_double :: "string \<Rightarrow> i64 \<Rightarrow> info_arr \<Rightarrow> info_arr" where
  "array_add_double k v xs = arr_add_new (KStr k) (IDouble v) xs"

definition apc_cache_link_info :: "apc_cache_entry_t \<Rightarrow> info_val" where
  "apc_cache_link_info p = IArr
     (array_add_long ''mem_size'' (ce_mem_size p)
     (array_add_long ''ref_count'' (ce_ref_count p)
     (array_add_long ''access_time'' (ce_atime p)
     (array_add_long ''deletion_time'' (ce_dtime p)
     (array_add_long ''creation_time'' (ce_ctime p)
     (array_add_long ''mtime'' (ce_mtime p)
     (array_add_double ''num_hits'' (ce_nhits p)
     (array_add_long ''ttl'' (ce_ttl p)
     (arr_add_new (KStr ''info'') (IStr (zs_val (ce_key p))) [])))))))))"

primrec info_chain :: "apc_cache_entry_t list \<Rightarrow> info_arr \<Rightarrow> info_arr" where
  "info_chain [] xs = xs"
| "info_chain (p # ps) xs = info_chain ps (add_next_index (apc_cache_link_info p) xs)"

text \<open>The loop over the slots: the entries, and how many are in each slot that is not empty.\<close>

primrec info_slots :: "nat \<Rightarrow> apc_cache_entry_t list list \<Rightarrow> info_arr \<Rightarrow> info_arr \<Rightarrow> info_arr \<times> info_arr" where
  "info_slots i [] list slots = (list, slots)"
| "info_slots i (es # ess) list slots =
     info_slots (Suc i) ess (info_chain es list)
       (if es \<noteq> [] then add_index (of_nat i) (ILong (of_nat (length es))) slots else slots)"

definition info_header :: "apc_cache_t \<Rightarrow> info_arr" where
  "info_header c =
     add_assoc ''memory_type'' (IStr ''mmap'')
     (array_add_double ''mem_size'' (c_mem_size c)
     (add_assoc ''start_time'' (ILong (c_stime c))
     (add_assoc ''expunges'' (IDouble (c_nexpunges c))
     (add_assoc ''num_entries'' (ILong (c_nentries c))
     (add_assoc ''num_inserts'' (IDouble (c_ninserts c))
     (add_assoc ''num_misses'' (IDouble (c_nmisses c))
     (array_add_double ''num_hits'' (c_nhits c)
     (array_add_long ''ttl'' (c_ttl c)
     (add_assoc ''num_slots'' (ILong (of_nat (c_nslots c))) [])))))))))"

definition info_lists :: "apc_cache_t \<Rightarrow> info_arr \<Rightarrow> info_arr" where
  "info_lists c info =
     (let (list, slots) = info_slots 0 (c_slots c) [] [];
          gc = info_chain (c_gc c) []
      in add_assoc ''slot_distribution'' (IArr slots)
         (add_assoc ''deleted_list'' (IArr gc)
         (add_assoc ''cache_list'' (IArr list) info)))"

definition apc_cache_info :: "bool \<Rightarrow> world \<Rightarrow> (bool \<times> info_val \<times> world) option" where
  "apc_cache_info limited w =
     (if cs_null (snd w) then Some (False, INull, w)
      else do {
        (ok, w1) \<leftarrow> apc_cache_rlock w;
        if \<not> ok then Some (False, INull, w1)
        else do {
          let info = info_header (cch w1);
          let info1 = (if limited then info else info_lists (cch w1) info);
          w2 \<leftarrow> apc_cache_runlock w1;
          Some (True, IArr info1, w2)
        }
      })"

definition stat_entry :: "apc_cache_entry_t \<Rightarrow> info_arr" where
  "stat_entry e =
     array_add_long ''refs'' (ce_ref_count e)
     (array_add_long ''ttl'' (ce_ttl e)
     (array_add_long ''deletion_time'' (ce_dtime e)
     (array_add_long ''creation_time'' (ce_ctime e)
     (array_add_long ''mtime'' (ce_mtime e)
     (array_add_long ''access_time'' (ce_atime e)
     (array_add_long ''hits'' (ce_nhits e) []))))))"

definition apc_cache_stat :: "zend_string \<Rightarrow> world \<Rightarrow> (info_val \<times> world) option" where
  "apc_cache_stat key w =
     (if cs_null (snd w) then Some (INull, w)
      else (let (h, s) = apc_cache_hash_slot (c_nslots (cch w)) key in do {
        (ok, w1) \<leftarrow> apc_cache_rlock w;
        if \<not> ok then Some (INull, w1)
        else do {
          w2 \<leftarrow> apc_cache_runlock w1;
          Some (case chain_find key h (c_slots (cch w1) ! s) of None \<Rightarrow> INull | Some e \<Rightarrow> IArr (stat_entry e), w2)
        }
      }))"

section \<open>apc_cache_entry\<close>

text \<open>
  The generator is PHP code. It runs under the write lock with the entry level raised, may call
  any function of the extension, and ends by returning a value, by failing (or leaving an
  exception), or by bailing out of the request. It hands back the world and the surroundings
  at its end. A bailout is rethrown after the lock is released.
\<close>

datatype call_outcome = Returned zval | Failed | Bailout

datatype entry_result = Finished "zval option" "apc_env" | Bailed

definition enter_entry :: "world \<Rightarrow> world" where
  "enter_entry w = upd_g ((glb w)\<lparr>g_entry_level := g_entry_level (glb w) + 1\<rparr>) w"

definition leave_entry :: "world \<Rightarrow> world" where
  "leave_entry w = upd_g ((glb w)\<lparr>g_entry_level := g_entry_level (glb w) - 1\<rparr>) w"

definition entry_body ::
  "(world \<Rightarrow> (call_outcome \<times> apc_env \<times> world) option) \<Rightarrow> apc_env \<Rightarrow> zend_string \<Rightarrow> i64 \<Rightarrow> i64 \<Rightarrow> world \<Rightarrow>
   (entry_result \<times> world) option" where
  "entry_body gen ev key ttl now w =
     (case apc_cache_rlocked_find_incref key now w of
        (None, w1) \<Rightarrow> do {
          (r, ev1, w2) \<leftarrow> gen w1;
          (case r of
             Returned v \<Rightarrow> do {
               (_, w3) \<leftarrow> apc_cache_store_internal ev1 key v (ucast ttl) True w2;
               Some (Finished (Some v) ev1, w3)
             }
           | Failed \<Rightarrow> Some (Finished None ev1, w2)
           | Bailout \<Rightarrow> Some (Bailed, w2))
        }
      | (Some e, w1) \<Rightarrow> do {
          (_, v, rq) \<leftarrow> apc_cache_entry_fetch_zval ev e w1;
          w2 \<leftarrow> apc_cache_entry_release (ce_addr e) w1;
          Some (Finished (Some v) (ev\<lparr>ev_rq := rq\<rparr>), w2)
        })"

definition apc_cache_entry ::
  "(world \<Rightarrow> (call_outcome \<times> apc_env \<times> world) option) \<Rightarrow> apc_env \<Rightarrow> zend_string \<Rightarrow> i64 \<Rightarrow> i64 \<Rightarrow> world \<Rightarrow>
   (entry_result \<times> world) option" where
  "apc_cache_entry gen ev key ttl now w =
     (if cs_null (snd w) then Some (Finished None ev, w)
      else do {
        (ok, w1) \<leftarrow> apc_cache_wlock w;
        if \<not> ok then Some (Finished None ev, w1)
        else do {
          (r, w2) \<leftarrow> entry_body gen ev key ttl now (enter_entry w1);
          w3 \<leftarrow> apc_cache_wunlock (leave_entry w2);
          Some (r, w3)
        }
      })"

section \<open>Preloading\<close>

text \<open>
  What the file system answers: the length \<open>stat\<close> reports, the bytes \<open>fopen\<close> and \<open>fread\<close> deliver
  (\<open>None\<close> when the file cannot be opened), the sorted directory listing, and the value
  \<open>EG(uninitialized_zval)\<close> holds. \<open>data_unserialize\<close> does not look at what \<open>fopen\<close> returns, so a
  file that has a length but cannot be opened is a crash.
\<close>

record preload_fs =
  fs_stat :: "string \<Rightarrow> nat option"
  fs_open :: "string \<Rightarrow> string option"
  fs_malloc :: "nat \<Rightarrow> bool"
  fs_scandir :: "string \<Rightarrow> string list"
  fs_uninitialized :: zval

definition data_unserialize :: "preload_fs \<Rightarrow> apc_env \<Rightarrow> string \<Rightarrow> (zval \<times> heap) option" where
  "data_unserialize fs ev filename =
     (case fs_stat fs filename of
        None \<Rightarrow> Some (fs_uninitialized fs, ev_rq ev)
      | Some len \<Rightarrow>
          (case fs_open fs filename of
             None \<Rightarrow> None
           | Some contents \<Rightarrow>
               if \<not> fs_malloc fs len then Some (fs_uninitialized fs, ev_rq ev)
               else if take len contents = [] then Some (fs_uninitialized fs, ev_rq ev)
               else (case ev_php_var_unserialize ev (ev_rq ev) (take len contents) of
                       None \<Rightarrow> Some (fs_uninitialized fs, ev_rq ev)
                     | Some (v, rq) \<Rightarrow> Some (v, rq))))"

definition MAXPATHLEN :: nat where "MAXPATHLEN = 4096"

text \<open>\<open>strrchr\<close> as (what precedes, what follows) the last occurrence.\<close>

definition strrchr :: "string \<Rightarrow> char \<Rightarrow> (string \<times> string) option" where
  "strrchr s c = (if c \<in> set s
     then Some (rev (tl (dropWhile (\<lambda>x. x \<noteq> c) (rev s))), rev (takeWhile (\<lambda>x. x \<noteq> c) (rev s)))
     else None)"

definition apc_load_data :: "preload_fs \<Rightarrow> apc_env \<Rightarrow> string \<Rightarrow> world \<Rightarrow> (bool \<times> world) option" where
  "apc_load_data fs ev data_file w =
     (case strrchr data_file (CHR ''/'') of
        None \<Rightarrow> Some (False, w)
      | Some (_, base) \<Rightarrow>
          if base = [] then Some (False, w)
          else (case strrchr (take (MAXPATHLEN - 1) base) (CHR ''.'') of
                  None \<Rightarrow> Some (False, w)
                | Some (key, _) \<Rightarrow> do {
                    (data, rq) \<leftarrow> data_unserialize fs ev data_file;
                    if data = IS_UNDEF then Some (True, w)
                    else do {
                      (_, w1) \<leftarrow> apc_cache_store (ev\<lparr>ev_rq := rq\<rparr>) (mk_zstr key) data 0 True w;
                      Some (True, w1)
                    }
                  }))"

primrec preload_files :: "preload_fs \<Rightarrow> apc_env \<Rightarrow> string \<Rightarrow> string list \<Rightarrow> bool \<Rightarrow> world \<Rightarrow> (bool \<times> world) option" where
  "preload_files fs ev path [] result w = Some (result, w)"
| "preload_files fs ev path (d # ds) result w =
     (case strrchr d (CHR ''.'') of
        None \<Rightarrow> preload_files fs ev path ds result w
      | Some (_, ext) \<Rightarrow>
          if ext \<noteq> ''data'' then preload_files fs ev path ds result w
          else do {
            (r, w1) \<leftarrow> apc_load_data fs ev (take (MAXPATHLEN - 1) (path @ ''/'' @ d)) w;
            preload_files fs ev path ds (result \<or> r) w1
          })"

definition apc_cache_preload :: "preload_fs \<Rightarrow> apc_env \<Rightarrow> string \<Rightarrow> world \<Rightarrow> (bool \<times> world) option" where
  "apc_cache_preload fs ev path w = preload_files fs ev path (fs_scandir fs path) False w"

end
