(* ===== verification/Apc_Iterator.thy ===== *)
theory Apc_Iterator imports Apc_Cache_Admin Apc_Stack begin

text \<open>
  \<open>apc_iterator.c\<close>: the class \<open>APCUIterator\<close>. An iterator pulls the entries of some slots, or of
  the list of removed entries, into a stack of items and hands them out one by one.

  An operation works on the iterator, the surroundings (whose store of the request grows when a
  value is copied out) and the world. PCRE and the table of request objects are not part of the
  sources: a compiled pattern is a predicate on keys.
\<close>

section \<open>What a PHP call answers\<close>

text \<open>A value, an exception (\<open>zend_throw_error\<close>), or a fatal error (\<open>apc_error\<close>), which ends the request.\<close>

datatype 'a php_result = Return 'a | Exception string | FatalError string

section \<open>State\<close>

record apc_iterator_item_t =
  itm_key :: zend_string
  itm_value :: info_arr

datatype fetch_callback = FetchActive | FetchDeleted

text \<open>\<open>ai_regex\<close> is \<open>iterator->regex\<close> in its compiled form.\<close>

record apc_iterator_t =
  ai_initialized :: bool
  ai_format :: i64
  ai_fetch :: fetch_callback
  ai_slot_idx :: nat
  ai_chunk_size :: nat
  ai_stack :: "apc_iterator_item_t apc_stack_t"
  ai_stack_idx :: int
  ai_regex :: "(string \<Rightarrow> bool) option"
  ai_search_hash :: "(info_key \<times> i64) list option"
  ai_key_idx :: i64
  ai_totals_flag :: bool
  ai_hits :: i64
  ai_size :: u64
  ai_count :: i64

definition APC_DEFAULT_CHUNK_SIZE :: nat where "APC_DEFAULT_CHUNK_SIZE = 100"

definition APC_LIST_ACTIVE :: i64 where "APC_LIST_ACTIVE = 1"

definition APC_LIST_DELETED :: i64 where "APC_LIST_DELETED = 2"

definition APC_ITER_ALL :: i64 where "APC_ITER_ALL = 0xffffffff"

section \<open>Items\<close>

text \<open>The flag \<open>1 << n\<close> of the format asks for the field.\<close>

definition add_field :: "nat \<Rightarrow> i64 \<Rightarrow> string \<Rightarrow> info_val \<Rightarrow> info_arr \<Rightarrow> info_arr" where
  "add_field n format k v ht = (if bit format n then arr_add_new (KStr k) v ht else ht)"

definition item_fields :: "i64 \<Rightarrow> zend_string \<Rightarrow> info_val \<Rightarrow> apc_cache_entry_t \<Rightarrow> info_arr" where
  "item_fields format key v e =
     add_field 10 format ''ttl'' (ILong (ce_ttl e))
     (add_field 9 format ''mem_size'' (ILong (ce_mem_size e))
     (add_field 8 format ''ref_count'' (ILong (ce_ref_count e))
     (add_field 7 format ''access_time'' (ILong (ce_atime e))
     (add_field 6 format ''deletion_time'' (ILong (ce_dtime e))
     (add_field 5 format ''creation_time'' (ILong (ce_ctime e))
     (add_field 4 format ''mtime'' (ILong (ce_mtime e))
     (add_field 3 format ''num_hits'' (ILong (ce_nhits e))
     (add_field 2 format ''value'' v
     (add_field 1 format ''key'' (IStr (zs_val key))
     (add_field 0 format ''type'' (IStr ''user'') []))))))))))"

text \<open>The copy of a string has no cached hash.\<close>

definition zend_string_dup :: "zend_string \<Rightarrow> zend_string" where
  "zend_string_dup s = mk_zstr (zs_val s)"

definition apc_iterator_item_ctor ::
  "apc_iterator_t \<Rightarrow> apc_cache_entry_t \<Rightarrow> world \<Rightarrow> apc_env \<Rightarrow> (apc_iterator_item_t \<times> apc_env) option" where
  "apc_iterator_item_ctor iterator entry w ev = do {
     let key = zend_string_dup (ce_key entry);
     (v, ev1) \<leftarrow>
       (if bit (ai_format iterator) 2
        then do {
          (_, zv, rq) \<leftarrow> apc_cache_entry_fetch_zval ev entry w;
          Some (IZval zv, ev\<lparr>ev_rq := rq\<rparr>)
        }
        else Some (INull, ev));
     Some (\<lparr>itm_key = key, itm_value = item_fields (ai_format iterator) key v entry\<rparr>, ev1)
   }"

section \<open>Filters\<close>

text \<open>With both a pattern and a list the list decides.\<close>

definition apc_iterator_search_match :: "apc_iterator_t \<Rightarrow> apc_cache_entry_t \<Rightarrow> bool" where
  "apc_iterator_search_match iterator entry =
     (let rval = (case ai_regex iterator of None \<Rightarrow> True | Some re \<Rightarrow> re (zs_val (ce_key entry)))
      in case ai_search_hash iterator of
           None \<Rightarrow> rval
         | Some ht \<Rightarrow> KStr (zs_val (ce_key entry)) \<in> fst ` set ht)"

definition apc_iterator_check_expiry :: "apc_cache_entry_t \<Rightarrow> i64 \<Rightarrow> bool" where
  "apc_iterator_check_expiry entry t =
     (if ce_ttl entry \<noteq> 0 then (if i64_less (ce_ctime entry + ce_ttl entry) t then False else True) else True)"

section \<open>Fetching\<close>

text \<open>
  \<open>while (apc_stack_size(stack) > 0) dtor(pop(stack))\<close>. Every pop takes one cell off, so as many
  rounds as there are cells are enough.
\<close>

primrec stack_drain :: "nat \<Rightarrow> 'a apc_stack_t \<Rightarrow> 'a apc_stack_t option" where
  "stack_drain 0 st = (if apc_stack_size st > 0 then None else Some st)"
| "stack_drain (Suc n) st =
     (if apc_stack_size st > 0 then do { (_, st1) \<leftarrow> apc_stack_pop st; stack_drain n st1 } else Some st)"

text \<open>What a pass over entries carries along: the count, the stack, the surroundings.\<close>

type_synonym fetch_acc = "nat \<times> apc_iterator_item_t apc_stack_t \<times> apc_env"

definition fetch_entry ::
  "apc_iterator_t \<Rightarrow> world \<Rightarrow> apc_cache_entry_t \<Rightarrow> fetch_acc \<Rightarrow> fetch_acc option" where
  "fetch_entry iterator w entry = (\<lambda>(count, st, ev). do {
     (item, ev1) \<leftarrow> apc_iterator_item_ctor iterator entry w ev;
     st1 \<leftarrow> apc_stack_push st item;
     Some (count + 1, st1, ev1)
   })"

primrec active_chain ::
  "apc_iterator_t \<Rightarrow> world \<Rightarrow> i64 \<Rightarrow> apc_cache_entry_t list \<Rightarrow> fetch_acc \<Rightarrow> fetch_acc option" where
  "active_chain iterator w t [] acc = Some acc"
| "active_chain iterator w t (e # es) acc = do {
     acc1 \<leftarrow> (if apc_iterator_check_expiry e t
             then (if apc_iterator_search_match iterator e then fetch_entry iterator w e acc else Some acc)
             else Some acc);
     active_chain iterator w t es acc1
   }"

text \<open>The slots from \<open>slot_idx\<close> on, as long as no more than \<open>chunk_size\<close> items were found.\<close>

primrec active_slots ::
  "apc_iterator_t \<Rightarrow> world \<Rightarrow> i64 \<Rightarrow> apc_cache_entry_t list list \<Rightarrow> nat \<Rightarrow> fetch_acc \<Rightarrow> (nat \<times> fetch_acc) option" where
  "active_slots iterator w t [] slot_idx acc = Some (slot_idx, acc)"
| "active_slots iterator w t (es # ess) slot_idx acc =
     (if fst acc \<le> ai_chunk_size iterator
      then do {
        acc1 \<leftarrow> active_chain iterator w t es acc;
        active_slots iterator w t ess (slot_idx + 1) acc1
      }
      else Some (slot_idx, acc))"

definition apc_iterator_fetch_active ::
  "apc_iterator_t \<Rightarrow> apc_env \<Rightarrow> world \<Rightarrow> (nat \<times> apc_iterator_t \<times> apc_env \<times> world) option" where
  "apc_iterator_fetch_active iterator ev w = do {
     let (t, g) = apc_time ev (glb w);
     let w0 = upd_g g w;
     st \<leftarrow> stack_drain (st_size (ai_stack iterator)) (ai_stack iterator);
     let it0 = iterator\<lparr>ai_stack := st\<rparr>;
     assert_c (\<not> cs_null (snd w0));
     (ok, w1) \<leftarrow> apc_cache_rlock w0;
     if \<not> ok then Some (0, it0, ev, w1)
     else do {
       (slot_idx, count, st1, ev1) \<leftarrow>
         active_slots it0 w1 t (drop (ai_slot_idx it0) (take (c_nslots (cch w1)) (c_slots (cch w1))))
           (ai_slot_idx it0) (0, st, ev);
       w2 \<leftarrow> apc_cache_runlock w1;
       Some (count, it0\<lparr>ai_slot_idx := slot_idx, ai_stack := st1, ai_stack_idx := 0\<rparr>, ev1, w2)
     }
   }"

text \<open>The first loop over the removed entries passes over \<open>slot_idx + 1\<close> of them.\<close>

primrec skip_deleted :: "nat \<Rightarrow> nat \<Rightarrow> apc_cache_entry_t list \<Rightarrow> apc_cache_entry_t list" where
  "skip_deleted slot_idx cnt [] = []"
| "skip_deleted slot_idx cnt (e # es) =
     (if cnt \<le> slot_idx then skip_deleted slot_idx (cnt + 1) es else e # es)"

primrec deleted_list ::
  "apc_iterator_t \<Rightarrow> world \<Rightarrow> apc_cache_entry_t list \<Rightarrow> fetch_acc \<Rightarrow> fetch_acc option" where
  "deleted_list iterator w [] acc = Some acc"
| "deleted_list iterator w (e # es) acc =
     (if fst acc < ai_chunk_size iterator
      then do {
        acc1 \<leftarrow> (if apc_iterator_search_match iterator e then fetch_entry iterator w e acc else Some acc);
        deleted_list iterator w es acc1
      }
      else Some acc)"

definition apc_iterator_fetch_deleted ::
  "apc_iterator_t \<Rightarrow> apc_env \<Rightarrow> world \<Rightarrow> (nat \<times> apc_iterator_t \<times> apc_env \<times> world) option" where
  "apc_iterator_fetch_deleted iterator ev w = do {
     assert_c (\<not> cs_null (snd w));
     (ok, w1) \<leftarrow> apc_cache_rlock w;
     if \<not> ok then Some (0, iterator, ev, w1)
     else do {
       (count, st1, ev1) \<leftarrow> deleted_list iterator w1 (skip_deleted (ai_slot_idx iterator) 0 (c_gc (cch w1)))
         (0, ai_stack iterator, ev);
       w2 \<leftarrow> apc_cache_runlock w1;
       Some (count, iterator\<lparr>ai_slot_idx := ai_slot_idx iterator + count, ai_stack := st1, ai_stack_idx := 0\<rparr>,
             ev1, w2)
     }
   }"

text \<open>\<open>iterator->fetch(iterator)\<close>.\<close>

definition iterator_fetch ::
  "apc_iterator_t \<Rightarrow> apc_env \<Rightarrow> world \<Rightarrow> (nat \<times> apc_iterator_t \<times> apc_env \<times> world) option" where
  "iterator_fetch iterator ev w =
     (case ai_fetch iterator of
        FetchActive \<Rightarrow> apc_iterator_fetch_active iterator ev w
      | FetchDeleted \<Rightarrow> apc_iterator_fetch_deleted iterator ev w)"

section \<open>Totals\<close>

primrec totals_chain :: "i64 \<Rightarrow> apc_cache_entry_t list \<Rightarrow> apc_iterator_t \<Rightarrow> apc_iterator_t" where
  "totals_chain t [] iterator = iterator"
| "totals_chain t (e # es) iterator = totals_chain t es
     (if apc_iterator_check_expiry e t \<and> apc_iterator_search_match iterator e
      then iterator\<lparr>ai_size := ai_size iterator + ce_mem_size e, ai_hits := ai_hits iterator + ce_nhits e,
                    ai_count := ai_count iterator + 1\<rparr>
      else iterator)"

definition apc_iterator_totals :: "apc_iterator_t \<Rightarrow> apc_env \<Rightarrow> world \<Rightarrow> (apc_iterator_t \<times> world) option" where
  "apc_iterator_totals iterator ev w = do {
     let (t, g) = apc_time ev (glb w);
     let w0 = upd_g g w;
     assert_c (\<not> cs_null (snd w0));
     (ok, w1) \<leftarrow> apc_cache_rlock w0;
     if \<not> ok then Some (iterator, w1)
     else do {
       let it1 = fold (totals_chain t) (take (c_nslots (cch w1)) (c_slots (cch w1))) iterator;
       w2 \<leftarrow> apc_cache_runlock w1;
       Some (it1\<lparr>ai_totals_flag := True\<rparr>, w2)
     }
   }"

section \<open>Construction\<close>

text \<open>\<open>emalloc\<close> leaves the fields that \<open>apc_iterator_create\<close> does not set undefined; \<open>junk\<close> holds them.\<close>

definition apc_iterator_create :: "apc_iterator_t \<Rightarrow> apc_iterator_t" where
  "apc_iterator_create junk = junk\<lparr>ai_initialized := False, ai_regex := None, ai_search_hash := None\<rparr>"

text \<open>
  The argument \<open>search\<close> is \<open>None\<close> when it is missing or null; \<open>compile\<close> is
  \<open>pcre_get_compiled_regex_cache\<close>. The second component is the warning, if any.
\<close>

definition apc_iterator_obj_init ::
  "(string \<Rightarrow> (string \<Rightarrow> bool) option) \<Rightarrow> i64 \<Rightarrow> bool \<Rightarrow> heap \<Rightarrow> apc_iterator_t \<Rightarrow> zval option \<Rightarrow> i64 \<Rightarrow> nat \<Rightarrow> i64 \<Rightarrow>
   (unit php_result \<times> string list \<times> apc_iterator_t) option" where
  "apc_iterator_obj_init compile stale enabled rq iterator search format chunk_size list =
     (if \<not> enabled then Some (Exception ''APC must be enabled to use APCUIterator'', [], iterator)
      else if i64_less APC_ITER_ALL format then Some (FatalError ''APCUIterator format is invalid'', [], iterator)
      else if list \<noteq> APC_LIST_ACTIVE \<and> list \<noteq> APC_LIST_DELETED
      then Some (Return (), [''APCUIterator invalid list type''], iterator)
      else (let it1 = iterator\<lparr>ai_fetch := (if list = APC_LIST_ACTIVE then FetchActive else FetchDeleted),
                ai_slot_idx := 0, ai_stack_idx := 0, ai_key_idx := 0,
                ai_chunk_size := (if chunk_size = 0 then APC_DEFAULT_CHUNK_SIZE else chunk_size),
                ai_stack := apc_stack_create chunk_size, ai_format := format, ai_totals_flag := False,
                ai_count := 0, ai_size := 0, ai_hits := 0, ai_regex := None, ai_search_hash := None\<rparr>;
              ready = (\<lambda>it. Some (Return (), [], it\<lparr>ai_initialized := True\<rparr>))
        in (case search of
              None \<Rightarrow> ready it1
            | Some (IS_STRING a) \<Rightarrow>
                (case hp_str rq a of
                   None \<Rightarrow> None
                 | Some s \<Rightarrow>
                     if ZSTR_LEN s = 0 then ready it1
                     else (case compile (zs_val s) of
                         None \<Rightarrow> Some (FatalError ''Could not compile regular expression'', [], it1)
                       | Some re \<Rightarrow> ready (it1\<lparr>ai_regex := Some re\<rparr>)))
            | Some (IS_ARRAY a) \<Rightarrow>
                (case hp_arr rq a of
                   None \<Rightarrow> None
                 | Some ht \<Rightarrow>
                     (case apc_flip_hash stale rq ht of
                        None \<Rightarrow> None
                      | Some fl \<Rightarrow> ready (it1\<lparr>ai_search_hash := Some fl\<rparr>)))
            | Some _ \<Rightarrow> ready it1)))"

definition APCUIterator_construct ::
  "(string \<Rightarrow> (string \<Rightarrow> bool) option) \<Rightarrow> i64 \<Rightarrow> bool \<Rightarrow> heap \<Rightarrow> apc_iterator_t \<Rightarrow> zval option \<Rightarrow> i64 \<Rightarrow> i64 \<Rightarrow> i64 \<Rightarrow>
   (unit php_result \<times> string list \<times> apc_iterator_t) option" where
  "APCUIterator_construct compile stale enabled rq iterator search format chunk_size list =
     (if i64_less chunk_size 0
      then Some (FatalError ''APCUIterator chunk size must be 0 or greater'', [], iterator)
      else apc_iterator_obj_init compile stale enabled rq iterator search format (unat chunk_size) list)"

section \<open>Methods\<close>

definition ENSURE_INITIALIZED :: string where
  "ENSURE_INITIALIZED = ''Trying to use uninitialized APCUIterator''"

text \<open>The stack index is an \<open>int\<close> that becomes a \<open>size_t\<close> argument.\<close>

definition stack_at :: "apc_iterator_t \<Rightarrow> apc_iterator_item_t option" where
  "stack_at iterator = apc_stack_get (ai_stack iterator) (unat (word_of_int (ai_stack_idx iterator) :: u64))"

definition APCUIterator_rewind ::
  "apc_iterator_t \<Rightarrow> apc_env \<Rightarrow> world \<Rightarrow> (unit php_result \<times> apc_iterator_t \<times> apc_env \<times> world) option" where
  "APCUIterator_rewind iterator ev w =
     (if \<not> ai_initialized iterator then Some (Exception ENSURE_INITIALIZED, iterator, ev, w)
      else do {
        (_, it1, ev1, w1) \<leftarrow> iterator_fetch (iterator\<lparr>ai_slot_idx := 0, ai_stack_idx := 0, ai_key_idx := 0\<rparr>) ev w;
        Some (Return (), it1, ev1, w1)
      })"

definition APCUIterator_valid ::
  "apc_iterator_t \<Rightarrow> apc_env \<Rightarrow> world \<Rightarrow> (bool php_result \<times> apc_iterator_t \<times> apc_env \<times> world) option" where
  "APCUIterator_valid iterator ev w =
     (if \<not> ai_initialized iterator then Some (Exception ENSURE_INITIALIZED, iterator, ev, w)
      else do {
        (it1, ev1, w1) \<leftarrow> (if apc_stack_size (ai_stack iterator) = ai_stack_idx iterator
          then do { (_, it1, ev1, w1) \<leftarrow> iterator_fetch iterator ev w; Some (it1, ev1, w1) }
          else Some (iterator, ev, w));
        Some (Return (apc_stack_size (ai_stack it1) \<noteq> 0), it1, ev1, w1)
      })"

text \<open>\<open>current\<close> and \<open>key\<close> start the same way; \<open>what\<close> is the method's name in the message.\<close>

definition iterator_item ::
  "string \<Rightarrow> apc_iterator_t \<Rightarrow> apc_env \<Rightarrow> world \<Rightarrow>
   (apc_iterator_item_t php_result \<times> apc_iterator_t \<times> apc_env \<times> world) option" where
  "iterator_item what iterator ev w =
     (if \<not> ai_initialized iterator then Some (Exception ENSURE_INITIALIZED, iterator, ev, w)
      else do {
        (n, it1, ev1, w1) \<leftarrow> (if apc_stack_size (ai_stack iterator) = ai_stack_idx iterator
          then iterator_fetch iterator ev w else Some (1, iterator, ev, w));
        if n = 0 then Some (Exception (''Cannot call '' @ what @ ''() on invalid iterator''), it1, ev1, w1)
        else do {
          item \<leftarrow> stack_at it1;
          Some (Return item, it1, ev1, w1)
        }
      })"

fun map_result :: "('a \<Rightarrow> 'b) \<Rightarrow> 'a php_result \<Rightarrow> 'b php_result" where
  "map_result f (Return x) = Return (f x)"
| "map_result f (Exception s) = Exception s"
| "map_result f (FatalError s) = FatalError s"

definition APCUIterator_current ::
  "apc_iterator_t \<Rightarrow> apc_env \<Rightarrow> world \<Rightarrow> (info_arr php_result \<times> apc_iterator_t \<times> apc_env \<times> world) option" where
  "APCUIterator_current iterator ev w = do {
     (r, rest) \<leftarrow> iterator_item ''current'' iterator ev w;
     Some (map_result itm_value r, rest)
   }"

text \<open>Every item has a key, so the branch that returns \<open>key_idx\<close> is never taken.\<close>

definition APCUIterator_key ::
  "apc_iterator_t \<Rightarrow> apc_env \<Rightarrow> world \<Rightarrow> (zend_string php_result \<times> apc_iterator_t \<times> apc_env \<times> world) option" where
  "APCUIterator_key iterator ev w = do {
     (r, rest) \<leftarrow> iterator_item ''key'' iterator ev w;
     Some (map_result itm_key r, rest)
   }"

definition APCUIterator_next :: "apc_iterator_t \<Rightarrow> unit php_result \<times> apc_iterator_t" where
  "APCUIterator_next iterator =
     (if \<not> ai_initialized iterator then (Exception ENSURE_INITIALIZED, iterator)
      else if apc_stack_size (ai_stack iterator) = 0 then (Return (), iterator)
      else (Return (), iterator\<lparr>ai_stack_idx := ai_stack_idx iterator + 1, ai_key_idx := ai_key_idx iterator + 1\<rparr>))"

definition iterator_total ::
  "(apc_iterator_t \<Rightarrow> 64 word) \<Rightarrow> apc_iterator_t \<Rightarrow> apc_env \<Rightarrow> world \<Rightarrow> (i64 php_result \<times> apc_iterator_t \<times> world) option" where
  "iterator_total field iterator ev w =
     (if \<not> ai_initialized iterator then Some (Exception ENSURE_INITIALIZED, iterator, w)
      else do {
        (it1, w1) \<leftarrow> (if \<not> ai_totals_flag iterator then apc_iterator_totals iterator ev w else Some (iterator, w));
        Some (Return (field it1), it1, w1)
      })"

definition APCUIterator_getTotalHits ::
  "apc_iterator_t \<Rightarrow> apc_env \<Rightarrow> world \<Rightarrow> (i64 php_result \<times> apc_iterator_t \<times> world) option" where
  "APCUIterator_getTotalHits = iterator_total ai_hits"

definition APCUIterator_getTotalSize ::
  "apc_iterator_t \<Rightarrow> apc_env \<Rightarrow> world \<Rightarrow> (i64 php_result \<times> apc_iterator_t \<times> world) option" where
  "APCUIterator_getTotalSize = iterator_total ai_size"

definition APCUIterator_getTotalCount ::
  "apc_iterator_t \<Rightarrow> apc_env \<Rightarrow> world \<Rightarrow> (i64 php_result \<times> apc_iterator_t \<times> world) option" where
  "APCUIterator_getTotalCount = iterator_total ai_count"

text \<open>\<open>apc_iterator_free\<close>: the items are dropped with the stack.\<close>

definition apc_iterator_free :: "apc_iterator_t \<Rightarrow> apc_iterator_t option" where
  "apc_iterator_free iterator =
     (if \<not> ai_initialized iterator then Some iterator
      else do {
        st \<leftarrow> stack_drain (st_size (ai_stack iterator)) (ai_stack iterator);
        Some (iterator\<lparr>ai_stack := apc_stack_destroy st, ai_initialized := False\<rparr>)
      })"

section \<open>Deleting what an iterator yields\<close>

function delete_items :: "apc_iterator_t \<Rightarrow> apc_env \<Rightarrow> world \<Rightarrow> (apc_iterator_t \<times> world) option" where
  "delete_items iterator ev w =
     (if ai_stack_idx iterator < apc_stack_size (ai_stack iterator)
      then (case stack_at iterator of
              None \<Rightarrow> None
            | Some item \<Rightarrow>
                (case apc_cache_delete ev (itm_key item) w of
                   None \<Rightarrow> None
                 | Some (_, w1) \<Rightarrow> delete_items (iterator\<lparr>ai_stack_idx := ai_stack_idx iterator + 1\<rparr>) ev w1))
      else Some (iterator, w))"
  by pat_completeness auto
termination
  by (relation "measure (\<lambda>(it, _, _). nat (apc_stack_size (ai_stack it) - ai_stack_idx it))") auto

declare delete_items.simps [simp del]

text \<open>\<open>while (iterator->fetch(iterator))\<close>: that it ends is proved, not assumed.\<close>

partial_function (option) delete_fetched :: "apc_iterator_t \<Rightarrow> apc_env \<Rightarrow> world \<Rightarrow> (apc_iterator_t \<times> apc_env \<times> world) option" where
  "delete_fetched iterator ev w = do {
     (n, it1, ev1, w1) \<leftarrow> iterator_fetch iterator ev w;
     if n = 0 then Some (it1, ev1, w1)
     else do {
       (it2, w2) \<leftarrow> delete_items it1 ev1 w1;
       delete_fetched it2 ev1 w2
     }
   }"

text \<open>The argument is \<open>None\<close> when the object is of another class.\<close>

definition apc_iterator_delete ::
  "apc_iterator_t option \<Rightarrow> apc_env \<Rightarrow> world \<Rightarrow> (bool php_result \<times> apc_iterator_t option \<times> apc_env \<times> world) option" where
  "apc_iterator_delete zobj ev w =
     (case zobj of
        None \<Rightarrow> Some (FatalError ''apc_delete object argument must be instance of APCUIterator.'', None, ev, w)
      | Some iterator \<Rightarrow>
          if \<not> ai_initialized iterator then Some (Exception ENSURE_INITIALIZED, Some iterator, ev, w)
          else do {
            (it1, ev1, w1) \<leftarrow> delete_fetched iterator ev w;
            Some (Return True, Some it1, ev1, w1)
          })"

end
