(* ===== verification/Apc_Signal.thy ===== *)
theory Apc_Signal imports Apc_Cache_Admin begin

text \<open>
  \<open>apc_signal.c\<close>: with \<open>apc.coredump_unmap\<close> the shared memory is unmapped before the process dumps
  core. A handler that was installed before is remembered and called from the new one.

  \<open>apc_clear_cache\<close> is compiled only when \<open>APC_CLEAR_SIGNAL\<close> is configured, which the repository's
  build does not do; the flag \<open>clear_signal\<close> stands for it.
\<close>

section \<open>State\<close>

text \<open>\<open>Handler n\<close> is a function of the server or of PHP.\<close>

datatype sig_handler = SIG_ERR | SIG_DFL | SIG_IGN | Handler nat | ApcCoreUnmap | ApcClearCache

record sigaction_t =
  sa_handler :: sig_handler
  sa_flags :: "32 word"
  sa_mask :: "nat set"

definition SA_SIGINFO :: "32 word" where "SA_SIGINFO = 4"

definition SA_ONESHOT :: "32 word" where "SA_ONESHOT = 0x80000000"

record apc_signal_entry_t =
  sg_signo :: nat
  sg_siginfo :: bool
  sg_handler :: sig_handler

text \<open>
  \<open>ss_prev\<close> is the array \<open>prev\<close>, whose length is \<open>installed\<close>; a cell is \<open>None\<close> once it has been
  freed. \<open>ss_actions\<close> are the process's dispositions; \<open>sigaction\<close> fails for a signal without one.
\<close>

record signal_state =
  ss_prev :: "apc_signal_entry_t list"
  ss_actions :: "nat \<Rightarrow> sigaction_t option"
  ss_warnings :: "string list"

definition ss_installed :: "signal_state \<Rightarrow> nat" where
  "ss_installed st = length (ss_prev st)"

section \<open>Registering\<close>

text \<open>\<open>set_ok\<close>: what the second \<open>sigaction\<close> answers. \<open>None\<close> is \<open>FAILURE\<close>.\<close>

definition apc_register_signal :: "bool \<Rightarrow> nat \<Rightarrow> sig_handler \<Rightarrow> signal_state \<Rightarrow> bool \<times> signal_state" where
  "apc_register_signal set_ok signo handler st =
     (case ss_actions st signo of
        None \<Rightarrow> (False, st)
      | Some sa \<Rightarrow>
          if sa_handler sa = handler then (True, st)
          else (let (sa1, st1) =
                  (if sa_handler sa \<noteq> SIG_ERR \<and> sa_handler sa \<noteq> SIG_DFL \<and> sa_handler sa \<noteq> SIG_IGN
                   then (sa, st\<lparr>ss_prev := ss_prev st @
                      [\<lparr>sg_signo = signo, sg_siginfo = (and (sa_flags sa) SA_SIGINFO = SA_SIGINFO),
                        sg_handler = sa_handler sa\<rparr>]\<rparr>)
                   else (let sa0 = sa\<lparr>sa_mask := {}, sa_flags := 0\<rparr>;
                             sai = sa0\<lparr>sa_flags := or (sa_flags sa0) SA_SIGINFO\<rparr>
                         in (sai\<lparr>sa_flags := SA_ONESHOT\<rparr>, st)));
                    sa2 = sa1\<lparr>sa_handler := handler\<rparr>
                in (True, if set_ok then st1\<lparr>ss_actions := (ss_actions st1)(signo \<mapsto> sa2)\<rparr>
                          else st1\<lparr>ss_warnings := ss_warnings st1 @ [''Error installing apc signal handler'']\<rparr>)))"

text \<open>
  The signals of \<open>apc_set_signals\<close> that exist on Linux, by number: \<open>SEGV ABRT FPE ILL BUS IOT QUIT
  SYS TRAP XCPU XFSZ\<close>; \<open>SIGIOT\<close> is \<open>SIGABRT\<close>. \<open>SIGABORT\<close> and \<open>SIGEMT\<close> do not exist.
\<close>

definition SIGUSR1 :: nat where "SIGUSR1 = 10"

definition core_signals :: "nat list" where
  "core_signals = [11, 6, 8, 4, 7, 6, 3, 31, 5, 24, 25]"

definition apc_set_signals :: "bool \<Rightarrow> (nat \<Rightarrow> bool) \<Rightarrow> bool \<Rightarrow> signal_state \<Rightarrow> signal_state" where
  "apc_set_signals clear_signal set_ok coredump_unmap st =
     (if ss_installed st = 0
      then (let st1 = (if clear_signal then snd (apc_register_signal (set_ok SIGUSR1) SIGUSR1 ApcClearCache st) else st)
            in if coredump_unmap
               then fold (\<lambda>signo s. snd (apc_register_signal (set_ok signo) signo ApcCoreUnmap s)) core_signals st1
               else st1)
      else st)"

section \<open>Handling\<close>

text \<open>What a handler does to the outside: it calls another handler, and it sends the signal again.\<close>

datatype sig_event = CallSiginfo sig_handler nat | CallPlain sig_handler nat | Kill nat

text \<open>
  The loop over the remembered handlers; \<open>cur\<close> is \<open>p_sig.signo\<close>, which starts as 0 and stops the
  loop when it is the signal.
\<close>

primrec rehandle_loop :: "nat \<Rightarrow> nat \<Rightarrow> apc_signal_entry_t list \<Rightarrow> sig_event list" where
  "rehandle_loop signo cur [] = []"
| "rehandle_loop signo cur (p # ps) =
     (if cur \<noteq> signo
      then (if sg_signo p = signo
            then (if sg_siginfo p then [CallSiginfo (sg_handler p) signo] else [CallPlain (sg_handler p) signo])
            else []) @ rehandle_loop signo (sg_signo p) ps
      else [])"

definition apc_rehandle_signal :: "nat \<Rightarrow> signal_state \<Rightarrow> sig_event list" where
  "apc_rehandle_signal signo st = rehandle_loop signo 0 (ss_prev st)"

definition apc_core_unmap ::
  "(nat \<Rightarrow> int) \<Rightarrow> nat \<Rightarrow> signal_state \<Rightarrow> world \<Rightarrow> os_state \<Rightarrow> (sig_event list \<times> world \<times> os_state) option" where
  "apc_core_unmap munmap_result signo st w os = do {
     (w1, os1) \<leftarrow> (if \<not> cs_null (snd w)
       then do { (sma, os1) \<leftarrow> apc_sma_detach munmap_result (fst w) os; Some ((sma, snd w), os1) }
       else Some (w, os));
     Some (apc_rehandle_signal signo st @ [Kill signo], w1, os1)
   }"

definition apc_clear_cache :: "apc_env \<Rightarrow> nat \<Rightarrow> signal_state \<Rightarrow> world \<Rightarrow> (sig_event list \<times> world) option" where
  "apc_clear_cache ev signo st w = do {
     w1 \<leftarrow> (if \<not> cs_null (snd w) then apc_cache_clear ev w else Some w);
     Some (apc_rehandle_signal signo st @ [Kill signo], w1)
   }"

text \<open>The array's memory is freed and \<open>installed\<close> set to 0; the dispositions stay as they are.\<close>

definition apc_shutdown_signals :: "signal_state \<Rightarrow> signal_state" where
  "apc_shutdown_signals st = (if ss_installed st > 0 then st\<lparr>ss_prev := []\<rparr> else st)"

section \<open>Facts\<close>

lemma rehandle_loop_find:
  "cur \<noteq> signo \<Longrightarrow> rehandle_loop signo cur ps =
     (case List.find (\<lambda>p. sg_signo p = signo) ps of
        None \<Rightarrow> []
      | Some p \<Rightarrow> [if sg_siginfo p then CallSiginfo (sg_handler p) signo else CallPlain (sg_handler p) signo])"
proof (induction ps arbitrary: cur)
  case (Cons p ps)
  then show ?case by (cases "sg_signo p = signo"; cases ps) auto
qed simp

text \<open>
  What holds of a state between requests: remembered are the handlers of distinct signals, and
  each signal that has a remembered handler now has the extension's.
\<close>

definition signals_ok :: "sig_handler \<Rightarrow> signal_state \<Rightarrow> bool" where
  "signals_ok handler st \<longleftrightarrow> distinct (map sg_signo (ss_prev st)) \<and>
     (\<forall>p \<in> set (ss_prev st). \<exists>sa. ss_actions st (sg_signo p) = Some sa \<and> sa_handler sa = handler)"

lemma register_ok:
  assumes "signals_ok handler st"
  shows "signals_ok handler (snd (apc_register_signal True signo handler st))"
  using assms
  by (auto simp: signals_ok_def apc_register_signal_def Let_def split: option.splits)

lemma register_installs:
  assumes "ss_actions st signo = Some sa"
  shows "\<exists>sa'. ss_actions (snd (apc_register_signal True signo handler st)) signo = Some sa' \<and> sa_handler sa' = handler"
  using assms by (auto simp: apc_register_signal_def Let_def)

text \<open>The handlers that are remembered for one signal.\<close>

definition remembers :: "nat \<Rightarrow> sig_handler \<Rightarrow> signal_state \<Rightarrow> apc_signal_entry_t list" where
  "remembers signo handler st =
     (case ss_actions st signo of
        None \<Rightarrow> []
      | Some sa \<Rightarrow>
          if sa_handler sa \<in> {handler, SIG_ERR, SIG_DFL, SIG_IGN} then []
          else [\<lparr>sg_signo = signo, sg_siginfo = (and (sa_flags sa) SA_SIGINFO = SA_SIGINFO), sg_handler = sa_handler sa\<rparr>])"

abbreviation prev_of :: "nat \<Rightarrow> signal_state \<Rightarrow> apc_signal_entry_t list" where
  "prev_of signo st \<equiv> filter (\<lambda>p. sg_signo p = signo) (ss_prev st)"

lemma register_prev:
  "prev_of s (snd (apc_register_signal True signo handler st)) =
     prev_of s st @ (if s = signo then remembers signo handler st else [])"
  by (auto simp: apc_register_signal_def remembers_def Let_def split: option.splits)

lemma register_other:
  "s \<noteq> signo \<Longrightarrow> ss_actions (snd (apc_register_signal True signo handler st)) s = ss_actions st s"
  by (auto simp: apc_register_signal_def Let_def split: option.splits)

lemma remembers_after: "remembers signo handler (snd (apc_register_signal True signo handler st)) = []"
  by (auto simp: apc_register_signal_def remembers_def Let_def split: option.splits)

lemma remembers_other:
  "s \<noteq> signo \<Longrightarrow> remembers s handler (snd (apc_register_signal True signo handler st)) = remembers s handler st"
  by (simp add: remembers_def register_other)

lemma register_keeps:
  assumes "ss_actions st s = Some sa" "sa_handler sa = handler"
  shows "\<exists>sa'. ss_actions (snd (apc_register_signal True signo handler st)) s = Some sa' \<and> sa_handler sa' = handler"
  using assms register_other [of s signo handler st] register_installs [of st signo sa handler] by (cases "s = signo") auto

abbreviation register_all :: "sig_handler \<Rightarrow> nat list \<Rightarrow> signal_state \<Rightarrow> signal_state" where
  "register_all handler L st \<equiv> fold (\<lambda>signo s. snd (apc_register_signal True signo handler s)) L st"

lemma register_all_prev:
  "prev_of s (register_all handler L st) = prev_of s st @ (if s \<in> set L then remembers s handler st else [])"
proof (induction L arbitrary: st)
  case (Cons a L)
  let ?st1 = "snd (apc_register_signal True a handler st)"
  have "prev_of s (register_all handler (a # L) st) = prev_of s ?st1 @ (if s \<in> set L then remembers s handler ?st1 else [])"
    using Cons.IH [of ?st1] by simp
  then show ?case
    using register_prev [of s a handler st] remembers_after [of a handler st] remembers_other [of s a handler st] by auto
qed simp

lemma register_all_keeps:
  assumes "ss_actions st s = Some sa" "sa_handler sa = handler"
  shows "\<exists>sa'. ss_actions (register_all handler L st) s = Some sa' \<and> sa_handler sa' = handler"
  using assms
proof (induction L arbitrary: st sa)
  case (Cons a L)
  from register_keeps [OF Cons.prems, of a] obtain sa1
    where sa1: "ss_actions (snd (apc_register_signal True a handler st)) s = Some sa1" "sa_handler sa1 = handler" by blast
  from Cons.IH [OF sa1] show ?case by simp
qed simp

lemma register_all_installs:
  assumes "s \<in> set L" "ss_actions st s = Some sa"
  shows "\<exists>sa'. ss_actions (register_all handler L st) s = Some sa' \<and> sa_handler sa' = handler"
  using assms
proof (induction L arbitrary: st sa)
  case (Cons a L)
  let ?st1 = "snd (apc_register_signal True a handler st)"
  show ?case
  proof (cases "s = a")
    case True
    obtain sa1 where sa1: "ss_actions ?st1 s = Some sa1" "sa_handler sa1 = handler"
      using register_installs [of st a sa handler] Cons.prems(2) True by blast
    from register_all_keeps [OF sa1] show ?thesis by simp
  next
    case False
    then have "ss_actions ?st1 s = Some sa" using register_other [of s a handler st] Cons.prems(2) by simp
    from Cons.IH [OF _ this] False Cons.prems(1) show ?thesis by simp
  qed
qed simp

lemma find_filter: "List.find P xs = (case filter P xs of [] \<Rightarrow> None | x # _ \<Rightarrow> Some x)"
  by (induction xs) auto

lemma rehandle_prev:
  assumes "0 < signo"
  shows "apc_rehandle_signal signo st =
    (case prev_of signo st of
       [] \<Rightarrow> []
     | p # _ \<Rightarrow> [if sg_siginfo p then CallSiginfo (sg_handler p) signo else CallPlain (sg_handler p) signo])"
  using assms rehandle_loop_find [of 0 signo "ss_prev st"]
  by (simp add: apc_rehandle_signal_def find_filter split: list.split)

lemma set_signals_register:
  "ss_prev st = [] \<Longrightarrow> apc_set_signals False (\<lambda>_. True) True st = register_all ApcCoreUnmap core_signals st"
  by (simp add: apc_set_signals_def ss_installed_def)

end
