(* ===== verification/Apc_Php.thy ===== *)
theory Apc_Php imports Apc_Iterator Apc_Signal begin

text \<open>
  \<open>php_apc.c\<close>: the module's globals, its startup and shutdown, and the functions a PHP program
  calls. A function takes its parsed arguments and works on the state of a request; it returns
  a value, an exception or a fatal error. PHP's own helpers (\<open>convert_to_string\<close>, the test for
  numeric strings, the two INI parsers) are parameters.
\<close>

section \<open>State\<close>

text \<open>The fields of \<open>zend_apcu_globals\<close> that \<open>apc_globals\<close> does not hold.\<close>

record zend_apcu_globals =
  ag_enabled :: bool
  ag_shm_segments :: i64
  ag_shm_size :: i64
  ag_entries_hint :: i64
  ag_gc_ttl :: i64
  ag_ttl :: i64
  ag_smart :: i64
  ag_mmap_file_mask :: "string option"
  ag_initialized :: bool
  ag_enable_cli :: bool
  ag_slam_defense :: bool
  ag_preload_path :: "string option"
  ag_coredump_unmap :: bool
  ag_serializer_name :: "string option"

record php_state =
  ps_g :: zend_apcu_globals
  ps_registry :: registry
  ps_ev :: apc_env
  ps_w :: world
  ps_iterators :: "nat \<Rightarrow> apc_iterator_t option"
  ps_signals :: signal_state
  ps_warnings :: "string list"

record zend_api =
  za_to_string :: "heap \<Rightarrow> zval \<Rightarrow> (zval \<times> heap) option"
  za_numeric_str :: "string \<Rightarrow> u64 option"
  za_stale :: i64

definition warn :: "string \<Rightarrow> php_state \<Rightarrow> php_state" where
  "warn m ps = ps\<lparr>ps_warnings := ps_warnings ps @ [m]\<rparr>"

definition set_w :: "world \<Rightarrow> php_state \<Rightarrow> php_state" where
  "set_w w ps = ps\<lparr>ps_w := w\<rparr>"

definition set_rq :: "heap \<Rightarrow> php_state \<Rightarrow> php_state" where
  "set_rq rq ps = ps\<lparr>ps_ev := (ps_ev ps)\<lparr>ev_rq := rq\<rparr>\<rparr>"

text \<open>\<open>apc_time()\<close> on the state.\<close>

definition php_time :: "php_state \<Rightarrow> i64 \<times> php_state" where
  "php_time ps = (let (t, g) = apc_time (ps_ev ps) (glb (ps_w ps)) in (t, set_w (upd_g g (ps_w ps)) ps))"

section \<open>Configuration\<close>

definition php_apc_init_globals :: "zend_apcu_globals \<times> apc_globals \<Rightarrow> zend_apcu_globals \<times> apc_globals" where
  "php_apc_init_globals = (\<lambda>(ag, g).
     (ag\<lparr>ag_initialized := False, ag_slam_defense := False, ag_smart := 0, ag_preload_path := None,
         ag_coredump_unmap := False, ag_serializer_name := None\<rparr>,
      g\<lparr>g_use_request_time := False, g_entry_level := 0\<rparr>))"

text \<open>\<open>n\<close> is what \<open>ZEND_STRTOL\<close> reads in the new value, \<open>s\<close> what \<open>zend_atol\<close> does. \<open>None\<close> is \<open>FAILURE\<close>.\<close>

definition OnUpdateShmSegments :: "i64 \<Rightarrow> zend_apcu_globals \<Rightarrow> zend_apcu_globals \<times> string list" where
  "OnUpdateShmSegments n ag =
     (ag\<lparr>ag_shm_segments := 1\<rparr>, if n \<noteq> 1 then [''apc.shm_segments setting ignored in MMAP mode''] else [])"

definition OnUpdateShmSize :: "i64 \<Rightarrow> zend_apcu_globals \<Rightarrow> (zend_apcu_globals \<times> string list) option" where
  "OnUpdateShmSize s ag =
     (if sint s \<le> 0 then None
      else if i64_less s 1048576
      then Some (ag\<lparr>ag_shm_size := s * 1048576\<rparr>,
                 [''apc.shm_size now uses M/G suffixes, please update your ini files''])
      else Some (ag\<lparr>ag_shm_size := s\<rparr>, []))"

text \<open>
  The table of INI entries: what registering them leaves when nothing is configured. PHP calls the
  handler of each entry with its default, in the order of the table; 33554432 is what \<open>zend_atol\<close>
  reads in \<open>32M\<close>. The second component collects the warnings of the handlers.
\<close>

definition PHP_INI_defaults ::
  "zend_apcu_globals \<times> apc_globals \<Rightarrow> ((zend_apcu_globals \<times> apc_globals) \<times> string list) option" where
  "PHP_INI_defaults = (\<lambda>(ag, g).
     let (ag1, w1) = OnUpdateShmSegments 1 (ag\<lparr>ag_enabled := True\<rparr>)
     in case OnUpdateShmSize 33554432 ag1 of
          None \<Rightarrow> None
        | Some (ag2, w2) \<Rightarrow> Some
            ((ag2\<lparr>ag_entries_hint := 4096, ag_gc_ttl := 3600, ag_ttl := 0, ag_smart := 0, ag_mmap_file_mask := None,
                ag_enable_cli := False, ag_slam_defense := False, ag_preload_path := None, ag_coredump_unmap := False,
                ag_serializer_name := Some ''php''\<rparr>,
              g\<lparr>g_use_request_time := False\<rparr>), w1 @ w2))"

definition apc_is_enabled :: "php_state \<Rightarrow> bool" where
  "apc_is_enabled ps = ag_enabled (ps_g ps)"

section \<open>Startup and shutdown\<close>

text \<open>The serializer the module registers itself.\<close>

definition php_serializer :: "apc_env \<Rightarrow> apc_serializer_t" where
  "php_serializer ev = \<lparr>ser_name = ''php'', ser_serialize = php_apc_serializer (ev_php_var_serialize ev),
     ser_unserialize = php_apc_unserializer (ev_php_var_unserialize ev)\<rparr>"

text \<open>What the platform answers during startup.\<close>

record minit_sys =
  my_mm :: "nat \<Rightarrow> mm_sys"
  my_mutex_init :: "nat \<Rightarrow> int"
  my_rwlock_init :: int
  my_lock_attr :: "int \<times> int"
  my_mutex_attr :: "int \<times> int"
  my_sapi_name :: string
  my_fs :: preload_fs

record process_state =
  pr_lock_ready :: bool
  pr_mutex_ready :: bool
  pr_os :: os_state

text \<open>
  Set the allocator up, register PHP's serializer, create the cache and preload. \<open>Inl\<close> is a core
  error, which ends the process. Looking for a serializer whose name is \<open>NULL\<close> is undefined.
\<close>

definition minit_cache :: "minit_sys \<Rightarrow> php_state \<Rightarrow> os_state \<Rightarrow> ((string + php_state) \<times> os_state) option" where
  "minit_cache sys ps os = do {
     let ag = ps_g ps;
     (r, os1) \<leftarrow> apc_sma_init (my_mm sys) (my_mutex_init sys) (fst (ps_w ps)) (sint (ag_shm_segments ag))
        (unat (ag_shm_size ag)) (ag_mmap_file_mask ag) os;
     (case r of
        Inl e \<Rightarrow> Some (Inl e, os1)
      | Inr (sma, _) \<Rightarrow> do {
          let reg = snd (apc_register_serializer (php_serializer (ps_ev ps)) (ps_registry ps));
          assert_c (reg ! 0 \<noteq> None);
          name \<leftarrow> ag_serializer_name ag;
          (c, w2) \<leftarrow> apc_cache_create (ps_ev ps) (my_rwlock_init sys) (apc_find_serializer name reg)
             (ag_entries_hint ag) (ag_gc_ttl ag) (ag_ttl ag) (ag_smart ag) (ag_slam_defense ag) (sma, snd (ps_w ps));
          (case c of
             Inl e \<Rightarrow> Some (Inl e, os1)
           | Inr cache \<Rightarrow> do {
               let w3 = use_cache cache w2;
               w4 \<leftarrow> (case ag_preload_path ag of
                        None \<Rightarrow> Some w3
                      | Some path \<Rightarrow> do { (_, w4) \<leftarrow> apc_cache_preload (my_fs sys) (ps_ev ps) path w3; Some w4 });
               Some (Inr (ps\<lparr>ps_w := w4, ps_registry := reg\<rparr>), os1)
             })
        })
   }"

text \<open>
  \<open>PHP_MINIT_FUNCTION\<close> after the globals are set and the INI entries are registered, which is
  \<open>php_apc_init_globals\<close> followed by PHP's calls of the \<open>OnUpdate\<close> handlers.
\<close>

definition PHP_MINIT ::
  "minit_sys \<Rightarrow> php_state \<Rightarrow> process_state \<Rightarrow> ((string + php_state) \<times> process_state) option" where
  "PHP_MINIT sys ps pr =
     (let pr1 = pr\<lparr>pr_lock_ready := snd (apc_lock_init (fst (my_lock_attr sys)) (snd (my_lock_attr sys)) (pr_lock_ready pr)),
                   pr_mutex_ready := snd (apc_mutex_init (fst (my_mutex_attr sys)) (snd (my_mutex_attr sys)) (pr_mutex_ready pr))\<rparr>;
          ag = ps_g ps;
          ag1 = (if \<not> ag_enable_cli ag \<and> my_sapi_name sys = ''cli'' then ag\<lparr>ag_enabled := False\<rparr> else ag)
      in if ag_enabled ag1 \<and> \<not> ag_initialized ag1
         then do {
           (r, os1) \<leftarrow> minit_cache sys (ps\<lparr>ps_g := ag1\<lparr>ag_initialized := True\<rparr>\<rparr>) (pr_os pr1);
           Some (r, pr1\<lparr>pr_os := os1\<rparr>)
         }
         else Some (Inr (ps\<lparr>ps_g := ag1\<rparr>), pr1))"

definition PHP_MSHUTDOWN :: "(nat \<Rightarrow> int) \<Rightarrow> php_state \<Rightarrow> process_state \<Rightarrow> (php_state \<times> process_state) option" where
  "PHP_MSHUTDOWN munmap_result ps pr =
     (let pr1 = pr\<lparr>pr_lock_ready := apc_lock_cleanup (pr_lock_ready pr),
                   pr_mutex_ready := apc_mutex_cleanup (pr_mutex_ready pr)\<rparr>
      in if ag_enabled (ps_g ps)
         then do {
           (ps1, os1) \<leftarrow> (if ag_initialized (ps_g ps)
             then do {
               let sma = apc_cache_detach (ps_w ps);
               (sma1, os1) \<leftarrow> apc_sma_detach munmap_result sma (pr_os pr1);
               Some (ps\<lparr>ps_w := (sma1, snd (ps_w ps)), ps_g := (ps_g ps)\<lparr>ag_initialized := False\<rparr>\<rparr>, os1)
             }
             else Some (ps, pr_os pr1));
           Some (ps1\<lparr>ps_signals := apc_shutdown_signals (ps_signals ps1)\<rparr>, pr1\<lparr>pr_os := os1\<rparr>)
         }
         else Some (ps, pr1))"

text \<open>\<open>if (APCG(serializer_name)) apc_cache_serializer(...)\<close>, at the start of several functions.\<close>

definition pick_serializer :: "php_state \<Rightarrow> php_state" where
  "pick_serializer ps =
     (case ag_serializer_name (ps_g ps) of
        None \<Rightarrow> ps
      | Some name \<Rightarrow> set_w (apc_cache_serializer (ps_registry ps) name (ps_w ps)) ps)"

definition PHP_RINIT :: "(nat \<Rightarrow> bool) \<Rightarrow> php_state \<Rightarrow> php_state" where
  "PHP_RINIT set_ok ps =
     (let ps1 = set_w (upd_g ((glb (ps_w ps))\<lparr>g_request_time := 0\<rparr>) (ps_w ps)) ps
      in if ag_enabled (ps_g ps1)
         then (let ps2 = pick_serializer ps1
               in ps2\<lparr>ps_signals := apc_set_signals False set_ok (ag_coredump_unmap (ps_g ps2)) (ps_signals ps2)\<rparr>)
         else ps1)"

text \<open>The row of the information page about serializers.\<close>

primrec join_names :: "string list \<Rightarrow> string" where
  "join_names [] = []"
| "join_names (n # ns) = n @ (if ns = [] then [] else '', '' @ join_names ns)"

definition PHP_MINFO :: "php_state \<Rightarrow> string option" where
  "PHP_MINFO ps =
     (if ag_enabled (ps_g ps)
      then do {
        names \<leftarrow> serializer_names (ps_registry ps);
        Some (if names \<noteq> [] then join_names names else ''Broken'')
      }
      else Some ''Disabled'')"

section \<open>Information functions\<close>

type_synonym php_call = "(info_val php_result \<times> php_state) option"

definition return_bool :: "bool \<Rightarrow> info_val php_result" where
  "return_bool b = Return (if b then ITrue else IFalse)"

definition apcu_enabled :: "php_state \<Rightarrow> php_call" where
  "apcu_enabled ps = Some (return_bool (ag_enabled (ps_g ps)), ps)"

definition apcu_clear_cache :: "php_state \<Rightarrow> php_call" where
  "apcu_clear_cache ps = do {
     w1 \<leftarrow> apc_cache_clear (ps_ev ps) (ps_w ps);
     Some (Return ITrue, set_w w1 ps)
   }"

definition apcu_cache_info :: "bool \<Rightarrow> php_state \<Rightarrow> php_call" where
  "apcu_cache_info limited ps = do {
     (ok, info, w1) \<leftarrow> apc_cache_info limited (ps_w ps);
     Some (if ok then (Return info, set_w w1 ps)
           else (Return IFalse, warn ''No APC info available.  Perhaps APC is not enabled?'' (set_w w1 ps)))
   }"

definition apcu_key_info :: "zend_string \<Rightarrow> php_state \<Rightarrow> php_call" where
  "apcu_key_info key ps = do {
     (stat, w1) \<leftarrow> apc_cache_stat key (ps_w ps);
     Some (Return stat, set_w w1 ps)
   }"

definition sma_link_info :: "nat \<times> nat \<Rightarrow> info_val" where
  "sma_link_info = (\<lambda>(sz, offset).
     IArr (add_assoc ''offset'' (ILong (of_nat offset)) (add_assoc ''size'' (ILong (of_nat sz)) [])))"

definition sma_list_info :: "(nat \<times> nat) list \<Rightarrow> info_val" where
  "sma_list_info ls = IArr (fold (\<lambda>p. add_next_index (sma_link_info p)) ls [])"

definition apcu_sma_info :: "bool \<Rightarrow> php_state \<Rightarrow> php_call" where
  "apcu_sma_info limited ps = do {
     (r, sma) \<leftarrow> apc_sma_info (fst (ps_w ps)) limited;
     let ps1 = set_w (sma, snd (ps_w ps)) ps;
     (case r of
        None \<Rightarrow> Some (Return IFalse, warn ''No APC SMA info available.  Perhaps APC is disabled via apc.enabled?'' ps1)
      | Some info \<Rightarrow>
          (let arr = add_assoc ''avail_mem'' (IDouble (of_nat (apc_sma_get_avail_mem sma)))
                     (add_assoc ''seg_size'' (IDouble (of_nat (info_seg_size info)))
                     (add_assoc ''num_seg'' (ILong (of_nat (num_seg info))) []))
           in if limited then Some (Return (IArr arr), ps1)
              else Some (Return (IArr (add_assoc ''block_lists''
                     (IArr (fold (\<lambda>i. add_next_index (sma_list_info (info_list info ! i))) [0..<num_seg info] [])) arr)), ps1)))
   }"

section \<open>Storing\<close>

text \<open>\<open>zend_long_to_str\<close>: the decimal digits of a signed integer.\<close>

fun decimal :: "nat \<Rightarrow> string" where
  "decimal n = (if n < 10 then [char_of (48 + n)] else decimal (n div 10) @ [char_of (48 + n mod 10)])"

declare decimal.simps [simp del]

definition zend_long_to_str :: "i64 \<Rightarrow> zend_string" where
  "zend_long_to_str n =
     mk_zstr (if sint n < 0 then CHR ''-'' # decimal (nat (- sint n)) else decimal (nat (sint n)))"

text \<open>The buckets of a table that a loop over its keys and values visits.\<close>

definition ht_used :: "hash_table \<Rightarrow> bucket list" where
  "ht_used ht = filter (\<lambda>p. bk_val p \<noteq> IS_UNDEF) (ht_data ht)"

definition bucket_key :: "heap \<Rightarrow> bucket \<Rightarrow> zend_string option" where
  "bucket_key rq p = (if bk_key p \<noteq> 0 then hp_str rq (bk_key p) else Some (zend_long_to_str (bk_h p)))"

text \<open>\<open>zend_symtable_add_new\<close>: a numeric string is an integer key.\<close>

definition symtable_key :: "zend_api \<Rightarrow> string \<Rightarrow> info_key" where
  "symtable_key api s = (case za_numeric_str api s of Some i \<Rightarrow> KIdx i | None \<Rightarrow> KStr s)"

primrec store_pairs ::
  "zend_api \<Rightarrow> i64 \<Rightarrow> bool \<Rightarrow> bucket list \<Rightarrow> info_arr \<Rightarrow> php_state \<Rightarrow> (info_arr \<times> php_state) option" where
  "store_pairs api ttl exclusive [] failed ps = Some (failed, ps)"
| "store_pairs api ttl exclusive (p # bs) failed ps = do {
     hentry \<leftarrow> ZVAL_DEREF (ev_rq (ps_ev ps)) (bk_val p);
     hkey \<leftarrow> bucket_key (ev_rq (ps_ev ps)) p;
     (ok, w1) \<leftarrow> apc_cache_store (ps_ev ps) hkey hentry (ucast ttl) exclusive (ps_w ps);
     store_pairs api ttl exclusive bs
       (if ok then failed else arr_add_new (symtable_key api (zs_val hkey)) (ILong (- 1)) failed) (set_w w1 ps)
   }"

definition apc_store_helper :: "zend_api \<Rightarrow> zval \<Rightarrow> zval option \<Rightarrow> i64 \<Rightarrow> bool \<Rightarrow> php_state \<Rightarrow> php_call" where
  "apc_store_helper api key val ttl exclusive ps0 = do {
     let ps = pick_serializer ps0;
     (case key of
        IS_ARRAY a \<Rightarrow> do {
          ht \<leftarrow> hp_arr (ev_rq (ps_ev ps)) a;
          (failed, ps1) \<leftarrow> store_pairs api ttl exclusive (ht_used ht) [] ps;
          Some (Return (IArr failed), ps1)
        }
      | IS_STRING a \<Rightarrow>
          (case val of
             None \<Rightarrow> Some (Return IFalse, ps)
           | Some v \<Rightarrow> do {
               k \<leftarrow> hp_str (ev_rq (ps_ev ps)) a;
               (ok, w1) \<leftarrow> apc_cache_store (ps_ev ps) k v (ucast ttl) exclusive (ps_w ps);
               Some (return_bool ok, set_w w1 ps)
             })
      | _ \<Rightarrow> Some (Return IFalse,
               warn ''apc_store expects key parameter to be a string or an array of key/value pairs.'' ps))
   }"

definition apcu_store :: "zend_api \<Rightarrow> zval \<Rightarrow> zval option \<Rightarrow> i64 \<Rightarrow> php_state \<Rightarrow> php_call" where
  "apcu_store api key val ttl ps = apc_store_helper api key val ttl False ps"

definition apcu_add :: "zend_api \<Rightarrow> zval \<Rightarrow> zval option \<Rightarrow> i64 \<Rightarrow> php_state \<Rightarrow> php_call" where
  "apcu_add api key val ttl ps = apc_store_helper api key val ttl True ps"

section \<open>Counting\<close>

text \<open>The updaters work on \<open>data\<close>: the step with the last result, and the pair of the old and new value.\<close>

record php_inc_updater_args =
  ia_step :: i64
  ia_rval :: i64

definition php_inc_updater :: "i64 \<Rightarrow> php_inc_updater_args \<Rightarrow> bool \<times> i64 \<times> php_inc_updater_args" where
  "php_inc_updater entry args = (True, entry + ia_step args, args\<lparr>ia_rval := entry + ia_step args\<rparr>)"

definition php_cas_updater :: "i64 \<Rightarrow> i64 \<times> i64 \<Rightarrow> bool \<times> i64 \<times> (i64 \<times> i64)" where
  "php_cas_updater entry vals =
     (if entry = fst vals then (True, snd vals, vals) else (False, entry, vals))"

definition php_apc_update ::
  "zend_string \<Rightarrow> (i64 \<Rightarrow> 'd \<Rightarrow> bool \<times> i64 \<times> 'd) \<Rightarrow> 'd \<Rightarrow> bool \<Rightarrow> i64 \<Rightarrow> php_state \<Rightarrow> (bool \<times> 'd \<times> php_state) option" where
  "php_apc_update key updater data insert_if_not_found ttl ps0 = do {
     let ps = pick_serializer ps0;
     (b, data1, w1) \<leftarrow> apc_cache_atomic_update_long (ps_ev ps) key updater data insert_if_not_found ttl (ps_w ps);
     Some (b, data1, set_w w1 ps)
   }"

text \<open>The value returned and what is assigned to \<open>$success\<close>; \<open>junk\<close> is the uninitialised \<open>rval\<close>.\<close>

definition apcu_inc_by :: "i64 \<Rightarrow> zend_string \<Rightarrow> i64 \<Rightarrow> i64 \<Rightarrow> php_state \<Rightarrow> (info_val php_result \<times> bool \<times> php_state) option" where
  "apcu_inc_by junk key step ttl ps = do {
     (b, args, ps1) \<leftarrow> php_apc_update key php_inc_updater \<lparr>ia_step = step, ia_rval = junk\<rparr> True ttl ps;
     Some (if b then (Return (ILong (ia_rval args)), True, ps1) else (Return IFalse, False, ps1))
   }"

definition apcu_inc :: "i64 \<Rightarrow> zend_string \<Rightarrow> i64 \<Rightarrow> i64 \<Rightarrow> php_state \<Rightarrow> (info_val php_result \<times> bool \<times> php_state) option" where
  "apcu_inc junk key step ttl ps = apcu_inc_by junk key step ttl ps"

definition apcu_dec :: "i64 \<Rightarrow> zend_string \<Rightarrow> i64 \<Rightarrow> i64 \<Rightarrow> php_state \<Rightarrow> (info_val php_result \<times> bool \<times> php_state) option" where
  "apcu_dec junk key step ttl ps = apcu_inc_by junk key (0 - step) ttl ps"

definition apcu_cas :: "zend_string \<Rightarrow> i64 \<Rightarrow> i64 \<Rightarrow> php_state \<Rightarrow> php_call" where
  "apcu_cas key old new ps0 = do {
     let ps = pick_serializer ps0;
     (b, _, w1) \<leftarrow> apc_cache_atomic_update_long (ps_ev ps) key php_cas_updater (old, new) False 0 (ps_w ps);
     Some (return_bool b, set_w w1 ps)
   }"

section \<open>Fetching\<close>

text \<open>\<open>if (Z_TYPE_P(key) != IS_STRING && Z_TYPE_P(key) != IS_ARRAY) convert_to_string(key)\<close>.\<close>

definition key_to_string :: "zend_api \<Rightarrow> zval \<Rightarrow> php_state \<Rightarrow> (zval \<times> php_state) option" where
  "key_to_string api key ps =
     (if Z_TYPE key \<noteq> 6 \<and> Z_TYPE key \<noteq> 7
      then do { (k, rq) \<leftarrow> za_to_string api (ev_rq (ps_ev ps)) key; Some (k, set_rq rq ps) }
      else Some (key, ps))"

text \<open>\<open>apc_cache_fetch\<close> on the state: the value is \<open>None\<close> when nothing was written.\<close>

definition php_fetch :: "zend_string \<Rightarrow> i64 \<Rightarrow> php_state \<Rightarrow> (bool \<times> zval option \<times> php_state) option" where
  "php_fetch key t ps = do {
     (ok, dst, w1) \<leftarrow> apc_cache_fetch (ps_ev ps) key t (ps_w ps);
     Some (case dst of
         None \<Rightarrow> (ok, None, set_w w1 ps)
       | Some (v, rq) \<Rightarrow> (ok, Some v, set_rq rq (set_w w1 ps)))
   }"

primrec fetch_values :: "i64 \<Rightarrow> zval list \<Rightarrow> info_arr \<Rightarrow> php_state \<Rightarrow> (info_arr \<times> php_state) option" where
  "fetch_values t [] arr ps = Some (arr, ps)"
| "fetch_values t (v # vs) arr ps = do {
     hentry \<leftarrow> ZVAL_DEREF (ev_rq (ps_ev ps)) v;
     (case hentry of
        IS_STRING a \<Rightarrow> do {
          k \<leftarrow> hp_str (ev_rq (ps_ev ps)) a;
          (ok, dst, ps1) \<leftarrow> php_fetch k t ps;
          fetch_values t vs
            (if ok then arr_update (KStr (zs_val k)) (IZval (case dst of None \<Rightarrow> IS_UNDEF | Some v \<Rightarrow> v)) arr else arr) ps1
        }
      | _ \<Rightarrow> fetch_values t vs arr (warn ''apc_fetch() expects a string or array of strings.'' ps))
   }"

text \<open>The value returned, what is assigned to \<open>$success\<close>, and the state.\<close>

definition apcu_fetch :: "zend_api \<Rightarrow> zval \<Rightarrow> php_state \<Rightarrow> (info_val php_result \<times> bool \<times> php_state) option" where
  "apcu_fetch api key0 ps0 = do {
     let (t, ps1) = php_time ps0;
     (key, ps) \<leftarrow> key_to_string api key0 ps1;
     (case key of
        IS_STRING a \<Rightarrow> do {
          k \<leftarrow> hp_str (ev_rq (ps_ev ps)) a;
          (ok, dst, ps2) \<leftarrow> php_fetch k t ps;
          Some (if ok then Return (case dst of None \<Rightarrow> INull | Some v \<Rightarrow> IZval v) else Return IFalse, ok, ps2)
        }
      | IS_ARRAY a \<Rightarrow> do {
          ht \<leftarrow> hp_arr (ev_rq (ps_ev ps)) a;
          (arr, ps2) \<leftarrow> fetch_values t (ht_values ht) [] ps;
          Some (Return (IArr arr), True, ps2)
        }
      | _ \<Rightarrow> Some (Return IFalse, False, warn ''apc_fetch() expects a string or array of strings.'' ps))
   }"

section \<open>Existence and deletion\<close>

primrec exists_values :: "i64 \<Rightarrow> zval list \<Rightarrow> info_arr \<Rightarrow> php_state \<Rightarrow> (info_arr \<times> php_state) option" where
  "exists_values t [] arr ps = Some (arr, ps)"
| "exists_values t (v # vs) arr ps = do {
     hentry \<leftarrow> ZVAL_DEREF (ev_rq (ps_ev ps)) v;
     (case hentry of
        IS_STRING a \<Rightarrow> do {
          k \<leftarrow> hp_str (ev_rq (ps_ev ps)) a;
          (ok, w1) \<leftarrow> apc_cache_exists k t (ps_w ps);
          exists_values t vs (if ok then arr_add_new (KStr (zs_val k)) ITrue arr else arr) (set_w w1 ps)
        }
      | _ \<Rightarrow> exists_values t vs arr (warn ''apc_exists() expects a string or array of strings.'' ps))
   }"

definition apcu_exists :: "zend_api \<Rightarrow> zval \<Rightarrow> php_state \<Rightarrow> php_call" where
  "apcu_exists api key0 ps0 = do {
     let (t, ps1) = php_time ps0;
     (key, ps) \<leftarrow> key_to_string api key0 ps1;
     (case key of
        IS_STRING a \<Rightarrow> do {
          k \<leftarrow> hp_str (ev_rq (ps_ev ps)) a;
          (ok, w1) \<leftarrow> apc_cache_exists k t (ps_w ps);
          Some (return_bool ok, set_w w1 ps)
        }
      | IS_ARRAY a \<Rightarrow> do {
          ht \<leftarrow> hp_arr (ev_rq (ps_ev ps)) a;
          (arr, ps2) \<leftarrow> exists_values t (ht_values ht) [] ps;
          Some (Return (IArr arr), ps2)
        }
      | _ \<Rightarrow> Some (Return IFalse, warn ''apc_exists() expects a string or array of strings.'' ps))
   }"

definition delete_warning :: string where
  "delete_warning = ''apc_delete() expects a string, array of strings, or APCIterator instance''"

primrec delete_values :: "zval list \<Rightarrow> info_arr \<Rightarrow> php_state \<Rightarrow> (info_arr \<times> php_state) option" where
  "delete_values [] arr ps = Some (arr, ps)"
| "delete_values (v # vs) arr ps = do {
     hentry \<leftarrow> ZVAL_DEREF (ev_rq (ps_ev ps)) v;
     (case hentry of
        IS_STRING a \<Rightarrow> do {
          k \<leftarrow> hp_str (ev_rq (ps_ev ps)) a;
          (ok, w1) \<leftarrow> apc_cache_delete (ps_ev ps) k (ps_w ps);
          delete_values vs (if ok then arr else add_next_index (IZval hentry) arr) (set_w w1 ps)
        }
      | _ \<Rightarrow> delete_values vs (add_next_index (IZval hentry) arr) (warn delete_warning ps))
   }"

definition apcu_delete :: "zval \<Rightarrow> php_state \<Rightarrow> php_call" where
  "apcu_delete keys ps =
     (case keys of
        IS_STRING a \<Rightarrow> do {
          k \<leftarrow> hp_str (ev_rq (ps_ev ps)) a;
          (ok, w1) \<leftarrow> apc_cache_delete (ps_ev ps) k (ps_w ps);
          Some (return_bool ok, set_w w1 ps)
        }
      | IS_ARRAY a \<Rightarrow> do {
          ht \<leftarrow> hp_arr (ev_rq (ps_ev ps)) a;
          (arr, ps2) \<leftarrow> delete_values (ht_values ht) [] ps;
          Some (Return (IArr arr), ps2)
        }
      | IS_OBJECT a \<Rightarrow> do {
          (r, it1, ev1, w1) \<leftarrow> apc_iterator_delete (ps_iterators ps a) (ps_ev ps) (ps_w ps);
          Some (map_result (\<lambda>b. if b then ITrue else IFalse) r,
                ps\<lparr>ps_ev := ev1, ps_w := w1, ps_iterators := (ps_iterators ps)(a := it1)\<rparr>)
        }
      | _ \<Rightarrow> Some (Return IFalse, warn delete_warning ps))"

section \<open>apcu_entry\<close>

text \<open>\<open>gen\<close> is the callable, on the world; a bailout of the generator goes through to the engine.\<close>

definition apcu_entry ::
  "(world \<Rightarrow> (call_outcome \<times> apc_env \<times> world) option) \<Rightarrow> zend_string \<Rightarrow> i64 \<Rightarrow> php_state \<Rightarrow> php_call" where
  "apcu_entry gen key ttl ps0 = do {
     let (now, ps) = php_time ps0;
     (r, w1) \<leftarrow> apc_cache_entry gen (ps_ev ps) key ttl now (ps_w ps);
     Some (case r of
         Bailed \<Rightarrow> (FatalError [], set_w w1 ps)
       | Finished v ev1 \<Rightarrow>
           (Return (case v of None \<Rightarrow> INull | Some zv \<Rightarrow> IZval zv), (set_w w1 ps)\<lparr>ps_ev := ev1\<rparr>))
   }"

section \<open>Debug builds\<close>

text \<open>With \<open>APC_DEBUG\<close> a test can move the time of the request on.\<close>

definition apcu_inc_request_time :: "i64 \<Rightarrow> php_state \<Rightarrow> php_call" where
  "apcu_inc_request_time by_secs ps =
     (if \<not> g_use_request_time (glb (ps_w ps))
      then Some (Return INull, warn ''Trying to increment request time while use_request_time is disabled'' ps)
      else
        (let ps1 = snd (php_time ps);
             g = glb (ps_w ps1)
         in Some (Return INull, set_w (upd_g (g\<lparr>g_request_time := g_request_time g + by_secs\<rparr>) (ps_w ps1)) ps1)))"

text \<open>
  The clock that all functions read then shows the request's time moved on by that much, unless
  it would show 0, which stands for a time not yet asked for.
\<close>

lemma inc_request_time_moves_clock:
  assumes "g_use_request_time (glb (ps_w ps))" "fst (php_time ps) + by_secs \<noteq> 0"
  shows "\<exists>ps'. apcu_inc_request_time by_secs ps = Some (Return INull, ps') \<and>
    fst (php_time ps') = fst (php_time ps) + by_secs \<and> cch (ps_w ps') = cch (ps_w ps) \<and> ps_warnings ps' = ps_warnings ps"
  using assms
  by (auto simp: apcu_inc_request_time_def php_time_def apc_time_def set_w_def Let_def split: if_splits prod.splits)

lemma inc_request_time_needs_request_time:
  assumes "\<not> g_use_request_time (glb (ps_w ps))"
  shows "apcu_inc_request_time by_secs ps = Some (Return INull,
    warn ''Trying to increment request time while use_request_time is disabled'' ps)"
  using assms by (simp add: apcu_inc_request_time_def)

text \<open>
  The defaults raise no warning and configure one segment of 32 megabytes; with them a command-line
  process starts with the extension disabled and touches neither memory nor cache.
\<close>

lemma defaults_are_accepted:
  "\<exists>ag' g'. PHP_INI_defaults (ag, g) = Some ((ag', g'), []) \<and> ag_enabled ag' \<and> ag_shm_segments ag' = 1 \<and>
     ag_shm_size ag' = 33554432 \<and> \<not> ag_enable_cli ag' \<and> ag_serializer_name ag' = Some ''php''"
  by (simp add: PHP_INI_defaults_def OnUpdateShmSegments_def OnUpdateShmSize_def i64_less_def)

lemma cli_starts_disabled:
  assumes "PHP_INI_defaults (php_apc_init_globals (ag, g)) = Some ((ag', g'), ws)" "ps_g ps = ag'" "my_sapi_name sys = ''cli''"
  shows "\<exists>ps' pr'. PHP_MINIT sys ps pr = Some (Inr ps', pr') \<and> \<not> apc_is_enabled ps' \<and> ps_w ps' = ps_w ps \<and>
    pr_os pr' = pr_os pr"
proof -
  have "\<not> ag_enable_cli ag'"
    using assms(1) by (auto simp: PHP_INI_defaults_def OnUpdateShmSegments_def case_prod_unfold split: option.splits)
  then show ?thesis using assms(2,3) by (simp add: PHP_MINIT_def apc_is_enabled_def Let_def)
qed

end
