(* ===== verification/Apc_Cache_Create.thy ===== *)
theory Apc_Cache_Create imports Apc_Php Apc_Sma_Claims begin

text \<open>
  Creating the cache establishes its invariant; and a concrete cache on the 4096-byte allocator.
\<close>

section \<open>apc_cache_create\<close>

lemma primes_bounds: "k \<in> set primes \<Longrightarrow> 257 \<le> k \<and> k \<le> 983063"
  by (auto simp: primes_def)

lemma cache_nslots_bounds: "257 \<le> cache_nslots hint" "cache_nslots hint \<le> 983063"
  using primes_bounds [OF make_prime_in] by (simp_all add: cache_nslots_def)

lemma entries_none [simp]: "c_slots c = replicate n [] \<Longrightarrow> entries c = []"
  by (simp add: entries_def)

lemma empty_table:
  assumes "c_slots c = replicate (c_nslots c) []" "0 < c_nslots c"
  shows "table_ok c" "addrs c = {}" "cmap c = (\<lambda>_. None)"
proof -
  show "table_ok c" "addrs c = {}" using assms by (auto simp: table_ok_def slot_ok_def addrs_def)
  show "cmap c = (\<lambda>_. None)"
    using assms slot_of_less [OF \<open>table_ok c\<close>] by (simp add: cmap_def fun_eq_iff)
qed

lemma use_cache_simps [simp]:
  "fst (use_cache c w) = fst w" "cch (use_cache c w) = c" "glb (use_cache c w) = glb w"
  "\<not> cs_null (snd (use_cache c w))" "cs_shm (snd (use_cache c w)) = cs_shm (snd w)"
  by (simp_all add: use_cache_def)

text \<open>The cache that a successful creation makes at the address \<open>p\<close>.\<close>

definition new_cache ::
  "apc_env \<Rightarrow> int \<Rightarrow> apc_serializer_t option \<Rightarrow> i64 \<Rightarrow> i64 \<Rightarrow> i64 \<Rightarrow> i64 \<Rightarrow> bool \<Rightarrow> nat \<Rightarrow> apc_cache_t" where
  "new_cache ev rwlock_init serializer size_hint gc_ttl ttl smart defend p =
     \<lparr>c_shmaddr = p, c_lock = snd (apc_lock_create rwlock_init),
        c_nhits = 0, c_nmisses = 0, c_ninserts = 0, c_nexpunges = 0, c_nentries = 0, c_mem_size = 0,
        c_stime = ev_time ev, c_state = 0, c_lastkey = no_slam_key, c_gc = [],
        c_slots = replicate (cache_nslots size_hint) [],
        c_serializer = serializer, c_nslots = cache_nslots size_hint, c_gc_ttl = gc_ttl, c_ttl = ttl, c_smart = smart,
        c_defend = defend\<rparr>"

lemma new_cache_simps [simp]:
  "c_shmaddr (new_cache ev r srz h gt tt sm df p) = p" "c_gc (new_cache ev r srz h gt tt sm df p) = []"
  "c_slots (new_cache ev r srz h gt tt sm df p) = replicate (cache_nslots h) []"
  "c_nslots (new_cache ev r srz h gt tt sm df p) = cache_nslots h" "c_nentries (new_cache ev r srz h gt tt sm df p) = 0"
  "c_lock (new_cache ev r srz h gt tt sm df p) = snd (apc_lock_create r)"
  "c_serializer (new_cache ev r srz h gt tt sm df p) = srz" "c_ttl (new_cache ev r srz h gt tt sm df p) = tt"
  "c_gc_ttl (new_cache ev r srz h gt tt sm df p) = gt" "c_defend (new_cache ev r srz h gt tt sm df p) = df"
  by (simp_all add: new_cache_def)

lemma new_cache_inv:
  assumes "sma_usable (fst w)" "fst ` sma_live (fst w) = {p}"
  shows "cache_inv {} (use_cache (new_cache ev r srz h gt tt sm df p) w)"
    "cmap (new_cache ev r srz h gt tt sm df p) = (\<lambda>_. None)"
proof -
  let ?c = "new_cache ev r srz h gt tt sm df p"
  have n: "0 < cache_nslots h" using cache_nslots_bounds(1) [of h] by simp
  have e: "c_slots ?c = replicate (c_nslots ?c) []" "0 < c_nslots ?c" using n by simp_all
  note t = empty_table [OF e]
  show "cache_inv {} (use_cache ?c w)"
    using assms t(1,2) e(1) by (simp add: cache_inv_def holds_def gc_addrs_def)
  show "cmap ?c = (\<lambda>_. None)" by (rule t(3))
qed

lemma create_expunge_keeps:
  assumes "sma_ok (fst w)" "cs_null (snd w)"
  shows "expunge_keeps (\<lambda>s. s = w) (apc_cache_default_expunge ev)"
  using assms by (simp add: expunge_keeps_def apc_cache_default_expunge_def)

lemma apc_cache_create_ok:
  assumes us: "sma_usable (fst w)" and lv: "sma_live (fst w) = {}" and nn: "cs_null (snd w)"
  obtains (failed) "apc_cache_create ev r srz h gt tt sm df w =
      Some (Inl ''Unable to allocate shared memory for cache structures'', w)"
      "\<forall>i < num (fst w). seg_full (SIZEOF_CACHE_HEADER + cache_nslots h * 8) (fst w) i"
  | (created) p w' where "apc_cache_create ev r srz h gt tt sm df w = Some (Inr (new_cache ev r srz h gt tt sm df p), w')"
      "snd w' = snd w" "sma_frame (fst w') = sma_frame (fst w)"
      "sma_usable (fst w')" "fst ` sma_live (fst w') = {p}"
proof -
  let ?n = "SIZEOF_CACHE_HEADER + cache_nslots h * 8"
  have n: "?n + 39 < SIZE_LIMIT"
    using cache_nslots_bounds(2) [of h] by (simp add: SIZEOF_CACHE_HEADER_def SIZE_LIMIT_def)
  have ok: "sma_ok (fst w)" using us by (simp add: sma_usable_def)
  have nz: "p \<noteq> 0" if "sma_gave ?n (fst w) p l s" for p l s using that by (simp add: sma_gave_def)
  show ?thesis
  proof (rule apc_sma_malloc_ex_ok [where al = 0, OF create_expunge_keeps [OF ok nn, of ev] refl n], goal_cases)
    case (1 i s')
    then show ?case using us by (simp add: sma_usable_def)
  next
    case (2 s')
    then show ?case
      using failed by (simp add: apc_cache_create_def apc_sma_malloc_def Let_def)
  next
    case (3 p l s0 sma')
    then have g: "sma_gave ?n (fst w) p l sma'" by simp
    have "apc_cache_create ev r srz h gt tt sm df w = Some (Inr (new_cache ev r srz h gt tt sm df p), sma', snd w)"
      using 3(1,2) nz [OF g] by (simp add: apc_cache_create_def apc_sma_malloc_def Let_def new_cache_def)
    then show ?case
      using created [of p "(sma', snd w)"] g lv sma_usable_frame [OF us _ 3(5)] by (simp add: sma_gave_def)
  qed
qed

lemma new_cache_ready:
  assumes "cache_inv {} (use_cache (new_cache ev r srz h gt tt sm df p) w)"
  shows "cache_ready (use_cache (new_cache ev r srz h gt tt sm df p) w)"
  using assms by (simp add: cache_ready_def lock_ready_def apc_lock_create_def lock_idle_def)

section \<open>One segment\<close>

definition one_sma :: "sma_seg \<Rightarrow> apc_sma_t" where
  "one_sma m = small_sma\<lparr>segs := [\<lparr>seg_size = 4096, shmaddr = 65536, seg_mem = m\<rparr>]\<rparr>"

lemma one_sma_small: "one_sma small_seg = small_sma"
  by (simp add: one_sma_def small_sma_def)

lemma one_sma_mem [simp]: "SMA_MEM (one_sma m) 0 = m" "num (one_sma m) = 1" "sma_last (one_sma m) = 0"
  "initialized (one_sma m)"
  by (simp_all add: one_sma_def SMA_MEM_def small_sma_def)

lemma one_sma_attempt:
  assumes "sma_lock (seg_header m) = ok_mutex"
    and "sma_allocate (set_lock (ok_mutex\<lparr>mx_held := True\<rparr>) m) n 40 al = Some (off, l, m')" "off \<noteq> SIZE_MAX"
    and "sma_lock (seg_header m') = ok_mutex\<lparr>mx_held := True\<rparr>"
  shows "sma_attempt n 40 False 0 al (one_sma m) = Some (Got (65536 + off), l, one_sma (set_lock ok_mutex m'))"
  using assms
  by (simp add: sma_attempt_def SMA_LOCK_def SMA_UNLOCK_def mutex_defs ok_mutex_def set_mem_def SMA_MEM_def
      one_sma_def small_sma_def SMA_ADDR_def Let_def set_lock_def)

text \<open>A request that leaves the allocated blocks alone and splits the free block behind them.\<close>

lemma one_sma_malloc:
  assumes rep: "seg_rep m (map (\<lambda>a. (a, False)) as @ [(s, True)]) fs"
    and lk: "sma_lock (seg_header m) = ok_mutex"
    and n: "n + 39 < SIZE_LIMIT" and sp: "realsize_of n + 80 \<le> s"
  obtains m' fs' where
    "apc_sma_malloc ex (one_sma m, c) n = Some (65536 + (120 + span (map (\<lambda>a. (a, False)) as)), one_sma m', c)"
    "seg_rep m' (map (\<lambda>a. (a, False)) (as @ [realsize_of n]) @ [(s - realsize_of n, True)]) fs'"
    "sma_lock (seg_header m') = ok_mutex"
proof -
  let ?bs = "map (\<lambda>a. (a, False)) as @ [(s, True)]" and ?h = "ok_mutex\<lparr>mx_held := True\<rparr>"
  let ?m1 = "set_lock ?h m" and ?pre = "map (\<lambda>a. (a, False)) as"
  have rep1: "seg_rep ?m1 ?bs fs" using rep by simp
  have only: "pre = ?pre \<and> s' = s \<and> post = []" if "?bs = pre @ (s', True) # post" for pre s' post
  proof -
    have "post = []"
    proof (rule ccontr)
      assume "post \<noteq> []"
      then obtain post' x where "post = post' @ [x]" by (metis append_butlast_last_id)
      with that have "?pre = pre @ (s', True) # post'" by simp
      then have "(s', True) \<in> set ?pre" by (metis in_set_conv_decomp)
      then show False by auto
    qed
    with that show ?thesis by simp
  qed
  have notfull: "\<not> (\<forall>s'. (s', True) \<in> set ?bs \<longrightarrow> s' < realsize_of n)"
    using sp by auto
  obtain l m2 fs2 where al: "sma_allocate ?m1 n 40 0 = Some (88 + span ?pre + 32, l, m2)"
    "seg_rep m2 (?pre @ (realsize_of n, False) # [(s - realsize_of n, True)]) fs2"
  proof -
    have "40 \<le> (64 :: nat)" by simp
    from sma_allocate_rep [OF rep1 n this, of 0] show ?thesis
    proof (elim disjE exE conjE, goal_cases)
      case 1
      with notfull show ?case by blast
    next
      case (2 pre s' post sg' fs')
      with only [OF 2(1)] sp show ?case by simp
    next
      case (3 pre s' post sg' fs')
      with only [OF 3(1)] show ?case using that by simp
    qed
  qed
  have ok1: "seg_ok ?m1" using rep1 unfolding seg_ok_def by blast
  have lk2: "sma_lock (seg_header m2) = ?h"
    by (rule sma_allocate_live [OF ok1 n, of 40 0]) (use al(1) lk in auto)
  have "88 + span ?pre + 32 \<noteq> SIZE_MAX"
    using seg_repD(9) [OF rep] by (simp add: SIZE_LIMIT_def SIZE_MAX_def)
  from one_sma_attempt [OF lk al(1) this lk2]
  have "apc_sma_malloc ex (one_sma m, c) n = Some (65536 + (120 + span ?pre), one_sma (set_lock ok_mutex m2), c)"
    by (simp add: apc_sma_malloc_def apc_sma_malloc_ex_def MINBLOCKSIZE_def sma_try_def attempt_ptr_def add.commute add.left_commute)
  moreover have "seg_rep (set_lock ok_mutex m2) (map (\<lambda>a. (a, False)) (as @ [realsize_of n]) @ [(s - realsize_of n, True)]) fs2"
    using al(2) by simp
  ultimately show ?thesis using that by (simp add: set_lock_def)
qed

section \<open>A concrete cache\<close>

definition tiny_ev :: apc_env where
  "tiny_ev = \<lparr>ev_time = 1000, ev_monotonic = 500, ev_sapi_request_time = 1000, ev_pid = 7, ev_rq = [],
     ev_php_var_serialize = (\<lambda>_ _. (None, False)), ev_php_var_unserialize = (\<lambda>_ _. None)\<rparr>"

definition tiny_g :: apc_globals where
  "tiny_g = \<lparr>g_use_request_time = False, g_request_time = 0, g_entry_level = 0, g_depth = 0\<rparr>"

definition tiny_cache :: "nat \<Rightarrow> apc_cache_t" where
  "tiny_cache p = new_cache tiny_ev 0 None 1 3600 0 0 False p"

definition tiny_start :: world where
  "tiny_start = (small_sma, \<lparr>cs_null = True, cs_cache = tiny_cache 0, cs_g = tiny_g, cs_shm = []\<rparr>)"

text \<open>The world after creating a cache of 257 slots in the 4096-byte segment.\<close>

definition tiny_world :: world where
  "tiny_world = (case apc_cache_create tiny_ev 0 None 1 3600 0 0 False tiny_start of
     Some (Inr c, w) \<Rightarrow> use_cache c w | _ \<Rightarrow> tiny_start)"

lemma realsize_concrete: "realsize_of 2216 = 2248" "realsize_of 128 = 160"
  by (simp_all add: realsize_of_def ALIGNWORD_def ALIGNSIZE_def SIZEOF_WORD_def SIZEOF_BLOCK_def sz_add_def sz_sub_def
      sz_mul_def SIZE_LIMIT_def)

lemma tiny_nslots [simp]: "cache_nslots 1 = 257"
  by (simp add: cache_nslots_def i64_less_def make_prime_def primes_def)

lemma small_seg_lock: "sma_lock (seg_header small_seg) = ok_mutex"
  by (simp add: small_seg_def)

lemma tiny_world_eq:
  obtains m fs where "tiny_world = use_cache (tiny_cache 65656) (one_sma m, snd tiny_start)"
    "apc_cache_create tiny_ev 0 None 1 3600 0 0 False tiny_start = Some (Inr (tiny_cache 65656), one_sma m, snd tiny_start)"
    "seg_rep m [(2248, False), (1696, True)] fs" "sma_lock (seg_header m) = ok_mutex"
proof -
  have rep: "seg_rep small_seg (map (\<lambda>a. (a, False)) [] @ [(3944, True)]) [88]" using small_seg_rep by simp
  have n: "2216 + 39 < SIZE_LIMIT" by (simp add: SIZE_LIMIT_def)
  have sp: "realsize_of 2216 + 80 \<le> 3944" by (simp add: realsize_concrete)
  obtain m fs where m: "apc_sma_malloc (apc_cache_default_expunge tiny_ev) (one_sma small_seg, snd tiny_start) 2216 =
      Some (65656, one_sma m, snd tiny_start)" "seg_rep m [(2248, False), (1696, True)] fs"
    "sma_lock (seg_header m) = ok_mutex"
    by (rule one_sma_malloc [OF rep small_seg_lock n sp]) (simp add: realsize_concrete)
  have "apc_cache_create tiny_ev 0 None 1 3600 0 0 False tiny_start = Some (Inr (tiny_cache 65656), one_sma m, snd tiny_start)"
    using m(1) unfolding one_sma_small
    by (simp add: apc_cache_create_def tiny_cache_def tiny_start_def new_cache_def SIZEOF_CACHE_HEADER_def)
  with that [OF _ _ m(2,3)] show ?thesis by (simp add: tiny_world_def)
qed

lemma tiny_created:
  "cache_inv {} tiny_world" "cch tiny_world = tiny_cache 65656" "cs_shm (snd tiny_world) = []" "glb tiny_world = tiny_g"
proof -
  obtain m fs where m: "tiny_world = use_cache (tiny_cache 65656) (one_sma m, snd tiny_start)"
    "apc_cache_create tiny_ev 0 None 1 3600 0 0 False tiny_start = Some (Inr (tiny_cache 65656), one_sma m, snd tiny_start)"
    by (rule tiny_world_eq)
  have s: "sma_usable (fst tiny_start)" "sma_live (fst tiny_start) = {}" "cs_null (snd tiny_start)"
    by (simp_all add: tiny_start_def small_sma_usable small_sma_live)
  have l: "sma_usable (one_sma m)" "fst ` sma_live (one_sma m) = {65656}"
    by (rule apc_cache_create_ok [OF s, of tiny_ev 0 None 1 3600 0 0 False];
        use m(2) in \<open>force simp: tiny_cache_def new_cache_def\<close>)+
  show "cache_inv {} tiny_world" unfolding m(1) tiny_cache_def by (rule new_cache_inv) (use l in simp_all)
  show "cch tiny_world = tiny_cache 65656" "cs_shm (snd tiny_world) = []" "glb tiny_world = tiny_g"
    by (simp_all add: m(1) tiny_start_def)
qed

lemma tiny_ready: "cache_ready tiny_world"
  using new_cache_ready tiny_created(1) tiny_world_eq unfolding tiny_cache_def by metis

lemma tiny_map: "cmap (cch tiny_world) = (\<lambda>_. None)"
  unfolding tiny_created(2) tiny_cache_def by (rule empty_table(3)) simp_all

lemma tiny_lock_works: "lock_works tiny_world"
  by (simp add: lock_works_def tiny_created tiny_cache_def apc_lock_create_def)

lemma tiny_time [simp]: "apc_time tiny_ev tiny_g = (500, tiny_g)"
  by (simp add: apc_time_def tiny_ev_def tiny_g_def)

text \<open>A first store into it succeeds.\<close>

abbreviation tiny_key :: zend_string where "tiny_key \<equiv> mk_zstr ''k''"

lemma tiny_storable: "z_simple v \<Longrightarrow> ZSTR_LEN key < SIZE_LIMIT - 200 \<Longrightarrow> storable tiny_ev srz (apc_cache_init_entry key v ttl t)"
  by (rule storable_simple) (simp_all add: apc_cache_init_entry_def tiny_ev_def heap_ok_def hp_get_def)

text \<open>The same surroundings with strings and arrays of a request.\<close>

definition tiny_in :: "heap \<Rightarrow> apc_env" where
  "tiny_in rq = tiny_ev\<lparr>ev_rq := rq\<rparr>"

lemma tiny_in_empty [simp]: "tiny_in [] = tiny_ev"
  by (simp add: tiny_in_def tiny_ev_def)

lemma tiny_in_simps [simp]: "ev_rq (tiny_in rq) = rq" "apc_time (tiny_in rq) = apc_time tiny_ev"
  by (simp_all add: tiny_in_def apc_time_def fun_eq_iff)

lemma persist_size_long:
  "\<exists>cx. persist_size ser srz rq (apc_cache_init_entry tiny_key (IS_LONG i) ttl t) = Some (Some cx) \<and> cx_size cx = 128"
  by (intro exI conjI, rule persist_size_simple(1), simp add: apc_cache_init_entry_def, subst persist_size_simple(2))
    (simp_all add: apc_cache_init_entry_def ZEND_MM_ALIGNED_SIZE_def SIZEOF_CACHE_ENTRY_def ZSTR_STRUCT_SIZE_def ZSTR_LEN_def mk_zstr_def)

lemma tiny_malloc:
  obtains w' p where "cache_malloc ev (upd_g g tiny_world) 128 = Some (p, w')" "p \<noteq> 0"
proof -
  obtain m fs where m: "tiny_world = use_cache (tiny_cache 65656) (one_sma m, snd tiny_start)"
    "seg_rep m [(2248, False), (1696, True)] fs" "sma_lock (seg_header m) = ok_mutex"
    by (rule tiny_world_eq)
  have rep: "seg_rep m (map (\<lambda>a. (a, False)) [2248] @ [(1696, True)]) fs" using m(2) by simp
  have n: "128 + 39 < SIZE_LIMIT" and sp: "realsize_of 128 + 80 \<le> 1696"
    by (simp_all add: realsize_concrete SIZE_LIMIT_def)
  have w: "upd_g g tiny_world = (one_sma m, snd (upd_g g tiny_world))" by (simp add: m(1) use_cache_def upd_g_def)
  obtain p m' where "apc_sma_malloc (apc_cache_default_expunge ev) (one_sma m, snd (upd_g g tiny_world)) 128 =
      Some (p, one_sma m', snd (upd_g g tiny_world))" "p \<noteq> 0"
    by (rule one_sma_malloc [OF rep m(3) n sp, of "apc_cache_default_expunge ev" "snd (upd_g g tiny_world)"]) auto
  with that show ?thesis by (metis cache_malloc_def w)
qed

lemma tiny_persist:
  "cache_persist ev (apc_cache_init_entry tiny_key (IS_LONG i) ttl t) (upd_g g tiny_world) \<noteq> Some (None, w')"
proof -
  let ?o = "apc_cache_init_entry tiny_key (IS_LONG i) ttl t"
  obtain w1 p where "cache_malloc ev (upd_g g tiny_world) 128 = Some (p, w1)" "p \<noteq> 0" by (rule tiny_malloc)
  moreover obtain cx where "persist_size (php_apc_serializer (ev_php_var_serialize ev)) (c_serializer (cch (upd_g g tiny_world))) (ev_rq ev) ?o =
      Some (Some cx)" "cx_size cx = 128"
    using persist_size_long by blast
  ultimately show ?thesis
    by (auto simp: cache_persist_def apc_persist_def split: Option.bind_splits)
qed

lemma tiny_store_in:
  assumes rq: "heap_ok rq"
  obtains w e where "apc_cache_store (tiny_in rq) tiny_key (IS_LONG i) ttl excl tiny_world = Some (True, w)"
    "cache_ready w" "lock_works w" "cmap (cch w) = [''k'' \<mapsto> e]" "fresh_entry tiny_key (IS_LONG i) ttl 500 e"
proof -
  let ?o = "apc_cache_init_entry tiny_key (IS_LONG i) ttl 500"
  have k: "zs_ok tiny_key" by simp
  have st: "storable (tiny_in rq) (c_serializer (cch tiny_world)) (apc_cache_init_entry tiny_key (IS_LONG i) ttl (fst (apc_time (tiny_in rq) (glb tiny_world))))"
    by (rule storable_simple) (use rq in \<open>simp_all add: apc_cache_init_entry_def ZSTR_LEN_def mk_zstr_def SIZE_LIMIT_def\<close>)
  obtain ok w where w: "apc_cache_store (tiny_in rq) tiny_key (IS_LONG i) ttl excl tiny_world = Some (ok, w)"
    "cache_ready w" "same_setup (tiny_in rq) tiny_world w" "store_effect (tiny_in rq) tiny_key (IS_LONG i) ttl excl tiny_world ok w"
    by (rule apc_cache_store_ok [OF tiny_ready k st])
  obtain m where m: "sheds (\<lambda>_. True) (\<lambda>_. None) m"
    "if ok then \<exists>e. fresh_entry tiny_key (IS_LONG i) ttl 500 e \<and> cmap (cch w) = m(''k'' \<mapsto> e)
     else store_refused (tiny_in rq) tiny_key (IS_LONG i) ttl excl 500 m (upd_g tiny_g tiny_world)"
    using w(4) unfolding store_effect_def tiny_created(4) tiny_time tiny_map by (cases ok) auto
  have m0: "m = (\<lambda>_. None)" using m(1) by (auto simp: sheds_def)
  have d: "apc_cache_defense (tiny_in rq) tiny_key 500 (upd_g tiny_g tiny_world) = (False, upd_g tiny_g tiny_world)"
    by (simp add: apc_cache_defense_def tiny_created tiny_cache_def)
  have lw: "lock_works (upd_g tiny_g tiny_world)" using tiny_lock_works tiny_created(4) by (simp add: lock_works_def)
  have ok
  proof (rule ccontr)
    assume "\<not> ok"
    then have "store_refused (tiny_in rq) tiny_key (IS_LONG i) ttl excl 500 (\<lambda>_. None) (upd_g tiny_g tiny_world)"
      using m(2) m0 by simp
    then show False using tiny_persist lw by (auto simp: store_refused_def d blocks_insert_def)
  qed
  with m m0 obtain e where "fresh_entry tiny_key (IS_LONG i) ttl 500 e" "cmap (cch w) = [''k'' \<mapsto> e]" by auto
  moreover have "lock_works w" using same_setupD(3) [OF w(3)] tiny_lock_works by simp
  ultimately show ?thesis using that w(1,2) \<open>ok\<close> by simp
qed

lemma tiny_store:
  obtains w e where "apc_cache_store tiny_ev tiny_key (IS_LONG i) ttl excl tiny_world = Some (True, w)"
    "cache_ready w" "lock_works w" "cmap (cch w) = [''k'' \<mapsto> e]" "fresh_entry tiny_key (IS_LONG i) ttl 500 e"
proof -
  have h: "heap_ok []" by (simp add: heap_ok_def hp_get_def)
  show ?thesis by (rule tiny_store_in [OF h, of i ttl excl]) (rule that, simp_all)
qed

end
