(* ===== verification/Apc_Cache_Claims.thy ===== *)
theory Apc_Cache_Claims imports Apc_Cache_Create begin

text \<open>
  The contract of the cache: what storing, fetching, testing, deleting and clearing promise. Each
  property comes with an instance in the concrete cache \<open>tiny_world\<close>.
\<close>

section \<open>Storing\<close>


lemma tiny_long_storable: "storable tiny_ev srz (apc_cache_init_entry tiny_key (IS_LONG i) ttl t)"
  by (rule tiny_storable) (simp_all add: ZSTR_LEN_def mk_zstr_def SIZE_LIMIT_def)


text \<open>An entry that was just stored.\<close>

lemma stored_entry:
  assumes r: "cache_ready w" and k: "zs_ok key" and tg: "fst (apc_time ev (glb w)) = t"
    and st: "storable ev (c_serializer (cch w)) (apc_cache_init_entry key val ttl t)"
    and s: "apc_cache_store ev key val ttl excl w = Some (True, w')"
  obtains e where "cmap (cch w') (zs_val key) = Some e" "fresh_entry key val ttl t e" "cache_ready w'" "same_setup ev w w'"
    "stored_value ev (c_serializer (cch w)) val (cs_shm (snd w')) (ce_val e)"
proof -
  obtain ok w1 where "apc_cache_store ev key val ttl excl w = Some (ok, w1)" "cache_ready w1" "same_setup ev w w1"
    "store_effect ev key val ttl excl w ok w1"
    by (rule apc_cache_store_ok [OF r k st [folded tg]])
  with s have w: "cache_ready w'" "same_setup ev w w'" "store_effect ev key val ttl excl w True w'" by simp_all
  then obtain m e where "fresh_entry key val ttl t e" "stored_value ev (c_serializer (cch w)) val (cs_shm (snd w')) (ce_val e)"
    "cmap (cch w') = m(zs_val key \<mapsto> e)"
    using tg unfolding store_effect_def by (auto simp: case_prod_unfold)
  with w that show ?thesis by simp
qed

lemma fresh_expired: "fresh_entry key val ttl t e \<Longrightarrow>
    apc_cache_entry_hard_expired e t' \<longleftrightarrow> (scast ttl :: i64) \<noteq> 0 \<and> i64_less (t + scast ttl) t'"
  by (simp add: fresh_entry_def apc_cache_entry_hard_expired_def)

lemma unpersist_stored:
  assumes st: "storable ev srz orig" and sv: "stored_value ev srz (ce_val orig) sh v'"
  shows "\<exists>ret v rq2. apc_unpersist php_unser srz sh v' rq1 = Some (ret, v, rq2) \<and>
    (ret \<and> same_value (ev_rq ev) (ce_val orig) rq2 v \<or>
     (\<exists>buf. persist_serialize (php_apc_serializer (ev_php_var_serialize ev)) srz (ev_rq ev) (ce_val orig) = Some buf \<and>
        (ret, v, rq2) = read_back php_unser srz rq1 buf))"
proof -
  have st': "heap_ok (ev_rq ev)" "top_ok (ev_rq ev) (ce_val orig)" using st by (simp_all add: storable_def)
  show ?thesis
  proof (cases rule: unpersist_image [OF st' sv [unfolded stored_value_def], of php_unser rq1])
    case (1 v rq2)
    then show ?thesis by blast
  next
    case (2 buf)
    obtain ret v rq2 where "read_back php_unser srz rq1 buf = (ret, v, rq2)" by (metis surj_pair)
    with 2 show ?thesis by auto
  qed
qed

text \<open>Fetching an entry whose value was stored from \<open>val\<close>.\<close>

lemma fetch_stored:
  assumes "cache_ready w'" "lock_works w'" "zs_ok key" "live t' (cmap (cch w')) (zs_val key) = Some e"
    "storable ev (c_serializer (cch w')) (apc_cache_init_entry key val ttl t)"
    "stored_value ev (c_serializer (cch w')) val (cs_shm (snd w')) (ce_val e)"
  shows "\<exists>ret v rq w2. apc_cache_fetch ev' key t' w' = Some (ret, Some (v, rq), w2) \<and> cache_ready w2 \<and>
    (ret \<and> same_value (ev_rq ev) val rq v \<or>
     (\<exists>buf. persist_serialize (php_apc_serializer (ev_php_var_serialize ev)) (c_serializer (cch w')) (ev_rq ev) val = Some buf \<and>
        (ret, v, rq) = read_back (php_apc_unserializer (ev_php_var_unserialize ev')) (c_serializer (cch w')) (ev_rq ev') buf))"
proof -
  obtain ret v rq where u: "unpersist_entry ev' w' e = Some (ret, v, rq)"
    "ret \<and> same_value (ev_rq ev) val rq v \<or>
     (\<exists>buf. persist_serialize (php_apc_serializer (ev_php_var_serialize ev)) (c_serializer (cch w')) (ev_rq ev) val = Some buf \<and>
        (ret, v, rq) = read_back (php_apc_unserializer (ev_php_var_unserialize ev')) (c_serializer (cch w')) (ev_rq ev') buf)"
    using unpersist_stored [OF assms(5), of "cs_shm (snd w')" "ce_val e" "php_apc_unserializer (ev_php_var_unserialize ev')" "ev_rq ev'"]
      assms(6) by (auto simp: unpersist_entry_def apc_cache_init_entry_def)
  have un: "\<forall>e. live t' (cmap (cch w')) (zs_val key) = Some e \<longrightarrow> unpersist_entry ev' w' e \<noteq> None" using assms(4) u(1) by simp
  obtain r dst w2 where f: "apc_cache_fetch ev' key t' w' = Some (r, dst, w2)" "cache_ready w2"
    "(r, dst) = (case (if lock_works w' then live t' (cmap (cch w')) (zs_val key) else None) of
       None \<Rightarrow> (False, None)
     | Some e \<Rightarrow> (fst (the (unpersist_entry ev' w' e)), Some (snd (the (unpersist_entry ev' w' e)))))"
    by (rule apc_cache_fetch_ok [OF assms(1,3) un])
  have "r = ret" "dst = Some (v, rq)" using f(3) assms(2,4) u(1) by simp_all
  then show ?thesis using f(1,2) u(2) by blast
qed

lemma fetch_after_store:
  assumes "cache_ready w" "lock_works w" "zs_ok key" "fst (apc_time ev (glb w)) = t"
    "storable ev (c_serializer (cch w)) (apc_cache_init_entry key val ttl t)"
    "apc_cache_store ev key val ttl excl w = Some (True, w')"
    "\<not> ((scast ttl :: i64) \<noteq> 0 \<and> i64_less (t + scast ttl) t')"
  shows "\<exists>ret v rq w2. apc_cache_fetch ev' key t' w' = Some (ret, Some (v, rq), w2) \<and> cache_ready w2 \<and>
    (ret \<and> same_value (ev_rq ev) val rq v \<or>
     (\<exists>buf. persist_serialize (php_apc_serializer (ev_php_var_serialize ev)) (c_serializer (cch w)) (ev_rq ev) val = Some buf \<and>
        (ret, v, rq) = read_back (php_apc_unserializer (ev_php_var_unserialize ev')) (c_serializer (cch w)) (ev_rq ev') buf))"
proof -
  obtain e where e: "cmap (cch w') (zs_val key) = Some e" "fresh_entry key val ttl t e" "cache_ready w'" "same_setup ev w w'"
    "stored_value ev (c_serializer (cch w)) val (cs_shm (snd w')) (ce_val e)"
    by (rule stored_entry [OF assms(1,3-6)])
  have lv: "live t' (cmap (cch w')) (zs_val key) = Some e"
    using e(1) fresh_expired [OF e(2)] assms(7) by (simp add: live_Some)
  have lw: "lock_works w'" using assms(2) same_setupD(3) [OF e(4)] by simp
  note srz = same_setupD(7) [OF e(4)]
  show ?thesis using fetch_stored [OF e(3) lw assms(3) lv, of ev val ttl t ev'] assms(5) e(5) unfolding srz by blast
qed

text \<open>
  C1: What was stored can be fetched by any process until its time to live has passed: the
  value built in the fetching request is the stored one, structure by structure (strings, arrays
  with their keys and order, references with sharing and cycles), or, when the value went through
  a serializer, what the unserializer makes of exactly the string the serializer returned.
\<close>

theorem store_then_fetch:
  assumes "cache_ready w" "lock_works w" "zs_ok key" "fst (apc_time ev (glb w)) = t"
    "storable ev (c_serializer (cch w)) (apc_cache_init_entry key val ttl t)"
    "apc_cache_store ev key val ttl excl w = Some (True, w')"
    "\<not> ((scast ttl :: i64) \<noteq> 0 \<and> i64_less (t + scast ttl) t')"
  shows "\<exists>ret v rq w2. apc_cache_fetch ev' key t' w' = Some (ret, Some (v, rq), w2) \<and> cache_ready w2 \<and>
    (ret \<and> same_value (ev_rq ev) val rq v \<or>
     (\<exists>buf. persist_serialize (php_apc_serializer (ev_php_var_serialize ev)) (c_serializer (cch w)) (ev_rq ev) val = Some buf \<and>
        (ret, v, rq) = read_back (php_apc_unserializer (ev_php_var_unserialize ev')) (c_serializer (cch w)) (ev_rq ev') buf))"
  by (rule fetch_after_store [OF assms])

theorem store_then_fetch_witness:
  "\<exists>w' v rq w2. apc_cache_store tiny_ev tiny_key (IS_LONG 42) 0 False tiny_world = Some (True, w') \<and>
     apc_cache_fetch tiny_ev tiny_key 700 w' = Some (True, Some (v, rq), w2) \<and> same_value [] (IS_LONG 42) rq v"
proof -
  obtain w where w: "apc_cache_store tiny_ev tiny_key (IS_LONG 42) 0 False tiny_world = Some (True, w)"
    by (rule tiny_store [of 42 0 False])
  have t: "fst (apc_time tiny_ev (glb tiny_world)) = 500" by (simp add: tiny_created)
  have "persist_serialize (php_apc_serializer (ev_php_var_serialize tiny_ev)) (c_serializer (cch tiny_world)) (ev_rq tiny_ev) (IS_LONG 42) = None"
    by (simp add: persist_serialize_def php_apc_serializer_def tiny_created tiny_cache_def tiny_ev_def)
  moreover have "ev_rq tiny_ev = []" by (simp add: tiny_ev_def)
  ultimately show ?thesis
    using store_then_fetch [OF tiny_ready tiny_lock_works _ t tiny_long_storable w, of 700 tiny_ev] w by auto
qed

section \<open>Reading, deleting, clearing\<close>


text \<open>
  C11: Deleting returns and removes exactly the entry of its key, expired or not; the answer says
  whether there was one, every other key keeps its entry, and the cache is ready again. The block of
  the entry is freed, or waits in the list of removed entries when some process reads it.
\<close>

theorem cache_delete_exact:
  assumes "cache_ready w" "zs_ok key"
  shows "\<exists>w'. apc_cache_delete ev key w = Some (lock_works w \<and> cmap (cch w) (zs_val key) \<noteq> None, w') \<and> cache_ready w' \<and>
    (if lock_works w
     then cmap (cch w') = (cmap (cch w))(zs_val key := None) \<and>
       c_gc (cch w') = parked ev (case cmap (cch w) (zs_val key) of None \<Rightarrow> [] | Some e \<Rightarrow> [e]) @ c_gc (cch w)
     else cmap (cch w') = cmap (cch w)) \<and>
    fst ` sma_live (fst w') = insert (c_shmaddr (cch w')) (ce_addr ` set (entries (cch w')) \<union> ce_addr ` set (c_gc (cch w')))"
proof -
  obtain b w' where w': "apc_cache_delete ev key w = Some (b, w')" "cache_ready w'"
    "b = (lock_works w \<and> cmap (cch w) (zs_val key) \<noteq> None)"
    "cmap (cch w') = (if lock_works w then (cmap (cch w))(zs_val key := None) else cmap (cch w))"
    by (rule apc_cache_delete_ok [OF assms])
  with apc_cache_delete_gc [OF assms(1) _ assms(2) w'(1)] cache_inv_live [OF cache_readyD(2) [OF w'(2)]] show ?thesis
    by (cases "lock_works w") auto
qed

theorem cache_delete_exact_witness:
  "\<exists>w w'. apc_cache_store tiny_ev tiny_key (IS_LONG 42) 0 False tiny_world = Some (True, w) \<and>
     apc_cache_delete tiny_ev tiny_key w = Some (True, w') \<and> cmap (cch w') ''k'' = None"
proof -
  obtain w e where w: "apc_cache_store tiny_ev tiny_key (IS_LONG 42) 0 False tiny_world = Some (True, w)" "cache_ready w"
    "lock_works w" "cmap (cch w) = [''k'' \<mapsto> e]"
    by (rule tiny_store [of 42 0 False])
  with cache_delete_exact [OF w(2), of tiny_key tiny_ev] show ?thesis by auto
qed

text \<open>
  C22: Clearing empties the map and gives the blocks back to the allocator: live are only the
  cache's own block, those of the entries that some process references, which are moved to the list
  of removed entries, and those that were in that list before.
\<close>

theorem cache_clear_reclaims:
  assumes "cache_ready w" "lock_works w"
  shows "\<exists>w'. apc_cache_clear ev w = Some w' \<and> cache_ready w' \<and> cmap (cch w') = (\<lambda>_. None) \<and>
    c_gc (cch w') = parked ev (entries (cch w)) @ c_gc (cch w) \<and>
    fst ` sma_live (fst w') = insert (c_shmaddr (cch w'))
      (ce_addr ` {e \<in> set (entries (cch w)). i64_less 0 (ce_ref_count e)} \<union> ce_addr ` set (c_gc (cch w)))"
proof -
  obtain w' where w': "apc_cache_clear ev w = Some w'" "cache_ready w'" "same_config ev w w'"
    "cmap (cch w') = (if lock_works w then (\<lambda>_. None) else cmap (cch w))"
    by (rule apc_cache_clear_ok [OF assms(1)])
  note inv = cache_readyD(2) [OF w'(2)]
  have "entries (cch w') = []"
    using entry_cmap [OF cache_invD(1) [OF inv]] w'(4) assms(2) by (cases "entries (cch w')") fastforce+
  with cache_inv_live [OF inv] apc_cache_clear_gc [OF assms w'(1)] w' assms(2) show ?thesis
    by (auto simp: image_Un parked_addrs)
qed

theorem cache_clear_reclaims_witness:
  "\<exists>w w'. apc_cache_store tiny_ev tiny_key (IS_LONG 42) 0 False tiny_world = Some (True, w) \<and>
     apc_cache_clear tiny_ev w = Some w' \<and> cmap (cch w') ''k'' = None"
proof -
  obtain w e where w: "apc_cache_store tiny_ev tiny_key (IS_LONG 42) 0 False tiny_world = Some (True, w)" "cache_ready w"
    "lock_works w" by (rule tiny_store [of 42 0 False])
  with cache_clear_reclaims [OF w(2,3), of tiny_ev] show ?thesis by auto
qed

section \<open>The list of removed entries\<close>

text \<open>
  C23: The collection of removed entries frees exactly the blocks of those that no process
  references and of those that have waited longer than \<open>gc_ttl\<close>, unless that is 0; the others
  stay in the list in their order, and the table of live entries is not touched.
\<close>

theorem gc_frees_exactly_due:
  assumes "cache_inv {} w"
  shows "\<exists>w'. apc_cache_wlocked_gc ev w = Some w' \<and> cache_inv {} w' \<and>
    (let due = (\<lambda>e. ce_ref_count e = 0 \<or> c_gc_ttl (cch w) \<noteq> 0 \<and> i64_less (c_gc_ttl (cch w)) (ev_time ev - ce_dtime e))
     in cch w' = (cch w)\<lparr>c_gc := filter (\<lambda>e. \<not> due e) (c_gc (cch w))\<rparr> \<and>
        fst ` sma_live (fst w') = fst ` sma_live (fst w) - ce_addr ` {e \<in> set (c_gc (cch w)). due e})"
proof -
  note h = cache_invD(3) [OF assms]
  let ?P = "gc_due (c_gc_ttl (cch w)) (ev_time ev)"
  obtain w' where w': "apc_cache_wlocked_gc ev w = Some w'"
      "holds (length (entries (cch w))) (addrs (cch w) \<union> {}) w'" "same_core w w'"
      "cch w' = (cch w)\<lparr>c_gc := filter (\<lambda>e. \<not> ?P e) (c_gc (cch w))\<rparr>"
    by (rule apc_cache_wlocked_gc_ok [OF h])
  have P: "?P = (\<lambda>e. ce_ref_count e = 0 \<or> c_gc_ttl (cch w) \<noteq> 0 \<and> i64_less (c_gc_ttl (cch w)) (ev_time ev - ce_dtime e))"
    by (auto simp: gc_due_def fun_eq_iff i64_less_def)
  have inv: "cache_inv {} w'" using w'(2,4) cache_invD(1) [OF assms] by (simp add: cache_inv_def table_ok_def entries_def addrs_def)
  have d: "c_shmaddr (cch w) \<notin> ce_addr ` set (c_gc (cch w))" "addrs (cch w) \<inter> ce_addr ` set (c_gc (cch w)) = {}"
    "inj_on ce_addr (set (c_gc (cch w)))" using holdsD(5-7) [OF h] holdsD(4) [OF h] by (auto simp: gc_addrs_def distinct_map)
  have "fst ` sma_live (fst w') = fst ` sma_live (fst w) - ce_addr ` {e \<in> set (c_gc (cch w)). ?P e}"
    using d unfolding cache_inv_live [OF inv] cache_inv_live [OF assms] w'(4)
    by (auto simp: addrs_def entries_def dest: inj_onD)
  with w' inv show ?thesis unfolding P Let_def by blast
qed



section \<open>Time to live\<close>

text \<open>
  C19: An entry whose time to live has passed is never served: fetching it writes no value,
  finding and testing fail, and an update in place refuses, while the map stays as it is.
\<close>

theorem expired_never_served:
  assumes "cache_ready w" "zs_ok key" "cmap (cch w) (zs_val key) = Some e" "apc_cache_entry_hard_expired e t"
  shows "apc_cache_exists key t w = Some (False, w) \<and>
    (\<exists>w1. apc_cache_find key t w = Some (None, w1) \<and> cmap (cch w1) = cmap (cch w)) \<and>
    (\<exists>w2. apc_cache_fetch ev key t w = Some (False, None, w2) \<and> cmap (cch w2) = cmap (cch w)) \<and>
    (\<exists>res w3. atomic_update_attempt upd data key t w = Some (res, data, w3) \<and> res \<noteq> Some True \<and> cmap (cch w3) = cmap (cch w))"
proof -
  have lv: "live t (cmap (cch w)) (zs_val key) = None" using assms(3,4) by (simp add: live_def)
  have un: "\<forall>e. live t (cmap (cch w)) (zs_val key) = Some e \<longrightarrow> unpersist_entry ev w e \<noteq> None" using lv by simp
  obtain r1 w1 where f: "apc_cache_find key t w = Some (r1, w1)"
    "r1 = (if lock_works w then map_option (\<lambda>e. incref (hit t e)) (live t (cmap (cch w)) (zs_val key)) else None)"
    "cmap (cch w1) = (case r1 of None \<Rightarrow> cmap (cch w) | Some e \<Rightarrow> (cmap (cch w))(zs_val key \<mapsto> e))"
    by (rule apc_cache_find_ok [OF assms(1,2), of t ev])
  obtain r2 d2 w2 where g: "apc_cache_fetch ev key t w = Some (r2, d2, w2)"
    "(r2, d2) = (case (if lock_works w then live t (cmap (cch w)) (zs_val key) else None) of
       None \<Rightarrow> (False, None)
     | Some e \<Rightarrow> (fst (the (unpersist_entry ev w e)), Some (snd (the (unpersist_entry ev w e)))))"
    "cmap (cch w2) = (case (if lock_works w then live t (cmap (cch w)) (zs_val key) else None) of
       None \<Rightarrow> cmap (cch w) | Some e \<Rightarrow> (cmap (cch w))(zs_val key \<mapsto> hit t e))"
    by (rule apc_cache_fetch_ok [OF assms(1,2) un])
  obtain r3 d3 w3 where h: "atomic_update_attempt upd data key t w = Some (r3, d3, w3)"
    "r3 = (if \<not> lock_works w then Some False
       else map_option (\<lambda>e. case ce_val e of IS_LONG i \<Rightarrow> fst (upd i data) | _ \<Rightarrow> False) (live t (cmap (cch w)) (zs_val key)))"
    "cmap (cch w3) = (case (if lock_works w then live t (cmap (cch w)) (zs_val key) else None) of
       None \<Rightarrow> cmap (cch w)
     | Some e \<Rightarrow> (case ce_val e of
           IS_LONG i \<Rightarrow> (cmap (cch w))(zs_val key \<mapsto> e\<lparr>ce_val := IS_LONG (fst (snd (upd i data))), ce_mtime := t\<rparr>)
         | _ \<Rightarrow> cmap (cch w)))"
    "d3 = (case (if lock_works w then live t (cmap (cch w)) (zs_val key) else None) of
       None \<Rightarrow> data
     | Some e \<Rightarrow> (case ce_val e of IS_LONG i \<Rightarrow> snd (snd (upd i data)) | _ \<Rightarrow> data))"
    by (rule atomic_update_attempt_ok [OF assms(1,2), of upd data t ev])
  have "apc_cache_exists key t w = Some (False, w)" using apc_cache_exists_ok [OF assms(1,2), of t] lv by simp
  moreover have "r1 = None" "cmap (cch w1) = cmap (cch w)" using f(2,3) lv by simp_all
  moreover have "r2 = False" "d2 = None" "cmap (cch w2) = cmap (cch w)" using g(2,3) lv by (simp_all split: if_splits)
  moreover have "r3 \<noteq> Some True" "d3 = data" "cmap (cch w3) = cmap (cch w)" using h(2-4) lv by (simp_all split: if_splits)
  ultimately show ?thesis using f(1) g(1) h(1) by blast
qed

theorem expired_never_served_witness:
  "\<exists>w w2. apc_cache_store tiny_ev tiny_key (IS_LONG 42) 5 False tiny_world = Some (True, w) \<and>
     apc_cache_fetch tiny_ev tiny_key 506 w = Some (False, None, w2)"
proof -
  obtain w e where w: "apc_cache_store tiny_ev tiny_key (IS_LONG 42) 5 False tiny_world = Some (True, w)" "cache_ready w"
    "cmap (cch w) = [''k'' \<mapsto> e]" "fresh_entry tiny_key (IS_LONG 42) 5 500 e"
    by (rule tiny_store [of 42 5 False])
  have "apc_cache_entry_hard_expired e 506" by (simp add: fresh_expired [OF w(4)] i64_less_def)
  with expired_never_served [OF w(2), of tiny_key e 506 tiny_ev "\<lambda>i d. (True, i, d)" "()"] w(1,3) show ?thesis by auto
qed




section \<open>Refusals and expunging\<close>

text \<open>
  With the slam defense on, a store of the key that another process stored last within the
  same second is refused before anything is allocated: the answer is no and only the clock has
  been read.
\<close>

lemma slam_defense_refuses:
  assumes "\<not> cs_null (snd w)" "c_defend (cch w)" "apc_time ev (glb w) = (t, g)"
    "sk_hash (c_lastkey (cch w)) = ZSTR_HASH key" "sk_len (c_lastkey (cch w)) = ZSTR_LEN key"
    "sk_mtime (c_lastkey (cch w)) = t" "sk_owner_pid (c_lastkey (cch w)) \<noteq> ev_pid ev"
  shows "apc_cache_store ev key val ttl excl w = Some (False, upd_g g w) \<and>
    apc_cache_store_internal ev key val ttl excl w = Some (False, upd_g g w)"
proof -
  have "apc_cache_defense ev key t (upd_g g w) = (True, upd_g g w)"
    using assms(2,4-7) by (simp add: apc_cache_defense_def Let_def)
  then show ?thesis using assms(1,3) by (simp add: apc_cache_store_def apc_cache_store_internal_def)
qed

definition slammed_world :: world where
  "slammed_world = upd_cache (\<lambda>c. c\<lparr>c_defend := True, c_lastkey := \<lparr>sk_hash = ZSTR_HASH tiny_key, sk_len = 1,
     sk_mtime = 500, sk_owner_pid = 8\<rparr>\<rparr>) tiny_world"

lemma slam_defense_refuses_witness:
  "apc_cache_store tiny_ev tiny_key (IS_LONG 1) 0 False slammed_world = Some (False, upd_g tiny_g slammed_world)"
proof -
  have c: "\<not> cs_null (snd slammed_world)" "apc_time tiny_ev (glb slammed_world) = (500, tiny_g)"
    using cache_readyD(1) [OF tiny_ready] by (simp_all add: slammed_world_def tiny_created)
  show ?thesis
    by (rule conjunct1 [OF slam_defense_refuses [OF c(1) _ c(2)]])
      (simp_all add: slammed_world_def ZSTR_LEN_def mk_zstr_def tiny_ev_def)
qed

text \<open>
  C21: The pass over the slots that makes room drops exactly the entries whose own or the cache's
  time to live has passed; every other entry stays under its key. Of the dropped ones those that some
  process references wait in the list of removed entries, and the blocks of the others are freed.
\<close>

theorem expunge_pass_drops_expired:
  assumes "cache_inv {} w"
  shows "\<exists>w'. junk_slots ev t [0..<c_nslots (cch w)] w = Some w' \<and> cache_inv {} w' \<and>
    (\<forall>v. cmap (cch w') v = (case cmap (cch w) v of None \<Rightarrow> None
       | Some e \<Rightarrow> if apc_cache_entry_expired (c_ttl (cch w)) e t then None else Some e)) \<and>
    c_gc (cch w') = parked ev (filter (\<lambda>e. apc_cache_entry_expired (c_ttl (cch w)) e t) (entries (cch w))) @ c_gc (cch w) \<and>
    fst ` sma_live (fst w') = insert (c_shmaddr (cch w')) (ce_addr ` set (entries (cch w')) \<union> ce_addr ` set (c_gc (cch w')))"
proof -
  obtain w' where w': "drop_slots (\<lambda>e. apc_cache_entry_expired (c_ttl (cch w)) e t) ev [0..<c_nslots (cch w)] w = Some w'"
    "cache_inv {} w'" "cmap (cch w') = keep_if (\<lambda>e. \<not> apc_cache_entry_expired (c_ttl (cch w)) e t) (cmap (cch w))"
    by (rule drop_all_ok [OF assms])
  from w' drop_all_gc [OF assms w'(1)] cache_inv_live [OF w'(2)] show ?thesis
    by (auto simp: junk_slots_drop keep_if_def split: option.split)
qed

theorem expunge_pass_drops_expired_witness:
  "\<exists>w w'. apc_cache_store tiny_ev tiny_key (IS_LONG 42) 5 False tiny_world = Some (True, w) \<and>
     junk_slots tiny_ev 506 [0..<c_nslots (cch w)] w = Some w' \<and> cmap (cch w') ''k'' = None"
proof -
  obtain w e where w: "apc_cache_store tiny_ev tiny_key (IS_LONG 42) 5 False tiny_world = Some (True, w)" "cache_ready w"
    "cmap (cch w) = [''k'' \<mapsto> e]" "fresh_entry tiny_key (IS_LONG 42) 5 500 e"
    by (rule tiny_store [of 42 5 False])
  have "apc_cache_entry_expired t e 506" for t
    by (simp add: apc_cache_entry_expired_def fresh_expired [OF w(4)] i64_less_def)
  with expunge_pass_drops_expired [OF cache_readyD(2) [OF w(2)], of tiny_ev 506] w(1,3) show ?thesis by fastforce
qed

text \<open>
  C38: Creating a cache on an allocator without live blocks either fails with the message about
  shared memory and changes nothing, or makes an empty cache, with a number of slots between 257
  and 983063, that is ready for use and owns the only live block.
\<close>

theorem cache_create_establishes:
  assumes "sma_usable (fst w)" "sma_live (fst w) = {}" "cs_null (snd w)"
  shows "apc_cache_create ev r srz h gt tt sm df w = Some (Inl ''Unable to allocate shared memory for cache structures'', w) \<or>
    (\<exists>c w'. apc_cache_create ev r srz h gt tt sm df w = Some (Inr c, w') \<and> cache_ready (use_cache c w') \<and>
       cmap c = (\<lambda>_. None) \<and> 257 \<le> c_nslots c \<and> c_nslots c \<le> 983063 \<and> fst ` sma_live (fst w') = {c_shmaddr c})"
proof (cases rule: apc_cache_create_ok [OF assms, of ev r srz h gt tt sm df])
  case 1
  then show ?thesis by simp
next
  case (2 p w')
  note i = new_cache_inv [OF 2(4,5), of ev r srz h gt tt sm df]
  show ?thesis
    using 2 new_cache_ready [OF i(1)] i(2) cache_nslots_bounds [of h] by auto
qed

theorem cache_create_establishes_witness:
  "\<exists>c w'. apc_cache_create tiny_ev 0 None 1 3600 0 0 False tiny_start = Some (Inr c, w') \<and> cmap c = (\<lambda>_. None)"
proof -
  obtain m fs where m: "apc_cache_create tiny_ev 0 None 1 3600 0 0 False tiny_start = Some (Inr (tiny_cache 65656), one_sma m, snd tiny_start)"
    by (rule tiny_world_eq)
  have "sma_usable (fst tiny_start)" "sma_live (fst tiny_start) = {}" "cs_null (snd tiny_start)"
    by (simp_all add: tiny_start_def small_sma_usable small_sma_live)
  from cache_create_establishes [OF this, of tiny_ev 0 None 1 3600 0 0 False] m show ?thesis by auto
qed

end
