(* ===== verification/Apc_Cache_Session.thy ===== *)
theory Apc_Cache_Session imports Apc_Cache_Create begin

text \<open>
  The cache against an abstract key-value store: a map from keys to a value, a time to live and
  a time of creation. Addresses, slots, reference counts, statistics, locks and the allocator are
  gone from the abstract side; what is left of them is that a store may be refused and may shed
  entries. Values are scalars here; other values are the subject of \<open>store_then_fetch\<close>.
\<close>

section \<open>Sequences of operations\<close>

primrec run_seq :: "('o \<Rightarrow> 'w \<Rightarrow> ('r \<times> 'w) option) \<Rightarrow> 'o list \<Rightarrow> 'w \<Rightarrow> ('r list \<times> 'w) option" where
  "run_seq run [] w = Some ([], w)"
| "run_seq run (x # xs) w = do {
     (r, w1) \<leftarrow> run x w;
     (rs, w2) \<leftarrow> run_seq run xs w1;
     Some (r # rs, w2)
   }"

primrec spec_seq :: "('o \<Rightarrow> 'm \<Rightarrow> 'r \<Rightarrow> 'm \<Rightarrow> bool) \<Rightarrow> 'o list \<Rightarrow> 'm \<Rightarrow> 'r list \<Rightarrow> 'm \<Rightarrow> bool" where
  "spec_seq spc [] m rs m' = (rs = [] \<and> m' = m)"
| "spec_seq spc (x # xs) m rs m' = (\<exists>r rs' m1. rs = r # rs' \<and> spc x m r m1 \<and> spec_seq spc xs m1 rs' m')"

text \<open>What an implementation has to show for one operation, and what follows for all of them.\<close>

locale op_refinement =
  fixes run :: "'o \<Rightarrow> 'w \<Rightarrow> ('r \<times> 'w) option"
    and good :: "'w \<Rightarrow> bool"
    and view :: "'w \<Rightarrow> 'm"
    and legal :: "'o \<Rightarrow> bool"
    and spc :: "'o \<Rightarrow> 'm \<Rightarrow> 'r \<Rightarrow> 'm \<Rightarrow> bool"
  assumes step: "good w \<Longrightarrow> legal x \<Longrightarrow> \<exists>r w'. run x w = Some (r, w') \<and> good w' \<and> spc x (view w) r (view w')"
begin

lemma sessions:
  "good w \<Longrightarrow> \<forall>x \<in> set xs. legal x \<Longrightarrow>
   \<exists>rs w'. run_seq run xs w = Some (rs, w') \<and> good w' \<and> spec_seq spc xs (view w) rs (view w')"
proof (induction xs arbitrary: w)
  case Nil
  then show ?case by simp
next
  case (Cons x xs)
  obtain r w1 where 1: "run x w = Some (r, w1)" "good w1" "spc x (view w) r (view w1)"
    using step [OF Cons.prems(1), of x] Cons.prems(2) by auto
  obtain rs w' where "run_seq run xs w1 = Some (rs, w')" "good w'" "spec_seq spc xs (view w1) rs (view w')"
    using Cons.IH [OF 1(2)] Cons.prems(2) by auto
  with 1 show ?case by auto
qed

end

section \<open>The operations\<close>

datatype kv_op =
    KvStore zend_string zval "32 word" bool
  | KvFetch zend_string
  | KvExists zend_string
  | KvDelete zend_string
  | KvClear
  | KvInc zend_string i64 i64
  | KvCas zend_string i64 i64

datatype kv_res = Bool bool | Fetched "zval option" | Counted "i64 option" | Done

text \<open>Every operation reads the clock first, as the functions of the PHP interface do.\<close>

fun run_op :: "apc_env \<times> kv_op \<Rightarrow> world \<Rightarrow> (kv_res \<times> world) option" where
  "run_op (ev, KvStore key val ttl excl) w = do {
     (ok, w1) \<leftarrow> apc_cache_store ev key val ttl excl w;
     Some (Bool ok, w1)
   }"
| "run_op (ev, KvFetch key) w = do {
     let (t, g) = apc_time ev (glb w);
     (ok, dst, w1) \<leftarrow> apc_cache_fetch ev key t (upd_g g w);
     Some (Fetched (if ok then map_option fst dst else None), w1)
   }"
| "run_op (ev, KvExists key) w = do {
     let (t, g) = apc_time ev (glb w);
     (ok, w1) \<leftarrow> apc_cache_exists key t (upd_g g w);
     Some (Bool ok, w1)
   }"
| "run_op (ev, KvDelete key) w = do {
     (ok, w1) \<leftarrow> apc_cache_delete ev key w;
     Some (Bool ok, w1)
   }"
| "run_op (ev, KvClear) w = do {
     w1 \<leftarrow> apc_cache_clear ev w;
     Some (Done, w1)
   }"
| "run_op (ev, KvInc key stp ttl) w = do {
     (ok, args, w1) \<leftarrow> apc_cache_atomic_update_long ev key php_inc_updater \<lparr>ia_step = stp, ia_rval = 0\<rparr> True ttl w;
     Some (Counted (if ok then Some (ia_rval args) else None), w1)
   }"
| "run_op (ev, KvCas key old new) w = do {
     (ok, _, w1) \<leftarrow> apc_cache_atomic_update_long ev key php_cas_updater (old, new) False 0 w;
     Some (Bool ok, w1)
   }"

fun op_key :: "kv_op \<Rightarrow> zend_string" where
  "op_key (KvStore key _ _ _) = key"
| "op_key (KvFetch key) = key"
| "op_key (KvExists key) = key"
| "op_key (KvDelete key) = key"
| "op_key KvClear = mk_zstr []"
| "op_key (KvInc key _ _) = key"
| "op_key (KvCas key _ _) = key"

definition legal_op :: "apc_env \<times> kv_op \<Rightarrow> bool" where
  "legal_op eo \<longleftrightarrow> heap_ok (ev_rq (fst eo)) \<and> zs_ok (op_key (snd eo)) \<and> ZSTR_LEN (op_key (snd eo)) < SIZE_LIMIT - 200 \<and>
     (\<forall>key val ttl excl. snd eo = KvStore key val ttl excl \<longrightarrow> z_simple val)"

section \<open>The abstract store\<close>

type_synonym kv_map = "string \<Rightarrow> (zval \<times> i64 \<times> i64) option"

definition kv_live :: "i64 \<Rightarrow> kv_map \<Rightarrow> string \<Rightarrow> zval option" where
  "kv_live t m k = (case m k of None \<Rightarrow> None
     | Some (v, ttl, created) \<Rightarrow> if ttl \<noteq> 0 \<and> i64_less (created + ttl) t then None else Some v)"

text \<open>The integer under a key, if there is one.\<close>

definition kv_long :: "i64 \<Rightarrow> kv_map \<Rightarrow> string \<Rightarrow> i64 option" where
  "kv_long t m k = (case kv_live t m k of Some (IS_LONG i) \<Rightarrow> Some i | _ \<Rightarrow> None)"

definition kv_set :: "string \<Rightarrow> zval \<Rightarrow> kv_map \<Rightarrow> kv_map" where
  "kv_set k v m = m(k := map_option (\<lambda>(_, r). (v, r)) (m k))"

definition kv_store :: "i64 \<Rightarrow> string \<Rightarrow> zval \<Rightarrow> 32 word \<Rightarrow> bool \<Rightarrow> kv_map \<Rightarrow> bool \<Rightarrow> kv_map \<Rightarrow> bool" where
  "kv_store t k v ttl excl m ok m' \<longleftrightarrow> (\<exists>m1. m1 \<subseteq>\<^sub>m m \<and>
     (if ok then \<not> (excl \<and> kv_live t m1 k \<noteq> None) \<and> m' = m1(k \<mapsto> (v, scast ttl, t)) else m' = m1))"

definition kv_add :: "i64 \<Rightarrow> string \<Rightarrow> i64 \<Rightarrow> kv_map \<Rightarrow> i64 option \<Rightarrow> kv_map \<Rightarrow> bool" where
  "kv_add t k stp m r m' \<longleftrightarrow> (case kv_long t m k of
       Some i \<Rightarrow> r = Some (i + stp) \<and> m' = kv_set k (IS_LONG (i + stp)) m
     | None \<Rightarrow> r = None \<and> m' = m)"

fun kv_spec :: "apc_env \<times> kv_op \<Rightarrow> kv_map \<Rightarrow> kv_res \<Rightarrow> kv_map \<Rightarrow> bool" where
  "kv_spec (ev, KvStore key val ttl excl) m r m' =
     (\<exists>ok. r = Bool ok \<and> kv_store (ev_monotonic ev) (zs_val key) val ttl excl m ok m')"
| "kv_spec (ev, KvFetch key) m r m' = (r = Fetched (kv_live (ev_monotonic ev) m (zs_val key)) \<and> m' = m)"
| "kv_spec (ev, KvExists key) m r m' = (r = Bool (kv_live (ev_monotonic ev) m (zs_val key) \<noteq> None) \<and> m' = m)"
| "kv_spec (ev, KvDelete key) m r m' = (r = Bool (m (zs_val key) \<noteq> None) \<and> m' = m(zs_val key := None))"
| "kv_spec (ev, KvClear) m r m' = (r = Done \<and> m' = (\<lambda>_. None))"
| "kv_spec (ev, KvInc key stp ttl) m r m' =
     (\<exists>c m1. r = Counted c \<and> kv_add (ev_monotonic ev) (zs_val key) stp m1 c m' \<and>
        (if kv_live (ev_monotonic ev) m (zs_val key) \<noteq> None then m1 = m
         else \<exists>ok. kv_store (ev_monotonic ev) (zs_val key) (IS_LONG 0) (ucast ttl) True m ok m1))"
| "kv_spec (ev, KvCas key old new) m r m' =
     (case kv_long (ev_monotonic ev) m (zs_val key) of
        Some i \<Rightarrow> r = Bool (i = old) \<and> m' = (if i = old then kv_set (zs_val key) (IS_LONG new) m else m)
      | None \<Rightarrow> r = Bool False \<and> m' = m)"

section \<open>The refinement\<close>

definition kv_entry :: "apc_cache_entry_t \<Rightarrow> zval \<times> i64 \<times> i64" where
  "kv_entry e = (ce_val e, ce_ttl e, ce_ctime e)"

definition kv_of :: "(string \<Rightarrow> apc_cache_entry_t option) \<Rightarrow> kv_map" where
  "kv_of m k = map_option kv_entry (m k)"

definition kv_view :: "world \<Rightarrow> kv_map" where
  "kv_view w = kv_of (cmap (cch w))"

definition kv_scalar :: "kv_map \<Rightarrow> bool" where
  "kv_scalar m \<longleftrightarrow> (\<forall>k v a b. m k = Some (v, a, b) \<longrightarrow> z_simple v)"

definition kv_good :: "world \<Rightarrow> bool" where
  "kv_good w \<longleftrightarrow> cache_ready w \<and> lock_works w \<and> \<not> g_use_request_time (glb w) \<and> kv_scalar (kv_view w)"

lemma kv_goodD:
  assumes "kv_good w"
  shows "cache_ready w" "lock_works w" "apc_time ev (glb w) = (ev_monotonic ev, glb w)" "upd_g (glb w) w = w" "kv_scalar (kv_view w)"
  using assms by (auto simp: kv_good_def apc_time_def upd_g_def)

lemma kv_good_setup:
  assumes "kv_good w" "cache_ready w'" "same_setup ev w w'" "kv_scalar (kv_view w')"
  shows "kv_good w'"
  using assms same_setupD(3,9) [OF assms(3)] kv_goodD(3) [OF assms(1)]
  by (auto simp: kv_good_def tick_def)

lemma kv_good_config:
  "kv_good w \<Longrightarrow> cache_ready w' \<Longrightarrow> same_config ev w w' \<Longrightarrow> kv_scalar (kv_view w') \<Longrightarrow> kv_good w'"
  by (rule kv_good_setup [OF _ _ same_config_setup])

lemma kv_live_of: "kv_live t (kv_of m) k = map_option ce_val (live t m k)"
  by (auto simp: kv_live_def kv_of_def kv_entry_def live_def apc_cache_entry_hard_expired_def split: option.split)

lemma kv_of_upd [simp]: "kv_of (m(k \<mapsto> e)) = (kv_of m)(k \<mapsto> kv_entry e)" "kv_of (m(k := None)) = (kv_of m)(k := None)"
  "kv_of (\<lambda>_. None) = (\<lambda>_. None)"
  by (auto simp: kv_of_def)

lemma kv_of_sheds: "sheds P m m1 \<Longrightarrow> kv_of m1 \<subseteq>\<^sub>m kv_of m"
  unfolding sheds_def map_le_def kv_of_def by (metis (no_types, lifting) domIff map_option_is_None)

lemma kv_scalar_le: "m1 \<subseteq>\<^sub>m m \<Longrightarrow> kv_scalar m \<Longrightarrow> kv_scalar m1"
  unfolding kv_scalar_def map_le_def by (metis domI)

lemma kv_scalar_upd: "kv_scalar m \<Longrightarrow> z_simple v \<Longrightarrow> kv_scalar (m(k \<mapsto> (v, r)))"
  by (simp add: kv_scalar_def)

lemma kv_scalar_set: "kv_scalar m \<Longrightarrow> z_simple v \<Longrightarrow> kv_scalar (kv_set k v m)"
  by (auto simp: kv_scalar_def kv_set_def)

lemma kv_scalar_drop: "kv_scalar m \<Longrightarrow> kv_scalar (m(k := None))"
  by (auto simp: kv_scalar_def)

lemma kv_live_simple: "kv_scalar m \<Longrightarrow> kv_live t m k = Some v \<Longrightarrow> z_simple v"
  unfolding kv_scalar_def kv_live_def by (fastforce split: option.splits if_splits)

text \<open>One operation at a time.\<close>

lemma kv_store_step:
  assumes g: "kv_good w" and k: "zs_ok key" and v: "z_simple val" and h: "heap_ok (ev_rq ev)" and n: "ZSTR_LEN key < SIZE_LIMIT - 200"
  obtains ok w' where "apc_cache_store ev key val ttl excl w = Some (ok, w')" "kv_good w'"
    "kv_store (ev_monotonic ev) (zs_val key) val ttl excl (kv_view w) ok (kv_view w')"
proof -
  note gd = kv_goodD [OF g]
  have st: "storable ev (c_serializer (cch w)) (apc_cache_init_entry key val ttl (fst (apc_time ev (glb w))))"
    by (rule storable_simple) (use v h n in \<open>simp_all add: apc_cache_init_entry_def\<close>)
  obtain ok w' where s: "apc_cache_store ev key val ttl excl w = Some (ok, w')" "cache_ready w'" "same_setup ev w w'"
    "store_effect ev key val ttl excl w ok w'"
    by (rule apc_cache_store_ok [OF gd(1) k st])
  from s(4) obtain m where m: "sheds (\<lambda>_. True) (cmap (cch w)) m"
    "if ok then \<not> blocks_insert excl (ev_monotonic ev) (m (zs_val key)) \<and>
       (\<exists>e. fresh_entry key val ttl (ev_monotonic ev) e \<and> cmap (cch w') = m(zs_val key \<mapsto> e)) else cmap (cch w') = m"
    unfolding store_effect_def gd(3) by (cases ok) auto
  have le: "kv_of m \<subseteq>\<^sub>m kv_view w" unfolding kv_view_def by (rule kv_of_sheds [OF m(1)])
  have "kv_store (ev_monotonic ev) (zs_val key) val ttl excl (kv_view w) ok (kv_view w')"
  proof (cases ok)
    case True
    with m(2) obtain e where e: "\<not> blocks_insert excl (ev_monotonic ev) (m (zs_val key))"
      "fresh_entry key val ttl (ev_monotonic ev) e" "cmap (cch w') = m(zs_val key \<mapsto> e)" by auto
    have "kv_view w' = (kv_of m)(zs_val key \<mapsto> (val, scast ttl, ev_monotonic ev))"
      using e(2,3) v by (simp add: kv_view_def kv_entry_def fresh_entry_def)
    moreover have "\<not> (excl \<and> kv_live (ev_monotonic ev) (kv_of m) (zs_val key) \<noteq> None)"
      using e(1) by (auto simp: kv_live_of live_def blocks_insert_def split: option.splits)
    ultimately show ?thesis unfolding kv_store_def using True le by (intro exI [of _ "kv_of m"]) simp
  next
    case False
    then show ?thesis unfolding kv_store_def using m(2) le by (auto simp: kv_view_def)
  qed
  note sp = this
  then obtain m1 where m1: "m1 \<subseteq>\<^sub>m kv_view w" "kv_view w' = (if ok then m1(zs_val key \<mapsto> (val, scast ttl, ev_monotonic ev)) else m1)"
    unfolding kv_store_def by (auto split: if_splits)
  have "kv_scalar (kv_view w')" unfolding m1(2) using kv_scalar_le [OF m1(1) gd(5)] kv_scalar_upd [OF _ v] by simp
  from that [OF s(1) kv_good_setup [OF g s(2,3) this] sp] show ?thesis .
qed

definition kv_attempt :: "i64 \<Rightarrow> string \<Rightarrow> (i64 \<Rightarrow> 'd \<Rightarrow> bool \<times> i64 \<times> 'd) \<Rightarrow> 'd \<Rightarrow> kv_map \<Rightarrow>
    bool option \<Rightarrow> 'd \<Rightarrow> kv_map \<Rightarrow> bool" where
  "kv_attempt t k upd data m res data1 m' \<longleftrightarrow> (case kv_long t m k of
       None \<Rightarrow> res = (if kv_live t m k = None then None else Some False) \<and> data1 = data \<and> m' = m
     | Some i \<Rightarrow> res = Some (fst (upd i data)) \<and> data1 = snd (snd (upd i data)) \<and>
         m' = kv_set k (IS_LONG (fst (snd (upd i data)))) m)"

lemma kv_attempt_step:
  fixes ev :: apc_env
  assumes g: "kv_good w" and k: "zs_ok key"
  obtains res data1 w' where "atomic_update_attempt upd data key t w = Some (res, data1, w')" "kv_good w'"
    "kv_attempt t (zs_val key) upd data (kv_view w) res data1 (kv_view w')"
proof -
  note gd = kv_goodD [OF g]
  obtain res data1 w' where a: "atomic_update_attempt upd data key t w = Some (res, data1, w')" "cache_ready w'"
    "same_config ev w w'"
    "res = (if \<not> lock_works w then Some False
       else map_option (\<lambda>e. case ce_val e of IS_LONG i \<Rightarrow> fst (upd i data) | _ \<Rightarrow> False) (live t (cmap (cch w)) (zs_val key)))"
    "cmap (cch w') = (case (if lock_works w then live t (cmap (cch w)) (zs_val key) else None) of
       None \<Rightarrow> cmap (cch w)
     | Some e \<Rightarrow> (case ce_val e of
           IS_LONG i \<Rightarrow> (cmap (cch w))(zs_val key \<mapsto> e\<lparr>ce_val := IS_LONG (fst (snd (upd i data))), ce_mtime := t\<rparr>)
         | _ \<Rightarrow> cmap (cch w)))"
    "data1 = (case (if lock_works w then live t (cmap (cch w)) (zs_val key) else None) of
       None \<Rightarrow> data
     | Some e \<Rightarrow> (case ce_val e of IS_LONG i \<Rightarrow> snd (snd (upd i data)) | _ \<Rightarrow> data))"
    by (rule atomic_update_attempt_ok [OF gd(1) k])
  have eff: "kv_attempt t (zs_val key) upd data (kv_view w) res data1 (kv_view w')"
  proof (cases "live t (cmap (cch w)) (zs_val key)")
    case None
    then show ?thesis using a(4-6) gd(2) by (simp add: kv_attempt_def kv_long_def kv_view_def kv_live_of)
  next
    case (Some e)
    then have e: "cmap (cch w) (zs_val key) = Some e" by (simp add: live_Some)
    have view: "kv_view w' = (case ce_val e of
        IS_LONG i \<Rightarrow> kv_set (zs_val key) (IS_LONG (fst (snd (upd i data)))) (kv_view w) | _ \<Rightarrow> kv_view w)"
      using a(5) gd(2) Some e
      by (cases "ce_val e") (simp_all add: kv_view_def kv_set_def kv_of_def kv_entry_def fun_eq_iff)
    show ?thesis using a(4,6) gd(2) Some view by (cases "ce_val e") (simp_all add: kv_attempt_def kv_long_def kv_view_def kv_live_of)
  qed
  have "kv_scalar (kv_view w')"
    using eff gd(5) by (auto simp: kv_attempt_def split: option.splits intro: kv_scalar_set)
  from that [OF a(1) kv_good_config [OF g a(2,3) this] eff] show ?thesis .
qed

text \<open>An updater, with the insertion of a missing key.\<close>

definition kv_update :: "i64 \<Rightarrow> string \<Rightarrow> (i64 \<Rightarrow> 'd \<Rightarrow> bool \<times> i64 \<times> 'd) \<Rightarrow> 'd \<Rightarrow> bool \<Rightarrow> i64 \<Rightarrow> kv_map \<Rightarrow>
    bool \<Rightarrow> 'd \<Rightarrow> kv_map \<Rightarrow> bool" where
  "kv_update t k upd data ins ttl m b data1 m' \<longleftrightarrow>
     (\<exists>m1. (if kv_live t m k \<noteq> None \<or> \<not> ins then m1 = m
            else \<exists>ok. kv_store t k (IS_LONG 0) (ucast ttl) True m ok m1) \<and>
       (case kv_long t m1 k of
          Some i \<Rightarrow> b = fst (upd i data) \<and> data1 = snd (snd (upd i data)) \<and>
            m' = kv_set k (IS_LONG (fst (snd (upd i data)))) m1
        | None \<Rightarrow> \<not> b \<and> data1 = data \<and> m' = m1))"

lemma kv_update_step:
  assumes g: "kv_good w" and k: "zs_ok key" and h: "heap_ok (ev_rq ev)" and n: "ZSTR_LEN key < SIZE_LIMIT - 200"
  obtains b data1 w' where "apc_cache_atomic_update_long ev key upd data ins ttl w = Some (b, data1, w')" "kv_good w'"
    "kv_update (ev_monotonic ev) (zs_val key) upd data ins ttl (kv_view w) b data1 (kv_view w')"
proof -
  let ?t = "ev_monotonic ev" and ?k = "zs_val key"
  note gd = kv_goodD [OF g] and n0 = cache_readyD(1) [OF kv_goodD(1) [OF g]]
  obtain res data1 w1 where a: "atomic_update_attempt upd data key ?t w = Some (res, data1, w1)" "kv_good w1"
    "kv_attempt ?t ?k upd data (kv_view w) res data1 (kv_view w1)"
    by (rule kv_attempt_step [OF g k])
  show ?thesis
  proof (cases "kv_live ?t (kv_view w) ?k = None \<and> ins")
    case False
    have r: "apc_cache_atomic_update_long ev key upd data ins ttl w = Some (case res of None \<Rightarrow> False | Some b \<Rightarrow> b, data1, w1)"
      using a(1,3) False n0 by (auto simp: apc_cache_atomic_update_long_def gd(3,4) kv_attempt_def split: option.splits if_splits)
    show ?thesis
      by (rule that [OF r a(2)], unfold kv_update_def, rule exI [of _ "kv_view w"]) (use a(3) False in \<open>auto simp: kv_attempt_def split: option.splits\<close>)
  next
    case True
    then have res: "res = None" "data1 = data" "kv_view w1 = kv_view w" using a(3) by (simp_all add: kv_attempt_def kv_long_def)
    obtain ok w2 where s: "apc_cache_store ev key (IS_LONG 0) (ucast ttl) True w1 = Some (ok, w2)" "kv_good w2"
      "kv_store ?t ?k (IS_LONG 0) (ucast ttl) True (kv_view w1) ok (kv_view w2)"
      by (rule kv_store_step [where val = "IS_LONG 0" and ttl = "ucast ttl" and excl = True, OF a(2) k _ h n]) simp
    obtain res2 data2 w3 where b: "atomic_update_attempt upd data key ?t w2 = Some (res2, data2, w3)" "kv_good w3"
      "kv_attempt ?t ?k upd data (kv_view w2) res2 data2 (kv_view w3)"
      by (rule kv_attempt_step [OF s(2) k])
    have r: "apc_cache_atomic_update_long ev key upd data ins ttl w = Some (case res2 of None \<Rightarrow> False | Some b \<Rightarrow> b, data2, w3)"
      using a(1) s(1) b(1) True res n0 by (simp add: apc_cache_atomic_update_long_def gd(3,4) split: option.split)
    show ?thesis
      by (rule that [OF r b(2)], unfold kv_update_def, rule exI [of _ "kv_view w2"])
        (use s(3) b(3) True res in \<open>auto simp: kv_attempt_def split: option.splits\<close>)
  qed
qed

lemma kv_scalar_unpersist:
  assumes g: "kv_good w" and e: "cmap (cch w) k = Some e"
  shows "unpersist_entry ev w e = Some (True, ce_val e, ev_rq ev)"
proof -
  have s: "z_simple (ce_val e)" using kv_goodD(5) [OF g] e by (auto simp: kv_scalar_def kv_view_def kv_of_def kv_entry_def)
  then have u: "unpersist_zval (persist_fuel sh) b sh (ce_val e) ([], rq, gc) = Some (ce_val e, [], rq, gc)" for sh b rq gc
    by (simp add: persist_fuel_Suc)
  show ?thesis using s by (cases "ce_val e") (simp_all add: unpersist_entry_def apc_unpersist_def unpersist_value_def u [unfolded] persist_fuel_Suc)
qed

lemma kv_fetch_step:
  assumes g: "kv_good w" and k: "zs_ok key"
  obtains ret dst w' where "apc_cache_fetch ev key t w = Some (ret, dst, w')" "kv_good w'" "kv_view w' = kv_view w"
    "(if ret then map_option fst dst else None) = kv_live t (kv_view w) (zs_val key)"
proof -
  note gd = kv_goodD [OF g]
  have un: "\<forall>e. live t (cmap (cch w)) (zs_val key) = Some e \<longrightarrow> unpersist_entry ev w e \<noteq> None"
    using kv_scalar_unpersist [OF g] by (auto simp: live_Some)
  obtain ret dst w' where f: "apc_cache_fetch ev key t w = Some (ret, dst, w')" "cache_ready w'" "same_config ev w w'"
    "(ret, dst) = (case (if lock_works w then live t (cmap (cch w)) (zs_val key) else None) of
       None \<Rightarrow> (False, None)
     | Some e \<Rightarrow> (fst (the (unpersist_entry ev w e)), Some (snd (the (unpersist_entry ev w e)))))"
    "cmap (cch w') = (case (if lock_works w then live t (cmap (cch w)) (zs_val key) else None) of
       None \<Rightarrow> cmap (cch w) | Some e \<Rightarrow> (cmap (cch w))(zs_val key \<mapsto> hit t e))"
    by (rule apc_cache_fetch_ok [OF gd(1) k un])
  have v: "kv_view w' = kv_view w \<and> (if ret then map_option fst dst else None) = kv_live t (kv_view w) (zs_val key)"
  proof (cases "live t (cmap (cch w)) (zs_val key)")
    case None
    then show ?thesis using f(4,5) gd(2) by (simp add: kv_view_def kv_live_of)
  next
    case (Some e)
    then have e: "cmap (cch w) (zs_val key) = Some e" by (simp add: live_Some)
    have "kv_view w' = kv_view w"
      using f(5) gd(2) Some e by (auto simp: kv_view_def kv_of_def kv_entry_def hit_def fun_eq_iff)
    then show ?thesis using f(4) gd(2) Some kv_scalar_unpersist [OF g e, of ev] by (simp add: kv_view_def kv_live_of)
  qed
  then have "kv_scalar (kv_view w')" using gd(5) by simp
  from that [OF f(1) kv_good_config [OF g f(2,3) this]] v show ?thesis by simp
qed

lemma kv_step:
  assumes g: "kv_good w" and l: "legal_op x"
  shows "\<exists>r w'. run_op x w = Some (r, w') \<and> kv_good w' \<and> kv_spec x (kv_view w) r (kv_view w')"
proof -
  obtain ev cmd where x: "x = (ev, cmd)" by (cases x)
  note gd = kv_goodD [OF g]
  have lg: "heap_ok (ev_rq ev)" "zs_ok (op_key cmd)" "ZSTR_LEN (op_key cmd) < SIZE_LIMIT - 200"
    using l by (simp_all add: legal_op_def x)
  show ?thesis
  proof (cases cmd)
    case (KvStore key val ttl excl)
    have v: "z_simple val" using l KvStore by (simp add: legal_op_def x)
    obtain ok w' where "apc_cache_store ev key val ttl excl w = Some (ok, w')" "kv_good w'"
      "kv_store (ev_monotonic ev) (zs_val key) val ttl excl (kv_view w) ok (kv_view w')"
      by (rule kv_store_step [OF g _ v lg(1)]) (use lg KvStore in simp_all)
    then show ?thesis by (auto simp: x KvStore)
  next
    case (KvFetch key)
    obtain ret dst w' where "apc_cache_fetch ev key (ev_monotonic ev) w = Some (ret, dst, w')" "kv_good w'" "kv_view w' = kv_view w"
      "(if ret then map_option fst dst else None) = kv_live (ev_monotonic ev) (kv_view w) (zs_val key)"
      by (rule kv_fetch_step [OF g]) (use lg KvFetch in simp_all)
    then show ?thesis by (simp add: x KvFetch gd(3,4))
  next
    case (KvExists key)
    have "apc_cache_exists key (ev_monotonic ev) w =
        Some (kv_live (ev_monotonic ev) (kv_view w) (zs_val key) \<noteq> None, w)"
      using apc_cache_exists_ok [OF gd(1), of key "ev_monotonic ev"] lg(2) KvExists gd(2) by (simp add: kv_view_def kv_live_of)
    then show ?thesis using g by (simp add: x KvExists gd(3,4))
  next
    case (KvDelete key)
    then have k: "zs_ok key" using lg(2) by simp
    obtain b w' where d: "apc_cache_delete ev key w = Some (b, w')" "cache_ready w'" "same_config ev w w'"
      "b = (lock_works w \<and> cmap (cch w) (zs_val key) \<noteq> None)"
      "cmap (cch w') = (if lock_works w then (cmap (cch w))(zs_val key := None) else cmap (cch w))"
      by (rule apc_cache_delete_ok [OF gd(1) k])
    have v: "kv_view w' = (kv_view w)(zs_val key := None)" using d(5) gd(2) by (simp add: kv_view_def)
    then have "kv_scalar (kv_view w')" using gd(5) by (simp add: kv_scalar_drop)
    moreover have "kv_view w (zs_val key) = None \<longleftrightarrow> cmap (cch w) (zs_val key) = None" by (simp add: kv_view_def kv_of_def)
    ultimately show ?thesis using kv_good_config [OF g d(2,3)] d(1,4) v gd(2) by (auto simp: x KvDelete simp del: not_None_eq)
  next
    case KvClear
    obtain w' where c: "apc_cache_clear ev w = Some w'" "cache_ready w'" "same_config ev w w'"
      "cmap (cch w') = (if lock_works w then (\<lambda>_. None) else cmap (cch w))"
      by (rule apc_cache_clear_ok [OF gd(1)])
    have v: "kv_view w' = (\<lambda>_. None)" using c(4) gd(2) by (simp add: kv_view_def)
    then have "kv_scalar (kv_view w')" by (simp add: kv_scalar_def)
    from kv_good_config [OF g c(2,3) this] c(1) v show ?thesis by (simp add: x KvClear)
  next
    case (KvInc key stp ttl)
    obtain b args w' where u: "apc_cache_atomic_update_long ev key php_inc_updater \<lparr>ia_step = stp, ia_rval = 0\<rparr> True ttl w =
        Some (b, args, w')" "kv_good w'" "kv_update (ev_monotonic ev) (zs_val key) php_inc_updater \<lparr>ia_step = stp, ia_rval = 0\<rparr>
        True ttl (kv_view w) b args (kv_view w')"
      by (rule kv_update_step [where upd = php_inc_updater and data = "\<lparr>ia_step = stp, ia_rval = 0\<rparr>" and ins = True and ttl = ttl,
            OF g _ lg(1)]) (use lg KvInc in simp_all)
    from u(3) obtain m1 where m: "if kv_live (ev_monotonic ev) (kv_view w) (zs_val key) \<noteq> None then m1 = kv_view w
           else \<exists>ok. kv_store (ev_monotonic ev) (zs_val key) (IS_LONG 0) (ucast ttl) True (kv_view w) ok m1"
      "kv_add (ev_monotonic ev) (zs_val key) stp m1 (if b then Some (ia_rval args) else None) (kv_view w')"
      unfolding kv_update_def kv_add_def by (auto simp: php_inc_updater_def split: option.splits)
    have "kv_spec x (kv_view w) (Counted (if b then Some (ia_rval args) else None)) (kv_view w')"
      unfolding x KvInc kv_spec.simps using m by blast
    then show ?thesis using u(1,2) by (simp add: x KvInc)
  next
    case (KvCas key old new)
    obtain b args w' where u: "apc_cache_atomic_update_long ev key php_cas_updater (old, new) False 0 w =
        Some (b, args, w')" "kv_good w'"
      "kv_update (ev_monotonic ev) (zs_val key) php_cas_updater (old, new) False 0 (kv_view w) b args (kv_view w')"
      by (rule kv_update_step [where upd = php_cas_updater and data = "(old, new)" and ins = False and ttl = 0,
            OF g _ lg(1)]) (use lg KvCas in simp_all)
    have keep: "kv_long t m k = Some i \<Longrightarrow> kv_set k (IS_LONG i) m = m" for t m k i
      by (auto simp: kv_long_def kv_live_def kv_set_def split: option.splits zval.splits if_splits)
    have "kv_spec x (kv_view w) (Bool b) (kv_view w')"
      using u(3) keep by (auto simp: x KvCas kv_update_def php_cas_updater_def split: option.splits if_splits)
    then show ?thesis using u(1,2) by (auto simp: x KvCas)
  qed
qed

interpretation kv: op_refinement run_op kv_good kv_view legal_op kv_spec
  by unfold_locales (rule kv_step)


section \<open>Sessions\<close>

lemma tiny_good: "kv_good tiny_world"
proof -
  have "kv_view tiny_world = (\<lambda>_. None)" unfolding kv_view_def tiny_map by simp
  then show ?thesis
    using tiny_ready tiny_lock_works by (simp add: kv_good_def kv_scalar_def tiny_created(4)) (simp add: tiny_g_def)
qed

lemma tiny_legal: "zs_ok key \<Longrightarrow> ZSTR_LEN key < 100 \<Longrightarrow> op_key cmd = key \<Longrightarrow>
    (\<And>key val ttl excl. cmd = KvStore key val ttl excl \<Longrightarrow> z_simple val) \<Longrightarrow> legal_op (tiny_ev, cmd)"
  by (simp add: legal_op_def tiny_ev_def heap_ok_def hp_get_def SIZE_LIMIT_def)



text \<open>Integers that do not expire.\<close>

lemma kv_long_forever: "m k = Some (IS_LONG i, 0, c) \<Longrightarrow> kv_long t m k = Some i \<and> kv_live t m k = Some (IS_LONG i)"
  by (simp add: kv_long_def kv_live_def)

lemma kv_inc_seq:
  "spec_seq kv_spec (replicate n (ev, KvInc key stp ttl)) m rs m' \<Longrightarrow> m (zs_val key) = Some (IS_LONG i, 0, c) \<Longrightarrow>
   rs = map (\<lambda>j. Counted (Some (i + of_nat (Suc j) * stp))) [0..<n] \<and> m' (zs_val key) = Some (IS_LONG (i + of_nat n * stp), 0, c)"
proof (induction n arbitrary: m rs i)
  case (Suc n)
  note lv = kv_long_forever [of m "zs_val key" i c, OF Suc.prems(2)]
  from Suc.prems(1) obtain r rs' m1 where r: "rs = r # rs'" "kv_spec (ev, KvInc key stp ttl) m r m1"
    "spec_seq kv_spec (replicate n (ev, KvInc key stp ttl)) m1 rs' m'" by (auto simp del: kv_spec.simps)
  have r1: "r = Counted (Some (i + stp))" "m1 (zs_val key) = Some (IS_LONG (i + stp), 0, c)"
    using r(2) lv Suc.prems(2) by (auto simp: kv_add_def kv_set_def)
  have "map (\<lambda>j. Counted (Some (i + of_nat (Suc j) * stp))) [0..<Suc n] =
      Counted (Some (i + stp)) # map (\<lambda>j. Counted (Some (i + stp + of_nat (Suc j) * stp))) [0..<n]"
    unfolding upt_conv_Cons [OF zero_less_Suc] map_Suc_upt [symmetric] by (simp add: algebra_simps)
  with Suc.IH [OF r(3) r1(2)] r(1) r1(1) show ?case by (simp add: algebra_simps)
qed simp

text \<open>
  C20: Increments are not lost: \<open>n\<close> increments of an integer that does not expire return the
  successive sums and leave the value plus \<open>n\<close> times the step, modulo \<open>2 ^ 64\<close>, with the time to
  live and the creation time of the entry unchanged.
\<close>

theorem increments_add_up:
  assumes "kv_good w" "legal_op (ev, KvInc key stp ttl)" "kv_view w (zs_val key) = Some (IS_LONG i, 0, c)"
  shows "\<exists>w'. run_seq run_op (replicate n (ev, KvInc key stp ttl)) w =
      Some (map (\<lambda>j. Counted (Some (i + of_nat (Suc j) * stp))) [0..<n], w') \<and>
    kv_view w' (zs_val key) = Some (IS_LONG (i + of_nat n * stp), 0, c)"
proof -
  have "\<forall>x \<in> set (replicate n (ev, KvInc key stp ttl)). legal_op x" using assms(2) by simp
  from kv.sessions [OF assms(1) this] kv_inc_seq [of n ev key stp ttl "kv_view w" _ _ i c, OF _ assms(3)] show ?thesis by fast
qed

lemma tiny_stored:
  obtains w where "kv_good w" "kv_view w ''k'' = Some (IS_LONG i, 0, 500)"
    "apc_cache_store tiny_ev tiny_key (IS_LONG i) 0 False tiny_world = Some (True, w)"
proof -
  obtain w e where w: "apc_cache_store tiny_ev tiny_key (IS_LONG i) 0 False tiny_world = Some (True, w)" "cmap (cch w) = [''k'' \<mapsto> e]"
    "fresh_entry tiny_key (IS_LONG i) 0 500 e"
    by (rule tiny_store [of i 0 False])
  have v: "kv_view w ''k'' = Some (IS_LONG i, 0, 500)"
    using w(2,3) by (simp add: kv_view_def kv_of_def kv_entry_def fresh_entry_def)
  have "legal_op (tiny_ev, KvStore tiny_key (IS_LONG i) 0 False)" by (rule tiny_legal [of tiny_key]) (auto simp: ZSTR_LEN_def)
  from kv_step [OF tiny_good this] w(1) have "kv_good w" by auto
  from that [OF this v w(1)] show ?thesis .
qed

theorem increments_add_up_witness:
  "\<exists>w w'. apc_cache_store tiny_ev tiny_key (IS_LONG (- 1)) 0 False tiny_world = Some (True, w) \<and>
     run_seq run_op [(tiny_ev, KvInc tiny_key 3 0), (tiny_ev, KvInc tiny_key 3 0)] w = Some ([Counted (Some 2), Counted (Some 5)], w')"
proof -
  obtain w where w: "kv_good w" "kv_view w ''k'' = Some (IS_LONG (- 1), 0, 500)"
    "apc_cache_store tiny_ev tiny_key (IS_LONG (- 1)) 0 False tiny_world = Some (True, w)" by (rule tiny_stored)
  have l: "legal_op (tiny_ev, KvInc tiny_key 3 0)" by (rule tiny_legal [of tiny_key]) (simp_all add: ZSTR_LEN_def)
  have "kv_view w (zs_val tiny_key) = Some (IS_LONG (- 1), 0, 500)" using w(2) by simp
  from increments_add_up [OF w(1) l this, of 2] w(3) show ?thesis by (auto simp: numeral_2_eq_2)
qed

text \<open>
  Of two processes that swap the same expected integer for another one, the first succeeds
  and the second is refused and changes nothing.
\<close>

lemma cas_first_wins:
  assumes "kv_good w" "legal_op (ev1, KvCas key old new1)" "legal_op (ev2, KvCas key old new2)"
    "kv_view w (zs_val key) = Some (IS_LONG old, 0, c)" "new1 \<noteq> old"
  shows "\<exists>w'. run_seq run_op [(ev1, KvCas key old new1), (ev2, KvCas key old new2)] w = Some ([Bool True, Bool False], w') \<and>
    kv_view w' = (kv_view w)(zs_val key \<mapsto> (IS_LONG new1, 0, c))"
proof -
  let ?m1 = "(kv_view w)(zs_val key \<mapsto> (IS_LONG new1, 0, c))"
  have m1: "kv_set (zs_val key) (IS_LONG new1) (kv_view w) = ?m1" using assms(4) by (simp add: kv_set_def)
  obtain r1 w1 where 1: "run_op (ev1, KvCas key old new1) w = Some (r1, w1)" "kv_good w1"
    "kv_spec (ev1, KvCas key old new1) (kv_view w) r1 (kv_view w1)"
    using kv.step [OF assms(1,2)] by blast
  have r1: "r1 = Bool True" "kv_view w1 = ?m1"
    using 1(3) kv_long_forever [of "kv_view w" "zs_val key" old c "ev_monotonic ev1", OF assms(4)] m1 by simp_all
  obtain r2 w2 where 2: "run_op (ev2, KvCas key old new2) w1 = Some (r2, w2)" "kv_good w2"
    "kv_spec (ev2, KvCas key old new2) (kv_view w1) r2 (kv_view w2)"
    using kv.step [OF 1(2) assms(3)] by blast
  have v1: "kv_view w1 (zs_val key) = Some (IS_LONG new1, 0, c)" using r1(2) by simp
  have "r2 = Bool False" "kv_view w2 = kv_view w1"
    using 2(3) kv_long_forever [of "kv_view w1" "zs_val key" new1 c "ev_monotonic ev2", OF v1] assms(5) by simp_all
  then show ?thesis using 1(1) 2(1) r1 by (intro exI [of _ w2]) (simp del: run_op.simps)
qed

lemma cas_first_wins_witness:
  "\<exists>w w'. apc_cache_store tiny_ev tiny_key (IS_LONG 42) 0 False tiny_world = Some (True, w) \<and>
     run_seq run_op [(tiny_ev, KvCas tiny_key 42 43), (tiny_ev, KvCas tiny_key 42 44)] w = Some ([Bool True, Bool False], w')"
proof -
  obtain w where w: "kv_good w" "kv_view w ''k'' = Some (IS_LONG 42, 0, 500)"
    "apc_cache_store tiny_ev tiny_key (IS_LONG 42) 0 False tiny_world = Some (True, w)" by (rule tiny_stored)
  have l: "legal_op (tiny_ev, KvCas tiny_key 42 43)" "legal_op (tiny_ev, KvCas tiny_key 42 44)"
    by (rule tiny_legal [of tiny_key]; simp add: ZSTR_LEN_def)+
  have "kv_view w (zs_val tiny_key) = Some (IS_LONG 42, 0, 500)" using w(2) by simp
  from cas_first_wins [OF w(1) l this] w(3) show ?thesis by auto
qed

end
