(* ===== verification/Apc_Cache_Frame.thy ===== *)
theory Apc_Cache_Frame imports Apc_Cache_Update begin

text \<open>
  What the operations of one process leave alone for the others: an entry that somebody references
  stays where it is, linked or on the list of removed entries, and no block that stays allocated
  changes its size or its contents. The exception the code makes on purpose is the list of removed
  entries: after \<open>gc_ttl\<close> seconds an entry goes even when it is still referenced. \<open>patient\<close> says
  that this is not due.
\<close>

section \<open>The relation\<close>

definition all_of :: "apc_cache_t \<Rightarrow> apc_cache_entry_t set" where
  "all_of c = set (entries c) \<union> set (c_gc c)"

definition held :: "apc_cache_entry_t \<Rightarrow> bool" where
  "held e \<longleftrightarrow> i64_less 0 (ce_ref_count e)"

text \<open>The same entry later: integers are updated in place, other values never.\<close>

definition carries :: "apc_cache_entry_t \<Rightarrow> apc_cache_entry_t \<Rightarrow> bool" where
  "carries e e' \<longleftrightarrow> ce_addr e' = ce_addr e \<and> ce_ref_count e' = ce_ref_count e \<and>
     (ce_val e' = ce_val e \<or> (\<exists>i j. ce_val e = IS_LONG i \<and> ce_val e' = IS_LONG j))"

definition patient :: "apc_env \<Rightarrow> world \<Rightarrow> bool" where
  "patient ev w \<longleftrightarrow> \<not> i64_less (c_gc_ttl (cch w)) 0 \<and>
     (\<forall>e \<in> set (c_gc (cch w)). held e \<longrightarrow> \<not> gc_due (c_gc_ttl (cch w)) (ev_time ev) e)"

definition frame :: "apc_cache_entry_t set \<Rightarrow> nat set \<Rightarrow> world \<Rightarrow> world \<Rightarrow> bool" where
  "frame N P w w' \<longleftrightarrow>
     (\<forall>e \<in> all_of (cch w). held e \<longrightarrow> (\<exists>e' \<in> all_of (cch w'). carries e e')) \<and>
     (\<forall>e' \<in> all_of (cch w'). \<exists>e \<in> N \<union> all_of (cch w). carries e e') \<and>
     (\<forall>(a, l) \<in> sma_live (fst w'). a \<notin> P \<longrightarrow> (a, l) \<in> sma_live (fst w) \<and>
        (\<forall>x \<in> {a..<a + l}. hp_get (cs_shm (snd w')) x = hp_get (cs_shm (snd w)) x))"

definition evolves :: "apc_env \<Rightarrow> apc_cache_entry_t set \<Rightarrow> nat set \<Rightarrow> world \<Rightarrow> world \<Rightarrow> bool" where
  "evolves ev N P w w' \<longleftrightarrow> (patient ev w \<longrightarrow> patient ev w' \<and> frame N P w w')"

lemma carries_refl [simp]: "carries e e"
  by (simp add: carries_def)

lemma carries_trans: "carries e e1 \<Longrightarrow> carries e1 e2 \<Longrightarrow> carries e e2"
  unfolding carries_def by metis

lemma carries_held: "carries e e' \<Longrightarrow> held e' = held e"
  by (simp add: carries_def held_def)

lemma carries_dtime [simp]: "carries e (e\<lparr>ce_dtime := t\<rparr>)"
  by (simp add: carries_def)

lemma frameD:
  assumes "frame N P w w'"
  shows "e \<in> all_of (cch w) \<Longrightarrow> held e \<Longrightarrow> \<exists>e' \<in> all_of (cch w'). carries e e'"
    "e' \<in> all_of (cch w') \<Longrightarrow> \<exists>e \<in> N \<union> all_of (cch w). carries e e'"
    "(a, l) \<in> sma_live (fst w') \<Longrightarrow> a \<notin> P \<Longrightarrow> (a, l) \<in> sma_live (fst w)"
    "(a, l) \<in> sma_live (fst w') \<Longrightarrow> a \<notin> P \<Longrightarrow> x \<in> {a..<a + l} \<Longrightarrow> hp_get (cs_shm (snd w')) x = hp_get (cs_shm (snd w)) x"
  using assms unfolding frame_def by fastforce+

lemma frameI:
  assumes "\<And>e. e \<in> all_of (cch w) \<Longrightarrow> held e \<Longrightarrow> \<exists>e' \<in> all_of (cch w'). carries e e'"
    "\<And>e'. e' \<in> all_of (cch w') \<Longrightarrow> \<exists>e \<in> N \<union> all_of (cch w). carries e e'"
    "\<And>a l. (a, l) \<in> sma_live (fst w') \<Longrightarrow> a \<notin> P \<Longrightarrow> (a, l) \<in> sma_live (fst w) \<and>
       (\<forall>x \<in> {a..<a + l}. hp_get (cs_shm (snd w')) x = hp_get (cs_shm (snd w)) x)"
  shows "frame N P w w'"
  unfolding frame_def using assms by (intro conjI ballI impI) auto

lemma frame_trans:
  assumes f: "frame N P w w1" and f': "frame N' P' w1 w2"
  shows "frame (N \<union> N') (P \<union> P') w w2"
proof (rule frameI, goal_cases)
  case (1 e)
  then obtain e1 where e1: "e1 \<in> all_of (cch w1)" "carries e e1" using frameD(1) [OF f] by blast
  with 1 obtain e2 where "e2 \<in> all_of (cch w2)" "carries e1 e2"
    using frameD(1) [OF f'] carries_held [OF e1(2)] by blast
  with e1 show ?case by (blast intro: carries_trans)
next
  case (2 e2)
  obtain e1 where e1: "e1 \<in> N' \<union> all_of (cch w1)" "carries e1 e2" using frameD(2) [OF f' 2] by blast
  show ?case
  proof (cases "e1 \<in> N'")
    case False
    then obtain e where "e \<in> N \<union> all_of (cch w)" "carries e e1" using e1(1) frameD(2) [OF f] by blast
    with e1(2) show ?thesis by (blast intro: carries_trans)
  qed (use e1 in blast)
next
  case (3 a l)
  then have a: "(a, l) \<in> sma_live (fst w1)" "a \<notin> P" using frameD(3) [OF f'] by auto
  with 3 show ?case using frameD(3,4) [OF f a] frameD(4) [OF f' 3(1)] by auto
qed

lemma evolves_trans: "evolves ev N P w w1 \<Longrightarrow> evolves ev N' P' w1 w2 \<Longrightarrow> evolves ev (N \<union> N') (P \<union> P') w w2"
  unfolding evolves_def using frame_trans by blast

lemma evolves_trans0: "evolves ev {} {} w w1 \<Longrightarrow> evolves ev N P w1 w2 \<Longrightarrow> evolves ev N P w w2"
  using evolves_trans [of ev "{}" "{}" w w1 N P w2] by simp

lemma evolves_same:
  assumes "all_of (cch w') = all_of (cch w)" "c_gc (cch w') = c_gc (cch w)" "c_gc_ttl (cch w') = c_gc_ttl (cch w)"
    "fst w' = fst w" "cs_shm (snd w') = cs_shm (snd w)"
  shows "evolves ev {} {} w w'"
  using assms by (force simp: evolves_def patient_def frame_def)

lemma evolves_refl [simp]: "evolves ev {} {} w w"
  by (rule evolves_same) simp_all

lemma evolves_tab:
  assumes "c_slots (cch w') = c_slots (cch w)" "c_gc (cch w') = c_gc (cch w)" "c_gc_ttl (cch w') = c_gc_ttl (cch w)"
    "fst w' = fst w" "cs_shm (snd w') = cs_shm (snd w)"
  shows "evolves ev {} {} w w'"
  by (rule evolves_same) (use assms in \<open>simp_all add: all_of_def entries_def\<close>)

lemma evolves_relock [simp]: "evolves ev {} {} w (relock l d w)"
  by (rule evolves_tab) simp_all

lemma evolves_relocked:
  "evolves ev N P (relock l d w) w' \<Longrightarrow> evolves ev N P w (relock l' d' w')"
  using evolves_trans [OF evolves_trans0 [OF evolves_relock] evolves_relock, of ev N P l d w w' l' d'] by simp

section \<open>Removing entries\<close>

lemma remove_all_gc:
  "remove_all ev ds w = Some w' \<Longrightarrow>
   c_gc (cch w') = rev (map (\<lambda>e. e\<lparr>ce_dtime := ev_time ev\<rparr>) (filter held ds)) @ c_gc (cch w)"
proof (induction ds arbitrary: w)
  case (Cons d ds)
  from Cons.prems obtain w1 where w1: "apc_cache_wlocked_remove_entry ev d w = Some w1" "remove_all ev ds w1 = Some w'"
    by (auto split: Option.bind_splits)
  have "c_gc (cch w1) = (if held d then [d\<lparr>ce_dtime := ev_time ev\<rparr>] else []) @ c_gc (cch w)"
    using w1(1) by (auto simp: apc_cache_wlocked_remove_entry_def Let_def free_entry_def unaccount_simps held_def
        split: if_splits Option.bind_splits)
  with Cons.IH [OF w1(2)] show ?case by simp
qed simp

lemma not_due_now:
  assumes "held e" "\<not> i64_less g 0"
  shows "\<not> gc_due g (ev_time ev) (e\<lparr>ce_dtime := ev_time ev\<rparr>)"
  using assms by (auto simp: gc_due_def held_def Let_def i64_less_def)

lemma replace_evolves:
  assumes r: "remove_all ev ds w = Some w'" and c: "same_core w w'" and s: "s < length (c_slots (cch w))"
    and ms: "mset es' + mset ds = mset (c_slots (cch w) ! s) + mset ns"
    and f: "\<And>c. c_slots (f c) = c_slots c \<and> c_gc (f c) = c_gc c \<and> c_gc_ttl (f c) = c_gc_ttl c"
    and un: "set ds \<inter> set ns = {}"
  shows "evolves ev (set ns) {} w (upd_cache f (upd_cache (set_slot s es') w'))"
proof -
  let ?w = "upd_cache f (upd_cache (set_slot s es') w')" and ?m = "\<lambda>e. e\<lparr>ce_dtime := ev_time ev\<rparr>"
  note cc = same_coreD [OF c]
  have g: "c_gc (cch ?w) = rev (map ?m (filter held ds)) @ c_gc (cch w)"
    using remove_all_gc [OF r] f by (simp add: set_slot_def)
  have e: "entries (cch ?w) = concat ((c_slots (cch w))[s := es'])" "entries (cch w) = concat (c_slots (cch w))"
    using f cc by (simp_all add: entries_def set_slot_def)
  have "mset (entries (cch ?w)) + mset (c_slots (cch w) ! s) = mset (entries (cch w)) + mset es'"
    unfolding e by (rule mset_concat_update [OF s])
  then have "(mset (entries (cch ?w)) + mset ds) + mset (c_slots (cch w) ! s) = (mset (entries (cch w)) + mset ns) + mset (c_slots (cch w) ! s)"
    using ms by (metis (no_types, lifting) add.assoc add.commute)
  then have "mset (entries (cch ?w) @ ds) = mset (entries (cch w) @ ns)" by simp
  from mset_eq_setD [OF this] have m: "set (entries (cch ?w)) \<union> set ds = set (entries (cch w)) \<union> set ns" by simp
  then have dsub: "set ds \<subseteq> set (entries (cch w))" using un by auto
  have gt: "c_gc_ttl (cch ?w) = c_gc_ttl (cch w)" using f cc by (simp add: set_slot_def)
  show ?thesis
    unfolding evolves_def
  proof (intro impI conjI frameI, goal_cases)
    case 1
    then show ?case unfolding patient_def g gt using not_due_now carries_held [OF carries_dtime] by (auto simp: held_def)
  next
    case (2 x)
    show ?case
    proof (cases "x \<in> set (entries (cch ?w)) \<union> set (c_gc (cch w))")
      case True
      then show ?thesis unfolding all_of_def g by (intro bexI [of _ x]) auto
    next
      case False
      then have "x \<in> set ds" using 2 m unfolding all_of_def by blast
      then show ?thesis using 2(3) unfolding all_of_def g by (intro bexI [of _ "?m x"]) auto
    qed
  next
    case (3 x)
    then consider "x \<in> set (entries (cch w)) \<union> set ns" | "x \<in> set (c_gc (cch w))" | y where "y \<in> set ds" "x = ?m y"
      using m unfolding all_of_def g by auto
    then show ?case
    proof cases
      case (3 y)
      then show ?thesis using dsub unfolding all_of_def by (intro bexI [of _ y]) auto
    qed (auto simp: all_of_def intro: bexI [of _ x])
  next
    case (4 a l)
    then show ?case using cc by auto
  qed (use cc in simp)
qed

lemma gc_evolves:
  assumes h: "holds n A w" and g: "apc_cache_wlocked_gc ev w = Some w'"
  shows "evolves ev {} {} w w'"
proof -
  let ?P = "gc_due (c_gc_ttl (cch w)) (ev_time ev)"
  obtain w1 where w1: "apc_cache_wlocked_gc ev w = Some w1" "same_core w w1"
    "cch w1 = (cch w)\<lparr>c_gc := filter (\<lambda>e. \<not> ?P e) (c_gc (cch w))\<rparr>"
    by (rule apc_cache_wlocked_gc_ok [OF h])
  have e: "w' = w1" using g w1(1) by simp
  note c = same_coreD [OF w1(2)]
  have en: "entries (cch w') = entries (cch w)" "c_gc (cch w') = filter (\<lambda>e. \<not> ?P e) (c_gc (cch w))" "c_gc_ttl (cch w') = c_gc_ttl (cch w)"
    by (simp_all add: e w1(3) entries_def)
  show ?thesis
    unfolding evolves_def
  proof (intro impI conjI frameI, goal_cases)
    case 1
    then show ?case by (simp add: patient_def en)
  next
    case (2 x)
    then show ?case by (intro bexI [of _ x]) (auto simp: all_of_def en patient_def)
  next
    case (3 x)
    then show ?case by (intro bexI [of _ x]) (auto simp: all_of_def en)
  qed (use c in \<open>auto simp: e\<close>)
qed

section \<open>Insertion, deletion, expunge\<close>

lemma insert_evolves:
  assumes inv: "cache_inv X w" and new: "ce_addr new \<in> X"
    and key: "zs_h (ce_key new) = zend_inline_hash_func (zval_of_key new)"
    and i: "apc_cache_wlocked_insert ev new excl w = Some (ok, w')"
  shows "evolves ev (if ok then {new} else {}) {} w w'" "sma_live (fst w') \<subseteq> sma_live (fst w)" "ok \<Longrightarrow> new \<in> set (entries (cch w'))"
proof -
  obtain w1 where w1: "apc_cache_wlocked_gc ev w = Some w1" "cache_inv X w1" "same_core w w1"
    by (rule gc_inv [OF inv])
  let ?c = "cch w1" and ?v = "zval_of_key new"
  let ?s = "slot_of (c_nslots ?c) ?v"
  note tab = cache_invD(1) [OF w1(2)]
  have s: "?s < c_nslots ?c" by (rule slot_of_less [OF tab])
  have zk: "zs_ok (ce_key new)" "zs_val (ce_key new) = ?v" using key by (simp_all add: zs_ok_def zval_of_key_def)
  have sk: "slot_ok (c_nslots ?c) ?s [new]" using key by (simp add: slot_ok_def slot_of_def)
  obtain ok1 es' ds where ch: "insert_chain new excl (ZSTR_HASH (ce_key new)) (c_ttl ?c) (c_slots ?c ! ?s) = (ok1, es', ds)"
    by (metis prod_cases3)
  note chs = insert_chain_spec [OF table_okD(3) [OF tab s] ch sk]
  let ?f = "\<lambda>c. if ok then c\<lparr>c_mem_size := c_mem_size c + ce_mem_size new, c_nentries := c_nentries c + 1,
    c_ninserts := c_ninserts c + 1\<rparr> else c"
  obtain w2 where r: "ok1 = ok" "remove_all ev ds w1 = Some w2" "w' = upd_cache ?f (upd_cache (set_slot ?s es') w2)"
    using i w1(1) ch zk by (auto simp: apc_cache_wlocked_insert_def apc_cache_hash_slot_of insert_walk_pure Let_def split: Option.bind_splits)
  obtain w3 where "remove_all ev ds w1 = Some w3" "same_core w1 w3"
    by (rule replace_chain [OF w1(2) s chs(2,1), of "\<lambda>c. c\<lparr>c_nentries := c_nentries c + of_nat (length (if ok1 then [new] else []))\<rparr>"])
      (use new chs(3) in \<open>auto split: if_splits simp: bump_def\<close>)
  with r(2) have sc: "same_core w1 w2" by simp
  have nd: "new \<notin> set ds"
  proof
    assume "new \<in> set ds"
    then have "new \<in> set (entries ?c)" using chs(3) entries_in_slot [of ?s ?c new] s table_okD(2) [OF tab] by auto
    then show False using new cache_invD(2) [OF w1(2)] by (auto simp: addrs_def)
  qed
  have sl: "?s < length (c_slots ?c)" using s table_okD(2) [OF tab] by simp
  have "evolves ev (set (if ok1 then [new] else [])) {} w1 w'"
    unfolding r(3) by (rule replace_evolves [OF r(2) sc sl chs(2)]) (use nd in auto)
  then show "evolves ev (if ok then {new} else {}) {} w w'"
    using evolves_trans0 [OF gc_evolves [OF cache_invD(3) [OF inv] w1(1)]] r(1) by (cases ok) simp_all
  show "sma_live (fst w') \<subseteq> sma_live (fst w)" using same_coreD(13) [OF sc] same_coreD(13) [OF w1(3)] by (simp add: r(3))
  show "new \<in> set (entries (cch w'))" if ok
  proof -
    have "mset es' + mset ds = mset (c_slots ?c ! ?s) + mset [new]" using chs(2) r(1) that by simp
    from arg_cong [OF this, of set_mset] have "new \<in> set es'" using nd by auto
    moreover have "c_slots (cch w') ! ?s = es'" using that same_coreD(1) [OF sc] sl by (simp add: r(3) set_slot_def)
    moreover have "?s < length (c_slots (cch w'))" using that same_coreD(1) [OF sc] sl by (simp add: r(3) set_slot_def)
    ultimately show ?thesis using entries_in_slot by blast
  qed
qed

lemma drop_slots_evolves:
  assumes "cache_inv X w" "set is \<subseteq> {..<c_nslots (cch w)}" "drop_slots P ev is w = Some w'"
  shows "evolves ev {} {} w w'"
  using assms
proof (induction "is" arbitrary: w)
  case (Cons i "is")
  let ?c = "cch w"
  let ?ds = "filter P (c_slots ?c ! i)" and ?es = "filter (\<lambda>e. \<not> P e) (c_slots ?c ! i)"
  note tab = cache_invD(1) [OF Cons.prems(1)]
  have i: "i < c_nslots ?c" using Cons.prems(2) by simp
  note fc = filter_chain [OF table_okD(3) [OF tab i], of "\<lambda>e. \<not> P e"]
  have ms: "mset ?es + mset ?ds = mset (c_slots ?c ! i) + mset []"
    using multiset_partition [of "mset (c_slots ?c ! i)" P] by (simp add: add.commute)
  obtain w1 where w1: "remove_all ev ?ds w = Some w1" "same_core w w1"
    "cache_inv X (upd_cache (\<lambda>c. c) (upd_cache (set_slot i ?es) w1))"
    by (rule replace_chain [OF Cons.prems(1) i ms fc(1), of "\<lambda>c. c"]) (simp_all add: bump_def)
  have sl: "i < length (c_slots ?c)" using i table_okD(2) [OF tab] by simp
  have e: "evolves ev {} {} w (upd_cache (set_slot i ?es) w1)"
    using replace_evolves [OF w1(1,2) sl ms, of "\<lambda>c. c"] by simp
  have d: "drop_slots P ev is (upd_cache (set_slot i ?es) w1) = Some w'" using Cons.prems(3) w1(1) by simp
  show ?case
    by (rule evolves_trans0 [OF e Cons.IH [OF _ _ d]])
      (use w1(3) Cons.prems(2) same_coreD(2) [OF w1(2)] in \<open>simp_all add: set_slot_def\<close>)
qed simp

lemma real_expunge_evolves:
  assumes inv: "cache_inv X w" and r: "apc_cache_wlocked_real_expunge ev w = Some w'"
  shows "evolves ev {} {} w w'"
proof -
  let ?w1 = "upd_cache (\<lambda>c. c\<lparr>c_nexpunges := c_nexpunges c + 1\<rparr>) w"
  have iv: "cache_inv X ?w1" using inv cache_inv_cong [of ?w1 w X] by simp
  from r obtain w2 where d: "drop_slots (\<lambda>_. True) ev [0..<c_nslots (cch ?w1)] ?w1 = Some w2"
    and c: "c_slots (cch w') = c_slots (cch w2)" "c_gc (cch w') = c_gc (cch w2)" "c_gc_ttl (cch w') = c_gc_ttl (cch w2)"
      "fst w' = fst w2" "cs_shm (snd w') = cs_shm (snd w2)"
    by (auto simp: apc_cache_wlocked_real_expunge_def remove_slots_drop Let_def case_prod_unfold split: Option.bind_splits)
  have "evolves ev {} {} w ?w1" by (rule evolves_tab) simp_all
  moreover have "evolves ev {} {} ?w1 w2" by (rule drop_slots_evolves [OF iv _ d]) auto
  moreover have "evolves ev {} {} w2 w'" by (rule evolves_tab) (use c in simp_all)
  ultimately show ?thesis by (blast intro: evolves_trans0)
qed

text \<open>Taking and releasing the lock changes nothing else.\<close>

definition same_tab :: "world \<Rightarrow> world \<Rightarrow> bool" where
  "same_tab w w' \<longleftrightarrow> (\<exists>l g. w' = upd_g g (upd_cache (\<lambda>c. c\<lparr>c_lock := l\<rparr>) w))"

lemma same_tabD:
  assumes "same_tab w w'"
  shows "evolves ev {} {} w w'" "cache_inv X w' = cache_inv X w" "c_nslots (cch w') = c_nslots (cch w)"
    "c_slots (cch w') = c_slots (cch w)" "c_gc (cch w') = c_gc (cch w)" "c_ttl (cch w') = c_ttl (cch w)"
    "c_serializer (cch w') = c_serializer (cch w)" "fst w' = fst w" "cs_shm (snd w') = cs_shm (snd w)"
proof -
  show "evolves ev {} {} w w'" by (rule evolves_tab) (use assms in \<open>auto simp: same_tab_def\<close>)
  show "cache_inv X w' = cache_inv X w" by (rule cache_inv_cong) (use assms in \<open>auto simp: same_tab_def\<close>)
qed (use assms in \<open>auto simp: same_tab_def\<close>)

lemma same_tab_id: "same_tab w w"
proof -
  have "w = upd_g (glb w) (upd_cache (\<lambda>c. c\<lparr>c_lock := c_lock (cch w)\<rparr>) w)"
    by (cases w) (simp add: upd_g_def upd_cache_def)
  then show ?thesis unfolding same_tab_def by blast
qed

lemma lock_steps:
  "apc_cache_wlock w = Some (ok, w') \<Longrightarrow> same_tab w w'" "apc_cache_rlock w = Some (ok, w') \<Longrightarrow> same_tab w w'"
  "apc_cache_wunlock w = Some w' \<Longrightarrow> same_tab w w'" "apc_cache_runlock w = Some w' \<Longrightarrow> same_tab w w'"
  by (auto simp: apc_cache_wlock_def apc_cache_rlock_def apc_cache_wunlock_def apc_cache_runlock_def same_tab_id
      split: if_splits Option.bind_splits prod.splits) (auto simp: same_tab_def)

lemma same_tab_clock: "same_tab w (upd_g g w)"
proof -
  have "upd_g g w = upd_g g (upd_cache (\<lambda>c. c\<lparr>c_lock := c_lock (cch w)\<rparr>) w)" by (cases w) (simp add: upd_g_def upd_cache_def)
  then show ?thesis unfolding same_tab_def by blast
qed

lemma make_room_evolves:
  assumes inv: "cache_inv X w" and r: "make_room low ev t sz w = Some w'"
  shows "evolves ev {} {} w w'"
proof (cases "c_ttl (cch w) = 0 \<or> \<not> low")
  case True
  then have "w' = w \<or> apc_cache_wlocked_real_expunge ev w = Some w'" using r by (auto simp: make_room_def split: if_splits)
  then show ?thesis by (elim disjE) (simp, rule real_expunge_evolves [OF inv])
next
  case False
  let ?P = "\<lambda>e. apc_cache_entry_expired (c_ttl (cch w)) e t"
  from r False obtain w4 where j: "junk_slots ev t [0..<c_nslots (cch w)] w = Some w4"
    and o: "w' = upd_cache (\<lambda>c. c\<lparr>c_lastkey := no_slam_key\<rparr>) w4 \<or> apc_cache_wlocked_real_expunge ev w4 = Some w'"
    by (cases "junk_slots ev t [0..<c_nslots (cch w)] w") (simp_all add: make_room_def split: if_splits)
  have d: "drop_slots ?P ev [0..<c_nslots (cch w)] w = Some w4" using j by (simp add: junk_slots_drop)
  have e: "evolves ev {} {} w w4" by (rule drop_slots_evolves [OF inv _ d]) auto
  obtain w5 where "drop_slots ?P ev [0..<c_nslots (cch w)] w = Some w5" "cache_inv X w5" by (rule drop_all_ok [OF inv])
  then have i4: "cache_inv X w4" using d by simp
  have "evolves ev {} {} w4 w'"
    using o
  proof
    assume "w' = upd_cache (\<lambda>c. c\<lparr>c_lastkey := no_slam_key\<rparr>) w4"
    then show ?thesis by (intro evolves_tab) simp_all
  qed (rule real_expunge_evolves [OF i4])
  then show ?thesis by (rule evolves_trans0 [OF e])
qed

lemma default_expunge_evolves:
  assumes inv: "cache_inv X w" and r: "apc_cache_default_expunge ev w n = Some w'"
  shows "evolves ev {} {} w w'"
proof (cases "cs_null (snd w)")
  case False
  let ?w0 = "upd_g (snd (apc_time ev (glb w))) w"
  from r False obtain ok w1 where lk: "apc_cache_wlock ?w0 = Some (ok, w1)"
    and rest: "(if \<not> ok then Some w1
        else do {
          w2 \<leftarrow> apc_cache_wlocked_gc ev w1;
          w3 \<leftarrow> make_room (apc_sma_get_avail_mem (fst w2) < expunge_suitable w1 n) ev (fst (apc_time ev (glb w))) n w2;
          apc_cache_wunlock w3
        }) = Some w'"
    unfolding default_expunge_split by (auto simp: Option.bind_eq_Some_conv)
  note s0 = same_tabD [OF same_tab_clock [of w "snd (apc_time ev (glb w))"]] and s1 = same_tabD [OF lock_steps(1) [OF lk]]
  have i1: "cache_inv X w1" using inv s0(2) s1(2) by simp
  have e1: "evolves ev {} {} w w1" by (rule evolves_trans0 [OF s0(1) s1(1)])
  show ?thesis
  proof (cases ok)
    case True
    with rest obtain w2 w3 low where g: "apc_cache_wlocked_gc ev w1 = Some w2"
      and x: "make_room low ev (fst (apc_time ev (glb w))) n w2 = Some w3" and u: "apc_cache_wunlock w3 = Some w'"
      by (auto simp: Option.bind_eq_Some_conv)
    obtain w2' where "apc_cache_wlocked_gc ev w1 = Some w2'" "cache_inv X w2'" by (rule gc_inv [OF i1])
    with g have i2: "cache_inv X w2" by simp
    show ?thesis
      by (rule evolves_trans0 [OF e1 evolves_trans0 [OF gc_evolves [OF cache_invD(3) [OF i1] g]
            evolves_trans0 [OF make_room_evolves [OF i2 x] same_tabD(1) [OF lock_steps(3) [OF u]]]]])
  qed (use rest e1 in simp)
qed (use r in \<open>simp add: apc_cache_default_expunge_def\<close>)

end
