(* ===== verification/Apc_Cache_Frame_Ops.thy ===== *)
theory Apc_Cache_Frame_Ops imports Apc_Cache_Frame begin

text \<open>
  The operations of the cache, allocation and persisting included, with respect to \<open>frame\<close>.
\<close>

section \<open>Allocation\<close>

lemma evolves_gone:
  assumes "evolves ev N {p} w w'" and p: "p \<notin> fst ` sma_live (fst w')"
  shows "evolves ev N {} w w'"
proof -
  have "frame N {} w w'" if f: "frame N {p} w w'"
  proof (rule frameI)
    fix a l assume l: "(a, l) \<in> sma_live (fst w')"
    with p have "a \<notin> {p}" by force
    then show "(a, l) \<in> sma_live (fst w) \<and> (\<forall>x \<in> {a..<a + l}. hp_get (cs_shm (snd w')) x = hp_get (cs_shm (snd w)) x)"
      using frameD(3,4) [OF f l] by blast
  qed (use frameD(1,2) [OF f] in blast)+
  then show ?thesis using assms(1) by (simp add: evolves_def)
qed

lemma malloc_evolves:
  assumes inv: "cache_inv X w" and lk: "lock_ready w" and nn: "\<not> cs_null (snd w)" and n: "n + 39 < SIZE_LIMIT"
    and m: "cache_malloc ev w n = Some (p, w')"
  obtains (none) "p = 0" "evolves ev {} {} w w'"
  | (some) l where "p \<noteq> 0" "evolves ev {} {p} w w'" "n \<le> l" "(p, l) \<in> sma_live (fst w')" "sma_ok (fst w')"
proof -
  let ?I = "\<lambda>s. shed_from X ev w s \<and> evolves ev {} {} w s"
  note ek = expunge_keeps_cache [OF lk nn, of X ev]
  have ex: "expunge_keeps ?I (apc_cache_default_expunge ev)"
    unfolding expunge_keeps_def
  proof (intro conjI allI impI)
    fix s k assume s: "?I s"
    then show "sma_ok (fst s)" using ek unfolding expunge_keeps_def by blast
    obtain s' where s': "apc_cache_default_expunge ev s k = Some s'" "shed_from X ev w s'" "sma_frame (fst s') = sma_frame (fst s)"
      using ek s unfolding expunge_keeps_def by blast
    have "cache_inv X s" using s by (simp add: shed_from_def)
    from default_expunge_evolves [OF this s'(1)] s have "evolves ev {} {} w s'" by (blast intro: evolves_trans0)
    with s' show "\<exists>s'. apc_cache_default_expunge ev s k = Some s' \<and> ?I s' \<and> sma_frame (fst s') = sma_frame (fst s)" by blast
  qed
  have I: "?I w" using inv by (simp add: shed_from_def)
  note mm = m [unfolded cache_malloc_def apc_sma_malloc_def]
  show ?thesis
  proof (cases rule: apc_sma_malloc_ex_ok [OF ex I n, of 0])
    case (1 i s')
    then show ?thesis using none mm by simp
  next
    case (2 s')
    then show ?thesis using none mm by simp
  next
    case (3 q l s0 sma')
    have w': "p = q" "w' = (sma', snd s0)" using 3(1) mm by simp_all
    have g: "sma_ok sma'" "q \<noteq> 0" "n \<le> l" "sma_live sma' = insert (q, l) (sma_live (fst s0))"
      using 3(4) by (simp_all add: sma_gave_def)
    have "evolves ev {} {p} s0 w'"
      unfolding evolves_def w'
    proof (intro impI conjI frameI, goal_cases)
      case (2 e)
      then show ?case by (intro bexI [of _ e]) simp_all
    next
      case (3 e)
      then show ?case by (intro bexI [of _ e]) simp_all
    qed (use g in \<open>auto simp: patient_def\<close>)
    with 3(2) have "evolves ev {} {p} w w'" by (blast intro: evolves_trans0)
    with g show ?thesis by (intro some [of l]) (simp_all add: w')
  qed
qed

section \<open>Entries and their values\<close>

text \<open>The value of the entry lies in the block of the entry, as some request stored it.\<close>

definition imaged :: "world \<Rightarrow> apc_cache_entry_t \<Rightarrow> bool" where
  "imaged w e \<longleftrightarrow> (\<exists>ser rq v l. heap_ok rq \<and> top_ok rq v \<and> (ce_addr e, l) \<in> sma_live (fst w) \<and>
     stored_as ser (c_serializer (cch w)) rq v (hp_get (cs_shm (snd w)) |` {ce_addr e..<ce_addr e + l}) (ce_val e))"

lemma restrict_same:
  "(\<And>x. x \<in> A \<Longrightarrow> m' x = m x) \<Longrightarrow> m' |` A = m |` A"
  by (auto simp: restrict_map_def)

lemma stored_long: "heap_ok [] \<and> top_ok [] (IS_LONG i) \<and> stored_as ser srz [] (IS_LONG i) m (IS_LONG i)"
proof -
  have "same_graph Map.empty (hp_get []) m \<and> tr Map.empty (IS_LONG i) = Some (IS_LONG i)" by simp
  then have "stored_as ser srz [] (IS_LONG i) m (IS_LONG i)"
    unfolding stored_as_def by (intro disjI1 conjI exI [of _ Map.empty]) simp_all
  then show ?thesis by (simp add: heap_ok_def top_ok_def zv_ok_def hp_get_def)
qed

lemma imaged_carried:
  assumes im: "imaged w e" and ok: "sma_ok (fst w)" and f: "frame N P w w'" and c: "carries e e'" and P: "ce_addr e' \<notin> P"
    and lv: "ce_addr e' \<in> fst ` sma_live (fst w')" and s: "c_serializer (cch w') = c_serializer (cch w)"
  shows "imaged w' e'"
proof -
  have a: "ce_addr e' = ce_addr e" using c by (simp add: carries_def)
  from im obtain ser rq v l where i: "heap_ok rq" "top_ok rq v" "(ce_addr e, l) \<in> sma_live (fst w)"
    "stored_as ser (c_serializer (cch w)) rq v (hp_get (cs_shm (snd w)) |` {ce_addr e..<ce_addr e + l}) (ce_val e)"
    by (auto simp: imaged_def)
  from lv obtain l' where l': "(ce_addr e, l') \<in> sma_live (fst w')" by (auto simp: a)
  have "(ce_addr e, l') \<in> sma_live (fst w)" using frameD(3) [OF f l'] P a by simp
  then have l: "l' = l" using sma_live_functional [OF ok] i(3) by blast
  have m: "hp_get (cs_shm (snd w')) |` {ce_addr e..<ce_addr e + l} = hp_get (cs_shm (snd w)) |` {ce_addr e..<ce_addr e + l}"
    by (rule restrict_same, rule frameD(4) [OF f l' [unfolded l]]) (use P a in auto)
  show ?thesis
  proof (cases "ce_val e' = ce_val e")
    case True
    then show ?thesis using i l' m unfolding imaged_def a s l by metis
  next
    case False
    then obtain j where "ce_val e' = IS_LONG j" using c by (auto simp: carries_def)
    then show ?thesis using l' stored_long unfolding imaged_def a by metis
  qed
qed

section \<open>Persisting\<close>

lemma persist_image_below:
  assumes st: "storable ev srz orig"
    and r: "apc_persist (php_apc_serializer (ev_php_var_serialize ev)) malloc srz (ev_rq ev) orig (s, sh) = Some (Some e, s1, sh')"
  obtains n where "n + 39 < SIZE_LIMIT" "malloc s n = Some (ce_addr e, s1)" "0 < ce_addr e" "ce_ref_count e = ce_ref_count orig"
    "\<forall>x. x \<notin> {ce_addr e..<ce_addr e + n} \<longrightarrow> hp_get sh' x = hp_get sh x"
    "stored_as (php_apc_serializer (ev_php_var_serialize ev)) srz (ev_rq ev) (ce_val orig) (hp_get sh' |` {ce_addr e..<ce_addr e + n}) (ce_val e)"
proof -
  let ?ser = "php_apc_serializer (ev_php_var_serialize ev)"
  have st': "heap_ok (ev_rq ev)" "top_ok (ev_rq ev) (ce_val orig)" "persist_below (SIZE_LIMIT - 39) ?ser srz (ev_rq ev) orig"
    using st by (simp_all add: storable_def)
  from r obtain cx p e0 cx2 where sz: "persist_size ?ser srz (ev_rq ev) orig = Some (Some cx)"
    and m: "malloc s (cx_size cx) = Some (p, s1)" and p: "0 < p"
    and c: "apc_persist_copy (persist_fuel (ev_rq ev)) (ev_rq ev) orig (cx\<lparr>cx_alloc := p, cx_alloc_cur := p\<rparr>, sh) = Some (e0, cx2, sh')"
    and e: "e = e0\<lparr>ce_mem_size := of_nat (cx_size cx)\<rparr>"
    by (auto simp: apc_persist_def split: Option.bind_splits option.splits if_splits)
  have b: "cx_size cx < SIZE_LIMIT - 39" using st'(3) sz by (simp add: persist_below_def)
  then have b': "cx_size cx + 39 < SIZE_LIMIT" by simp
  have a: "ce_addr e = p" "ce_val e = ce_val e0" "ce_ref_count e = ce_ref_count orig"
    using apc_persist_copy_entry [OF c] e by auto
  note im = entry_image [OF st'(1,2) p sz c]
  show ?thesis by (rule that [OF b']) (use m p a im in simp_all)
qed

lemma persist_evolves:
  assumes inv: "cache_inv X w" and lk: "lock_ready w" and nn: "\<not> cs_null (snd w)"
    and st: "storable ev (c_serializer (cch w)) orig" and r: "cache_persist ev orig w = Some (Some e, w')"
    and pt: "patient ev w"
  shows "evolves ev {} {ce_addr e} w w'" "imaged w' e" "ce_ref_count e = ce_ref_count orig"
proof -
  let ?ser = "php_apc_serializer (ev_php_var_serialize ev)"
  from r obtain s1 sh' where p: "apc_persist ?ser (cache_malloc ev) (c_serializer (cch w)) (ev_rq ev) orig (w, cs_shm (snd w)) =
      Some (Some e, s1, sh')" and w': "w' = set_shm sh' s1"
    by (auto simp: cache_persist_def set_shm_def split: Option.bind_splits)
  obtain n where n: "n + 39 < SIZE_LIMIT" "cache_malloc ev w n = Some (ce_addr e, s1)" "0 < ce_addr e" "ce_ref_count e = ce_ref_count orig"
    "\<forall>x. x \<notin> {ce_addr e..<ce_addr e + n} \<longrightarrow> hp_get sh' x = hp_get (cs_shm (snd w)) x"
    "stored_as ?ser (c_serializer (cch w)) (ev_rq ev) (ce_val orig) (hp_get sh' |` {ce_addr e..<ce_addr e + n}) (ce_val e)"
    by (rule persist_image_below [OF st p])
  show "ce_ref_count e = ce_ref_count orig" by (rule n(4))
  obtain l where l: "evolves ev {} {ce_addr e} w s1" "n \<le> l" "(ce_addr e, l) \<in> sma_live (fst s1)" "sma_ok (fst s1)"
    by (rule malloc_evolves [OF inv lk nn n(1,2)]) (use n(3) in auto)
  have sc: "shed_from (insert (ce_addr e) X) ev w s1"
    by (rule cache_malloc_ok [OF inv lk nn n(1), of ev]) (use n(2,3) in auto)
  then have sh: "cs_shm (snd s1) = cs_shm (snd w)" "c_serializer (cch s1) = c_serializer (cch w)"
    using same_configD(6,10) [of ev w s1] by (simp_all add: shed_from_def)
  have far: "x \<notin> {ce_addr e..<ce_addr e + n}" if "(a, k) \<in> sma_live (fst s1)" "a \<noteq> ce_addr e" "x \<in> {a..<a + k}" for a k x
    using sma_live_disjoint [OF l(4) that(1) l(3) that(2)] that(3) l(2) by auto
  have "evolves ev {} {ce_addr e} s1 w'"
    unfolding evolves_def
  proof (intro impI conjI frameI, goal_cases)
    case (2 y)
    then show ?case by (intro bexI [of _ y]) (simp_all add: w')
  next
    case (3 y)
    then show ?case by (intro bexI [of _ y]) (simp_all add: w')
  qed (use n(5) far sh in \<open>auto simp: w' patient_def\<close>)
  then show "evolves ev {} {ce_addr e} w w'" using evolves_trans [OF l(1)] by fastforce
  have "stored_as ?ser (c_serializer (cch w)) (ev_rq ev) (ce_val orig) (hp_get sh' |` {ce_addr e..<ce_addr e + l}) (ce_val e)"
    by (rule stored_as_mono [OF _ n(6)]) (use l(2) in \<open>auto simp: map_le_def restrict_map_def\<close>)
  then show "imaged w' e" using st l(3) sh(2) unfolding imaged_def storable_def by (auto simp: w')
qed

lemma persist_none_evolves:
  assumes inv: "cache_inv X w" and lk: "lock_ready w" and nn: "\<not> cs_null (snd w)"
    and st: "storable ev (c_serializer (cch w)) orig" and r: "cache_persist ev orig w = Some (None, w')"
  shows "evolves ev {} {} w w'"
proof -
  let ?ser = "php_apc_serializer (ev_php_var_serialize ev)"
  have b: "persist_below (SIZE_LIMIT - 39) ?ser (c_serializer (cch w)) (ev_rq ev) orig" using st by (simp add: storable_def)
  from r consider "w' = set_shm (cs_shm (snd w)) w"
    | cx s1 where "persist_size ?ser (c_serializer (cch w)) (ev_rq ev) orig = Some (Some cx)"
        "cache_malloc ev w (cx_size cx) = Some (0, s1)" "w' = set_shm (cs_shm (snd w)) s1"
    by (auto simp: cache_persist_def apc_persist_def set_shm_def Option.bind_eq_Some_conv split: option.splits if_splits)
  then show ?thesis
  proof cases
    case (2 cx s1)
    have "cx_size cx < SIZE_LIMIT - 39" using b 2(1) by (simp add: persist_below_def)
    then have n: "cx_size cx + 39 < SIZE_LIMIT" by simp
    have e: "evolves ev {} {} w s1" by (rule malloc_evolves [OF inv lk nn n 2(2)]) simp_all
    have "shed_from X ev w s1" by (rule cache_malloc_ok [OF inv lk nn n, of ev]) (use 2(2) in auto)
    then have "cs_shm (snd s1) = cs_shm (snd w)" using same_configD(10) [of ev w s1] by (simp add: shed_from_def)
    then have "evolves ev {} {} s1 w'" by (intro evolves_tab) (simp_all add: 2(3))
    with e show ?thesis by (rule evolves_trans0)
  qed simp
qed

section \<open>apc_cache_store\<close>

lemma defense_same: "evolves ev {} {} w (snd (apc_cache_defense ev key t w))"
  by (rule evolves_tab) (simp_all add: apc_cache_defense_def Let_def)

lemma free_evolves:
  assumes inv: "cache_inv (insert p X) w" and p: "p \<notin> X" and f: "free_entry p w = Some w'"
  shows "evolves ev {} {} w w'" "p \<notin> fst ` sma_live (fst w')"
proof -
  have h: "p \<in> fst ` sma_live (fst w)" "sma_usable (fst w)" using holdsD(1,3) [OF cache_invD(3) [OF inv]] by auto
  obtain sma' where s: "free_entry p w = Some (sma', snd w)" "fst ` sma_live sma' = fst ` sma_live (fst w) - {p}"
    "sma_live sma' \<subseteq> sma_live (fst w)"
    by (rule free_entry_ok [OF h(2,1)])
  have w': "w' = (sma', snd w)" using f s(1) by simp
  show "p \<notin> fst ` sma_live (fst w')" using s(2) by (simp add: w')
  show "evolves ev {} {} w w'"
    unfolding evolves_def
  proof (intro impI conjI frameI, goal_cases)
    case (2 y)
    then show ?case by (intro bexI [of _ y]) (simp_all add: w')
  next
    case (3 y)
    then show ?case by (intro bexI [of _ y]) (simp_all add: w')
  qed (use s(3) in \<open>auto simp: w' patient_def\<close>)
qed

lemma linked_live: "cache_inv X w \<Longrightarrow> e \<in> all_of (cch w) \<Longrightarrow> ce_addr e \<in> fst ` sma_live (fst w)"
  using holdsD(3) [OF cache_invD(3)] by (auto simp: all_of_def addrs_def gc_addrs_def)

lemma cache_ready_inv: "cache_ready w \<Longrightarrow> cache_inv {} w"
  by (simp add: cache_ready_def)

text \<open>Linking the new entry in, or giving its block back.\<close>

lemma tail_effect:
  assumes inv: "cache_inv {ce_addr e} w" and key: "zs_h (ce_key e) = zend_inline_hash_func (zval_of_key e)"
    and x: "store_tail ev e excl w = Some (ok, w')"
  obtains (gone) "evolves ev {} {} w w'" "ce_addr e \<notin> fst ` sma_live (fst w')"
  | (linked) "evolves ev {e} {} w w'" "e \<in> set (entries (cch w'))" "cache_inv {} w'" "c_serializer (cch w') = c_serializer (cch w)"
proof -
  from x obtain lok w3 where l: "apc_cache_wlock w = Some (lok, w3)"
    and y: "(if \<not> lok then do { w4 \<leftarrow> free_entry (ce_addr e) w3; Some (False, w4) }
       else do {
         (ret, w4) \<leftarrow> apc_cache_wlocked_insert ev e excl w3;
         w5 \<leftarrow> apc_cache_wunlock w4;
         if ret then Some (True, w5) else do { w6 \<leftarrow> free_entry (ce_addr e) w5; Some (False, w6) }
       }) = Some (ok, w')"
    by (auto simp: store_tail_def Option.bind_eq_Some_conv)
  note t3 = same_tabD [OF lock_steps(1) [OF l]]
  have i3: "cache_inv {ce_addr e} w3" using inv t3(2) by simp
  show thesis
  proof (cases lok)
    case False
    then have f: "free_entry (ce_addr e) w3 = Some w'" using y by (auto split: Option.bind_splits)
    show thesis by (rule gone [OF evolves_trans0 [OF t3(1) free_evolves(1) [OF i3 _ f]] free_evolves(2) [OF i3 _ f]]) simp_all
  next
    case True
    with y obtain ret w4 w5 where i: "apc_cache_wlocked_insert ev e excl w3 = Some (ret, w4)" and u: "apc_cache_wunlock w4 = Some w5"
      and z: "(if ret then Some (True, w5) else do { w6 \<leftarrow> free_entry (ce_addr e) w5; Some (False, w6) }) = Some (ok, w')"
      by (auto simp: Option.bind_eq_Some_conv)
    obtain ret' w4' where "apc_cache_wlocked_insert ev e excl w3 = Some (ret', w4')" "same_config ev w3 w4'"
      "ret' \<longrightarrow> cache_inv {} w4'" "\<not> ret' \<longrightarrow> cache_inv {ce_addr e} w4'"
      by (rule insert_or_free [OF i3 key])
    with i have j: "ret \<longrightarrow> cache_inv {} w4" "\<not> ret \<longrightarrow> cache_inv {ce_addr e} w4" "same_config ev w3 w4" by simp_all
    note ie = insert_evolves [OF i3 _ key i]
    note t5 = same_tabD [OF lock_steps(3) [OF u]]
    have e5: "evolves ev (if ret then {e} else {}) {} w w5"
      using evolves_trans0 [OF t3(1) evolves_trans [OF ie(1) t5(1)]] by simp
    show thesis
    proof (cases ret)
      case False
      then have f: "free_entry (ce_addr e) w5 = Some w'" and i5: "cache_inv {ce_addr e} w5"
        using z j(2) t5(2) by (auto split: Option.bind_splits)
      show thesis
        by (rule gone [OF evolves_trans0 [OF _ free_evolves(1) [OF i5 _ f]] free_evolves(2) [OF i5 _ f]])
          (use e5 False in simp_all)
    next
      case True
      then show thesis
        using linked e5 ie(3) j(1) t5(2,4) z same_configD(6) [OF j(3)] t3(7) t5(7) by (simp add: entries_def)
    qed
  qed
qed

text \<open>Persisting and the rest, from the moment the clock and the defense are through.\<close>

lemma store_tail_evolves:
  assumes r: "cache_ready w" and k: "zs_ok key" and pt: "patient ev w"
    and st: "storable ev (c_serializer (cch w)) (apc_cache_init_entry key val ttl t)"
    and c: "cache_persist ev (apc_cache_init_entry key val ttl t) w = Some (Some e, w2)"
    and x: "store_tail ev e excl w2 = Some (ok, w')"
  shows "\<exists>N. evolves ev N (ce_addr ` N) w w' \<and>
    (\<forall>e \<in> N. e \<in> set (entries (cch w')) \<and> ce_ref_count e = 0 \<and> imaged w' e)"
proof -
  note rd = cache_readyD [OF r]
  note pe = persist_evolves [OF rd(2,3,1) st c pt]
  obtain i2: "cache_inv {ce_addr e} w2" "zs_h (ce_key e) = zend_inline_hash_func (zval_of_key e)"
    by (rule cache_persist_ok [OF rd(2,3,1) st])
      (use c persist_zstr_ok [of key] k in \<open>auto simp: zval_of_key_def apc_cache_init_entry_def\<close>)
  show ?thesis
  proof (cases rule: tail_effect [OF i2 x])
    case 1
    have "evolves ev {} {ce_addr e} w w'" using evolves_trans [OF pe(1) 1(1)] by simp
    then have "evolves ev {} {} w w'" using evolves_gone 1(2) by blast
    then show ?thesis by (intro exI [of _ "{}"]) simp
  next
    case 2
    have ev: "evolves ev {e} {ce_addr e} w w'" using evolves_trans [OF pe(1) 2(1)] by simp
    have f: "frame {e} {} w2 w'" using 2(1) pe(1) pt by (simp add: evolves_def)
    have "imaged w' e"
      by (rule imaged_carried [OF pe(2) _ f carries_refl _ _ 2(4)])
        (use i2(1) cache_inv_sma linked_live [OF 2(3), of e] 2(2) in \<open>auto simp: all_of_def sma_usable_def\<close>)
    then show ?thesis using ev 2(2) pe(3) by (intro exI [of _ "{e}"]) (simp add: apc_cache_init_entry_def)
  qed
qed

lemma store_evolves:
  assumes r: "cache_ready w" and k: "zs_ok key" and pt: "patient ev w"
    and st: "storable ev (c_serializer (cch w)) (apc_cache_init_entry key val ttl (fst (apc_time ev (glb w))))"
    and x: "apc_cache_store ev key val ttl excl w = Some (ok, w')"
  shows "\<exists>N. evolves ev N (ce_addr ` N) w w' \<and>
    (\<forall>e \<in> N. e \<in> set (entries (cch w')) \<and> ce_ref_count e = 0 \<and> imaged w' e)"
proof -
  obtain t g where tg: "apc_time ev (glb w) = (t, g)" by (metis surj_pair)
  obtain slam w1 where d: "apc_cache_defense ev key t (upd_g g w) = (slam, w1)" by (metis surj_pair)
  note s = store_start [OF r tg d] and by_tail = store_by_tail [OF cache_readyD(1) [OF r] tg d]
  have e1: "evolves ev {} {} w w1"
    using evolves_trans0 [OF same_tabD(1) [OF same_tab_clock [of w g]] defense_same [of ev "upd_g g w" key t]] d by simp
  then have pt1: "patient ev w1" using pt by (simp add: evolves_def)
  let ?o = "apc_cache_init_entry key val ttl t"
  have st1: "storable ev (c_serializer (cch w1)) ?o" using st tg same_configD(6) [OF s(2)] by simp
  have none: ?thesis if "evolves ev {} {} w1 w'"
    using evolves_trans0 [OF e1 that] by (intro exI [of _ "{}"]) simp
  show ?thesis
  proof (cases slam)
    case True
    then show ?thesis using x by_tail by (intro none) simp
  next
    case False
    with x by_tail obtain q w2 where c: "cache_persist ev ?o w1 = Some (q, w2)"
      and y: "(case q of None \<Rightarrow> Some (False, w2) | Some e \<Rightarrow> store_tail ev e excl w2) = Some (ok, w')"
      by (auto simp: Option.bind_eq_Some_conv)
    show ?thesis
    proof (cases q)
      case None
      then have "cache_persist ev ?o w1 = Some (None, w')" using c y by simp
      then show ?thesis by (intro none persist_none_evolves [OF s(1,4,5) st1])
    next
      case (Some e)
      then have "cache_persist ev ?o w1 = Some (Some e, w2)" "store_tail ev e excl w2 = Some (ok, w')" using c y by simp_all
      then obtain N where "evolves ev N (ce_addr ` N) w1 w'" "\<forall>e \<in> N. e \<in> set (entries (cch w')) \<and> ce_ref_count e = 0 \<and> imaged w' e"
        using store_tail_evolves [OF s(6) k pt1 st1] by blast
      then show ?thesis using evolves_trans0 [OF e1] by blast
    qed
  qed
qed

section \<open>The other operations\<close>

lemma delete_evolves:
  assumes r: "cache_ready w" and k: "zs_ok key" and x: "apc_cache_delete ev key w = Some (b, w')"
  shows "evolves ev {} {} w w'"
proof -
  note rd = cache_readyD [OF r]
  let ?s = "\<lambda>w. slot_of (c_nslots (cch w)) (zs_val key)"
  from x rd(1) obtain ok w1 where l: "apc_cache_wlock w = Some (ok, w1)"
    and y: "(if \<not> ok then Some (False, w1) else do {
        (b, es, w2) \<leftarrow> delete_walk ev key (ZSTR_HASH key) (c_slots (cch w1) ! ?s w) w1;
        w3 \<leftarrow> apc_cache_wunlock (upd_cache (set_slot (?s w) es) w2);
        Some (b, w3)
      }) = Some (b, w')"
    unfolding apc_cache_delete_def apc_cache_hash_slot_of [OF k]
    by (auto simp: Option.bind_eq_Some_conv split: if_splits)
  note t1 = same_tabD [OF lock_steps(1) [OF l]]
  show ?thesis
  proof (cases ok)
    case True
    with y obtain es w2 where d: "delete_walk ev key (ZSTR_HASH key) (c_slots (cch w1) ! ?s w1) w1 = Some (b, es, w2)"
      and u: "apc_cache_wunlock (upd_cache (set_slot (?s w1) es) w2) = Some w'"
      by (auto simp: Option.bind_eq_Some_conv t1(3))
    have i1: "cache_inv {} w1" using rd(2) t1(2) by simp
    note tab = cache_invD(1) [OF i1]
    have s: "?s w1 < c_nslots (cch w1)" by (rule slot_of_less [OF tab])
    obtain es' ds where dc: "delete_chain key (ZSTR_HASH key) (c_slots (cch w1) ! ?s w1) = (es', ds)" by (metis surj_pair)
    note dcs = delete_chain_spec [OF table_okD(3) [OF tab s] k dc]
    have ra: "remove_all ev ds w1 = Some w2" "es = es'" using d by (auto simp: delete_walk_pure dc)
    obtain w3 where "remove_all ev ds w1 = Some w3" "same_core w1 w3"
      by (rule replace_chain [OF i1 s _ dcs(1), of ds "[]" "\<lambda>c. c"]) (use dcs in \<open>simp_all add: bump_def\<close>)
    then have sc: "same_core w1 w2" using ra(1) by simp
    have sl: "?s w1 < length (c_slots (cch w1))" using s table_okD(2) [OF tab] by simp
    have "evolves ev (set []) {} w1 (upd_cache (\<lambda>c. c) (upd_cache (set_slot (?s w1) es) w2))"
      by (rule replace_evolves [OF ra(1) sc sl]) (use dcs(2) ra(2) in simp_all)
    then show ?thesis using evolves_trans0 [OF t1(1) evolves_trans0 [OF _ same_tabD(1) [OF lock_steps(3) [OF u]]]] by simp
  qed (use y t1(1) in simp)
qed

lemma clear_evolves:
  assumes r: "cache_ready w" and x: "apc_cache_clear ev w = Some w'"
  shows "evolves ev {} {} w w'"
proof -
  note rd = cache_readyD [OF r]
  from x rd(1) obtain ok w1 where l: "apc_cache_wlock w = Some (ok, w1)"
    and y: "(if \<not> ok then Some w1 else do {
        w2 \<leftarrow> apc_cache_wlocked_real_expunge ev w1;
        apc_cache_wunlock (upd_cache (\<lambda>c. c\<lparr>c_stime := fst (apc_time ev (glb w2)), c_nexpunges := 0\<rparr>) (upd_g (snd (apc_time ev (glb w2))) w2))
      }) = Some w'"
    by (auto simp: apc_cache_clear_def Option.bind_eq_Some_conv Let_def case_prod_unfold split: if_splits)
  note t1 = same_tabD [OF lock_steps(1) [OF l]]
  have i1: "cache_inv {} w1" using rd(2) t1(2) by simp
  show ?thesis
  proof (cases ok)
    case True
    with y obtain w2 where e: "apc_cache_wlocked_real_expunge ev w1 = Some w2"
      and u: "apc_cache_wunlock (upd_cache (\<lambda>c. c\<lparr>c_stime := fst (apc_time ev (glb w2)), c_nexpunges := 0\<rparr>)
        (upd_g (snd (apc_time ev (glb w2))) w2)) = Some w'"
      by (auto simp: Option.bind_eq_Some_conv)
    have "evolves ev {} {} w2 (upd_cache (\<lambda>c. c\<lparr>c_stime := fst (apc_time ev (glb w2)), c_nexpunges := 0\<rparr>)
        (upd_g (snd (apc_time ev (glb w2))) w2))" by (rule evolves_tab) simp_all
    with evolves_trans0 [OF t1(1) real_expunge_evolves [OF i1 e]] same_tabD(1) [OF lock_steps(3) [OF u]]
    show ?thesis by (blast intro: evolves_trans0)
  qed (use y t1(1) in simp)
qed

text \<open>Writing through a pointer: the entry keeps its place, its references and the kind of its value.\<close>

lemma all_of_upd_entry:
  "all_of (upd_entry a f c) = (\<lambda>e. if ce_addr e = a then f e else e) ` all_of c"
  by (auto simp: all_of_def entries_def upd_entry_def Let_def)

lemma upd_entry_evolves:
  assumes "\<And>e. e \<in> all_of (cch w) \<Longrightarrow> ce_addr e = a \<Longrightarrow> carries e (f e) \<and> ce_dtime (f e) = ce_dtime e"
  shows "evolves ev {} {} w (upd_cache (upd_entry a f) w)"
proof -
  let ?g = "\<lambda>e. if ce_addr e = a then f e else e"
  have c: "carries e (?g e)" if "e \<in> all_of (cch w)" for e using assms that by auto
  have d: "gc_due g t (?g e) = gc_due g t e \<and> held (?g e) = held e" if "e \<in> set (c_gc (cch w))" for e g t
    using assms [of e] that by (auto simp: gc_due_def held_def carries_def all_of_def)
  show ?thesis
    unfolding evolves_def
  proof (intro impI conjI frameI, goal_cases)
    case 1
    have g: "c_gc (upd_entry a f (cch w)) = map ?g (c_gc (cch w))" "c_gc_ttl (upd_entry a f (cch w)) = c_gc_ttl (cch w)"
      by (simp_all add: upd_entry_def Let_def)
    have "held (?g z) \<longrightarrow> \<not> gc_due (c_gc_ttl (cch w)) (ev_time ev) (?g z)" if "z \<in> set (c_gc (cch w))" for z
      using 1 d [OF that] that unfolding patient_def by blast
    then have "\<forall>e \<in> ?g ` set (c_gc (cch w)). held e \<longrightarrow> \<not> gc_due (c_gc_ttl (cch w)) (ev_time ev) e" by blast
    with 1 show ?case unfolding patient_def upd_cache_simps g set_map by (rule conjI [OF conjunct1])
  next
    case (2 y)
    then show ?case using c by (intro bexI [of _ "?g y"]) (auto simp: all_of_upd_entry)
  next
    case (3 y)
    then obtain z where z: "z \<in> all_of (cch w)" "y = ?g z" by (auto simp: all_of_upd_entry)
    then show ?case using c by (intro bexI [of _ z]) auto
  qed auto
qed

lemma attempt_evolves:
  assumes r: "cache_ready w" and k: "zs_ok key" and x: "atomic_update_attempt upd data key t w = Some (res, data1, w')"
  shows "evolves ev {} {} w w'"
proof -
  note rd = cache_readyD [OF r]
  from x obtain ok w1 where l: "apc_cache_rlock w = Some (ok, w1)"
    by (auto simp: atomic_update_attempt_def Option.bind_eq_Some_conv)
  note t1 = same_tabD [OF lock_steps(2) [OF l]]
  have i1: "cache_inv {} w1" using rd(2) t1(2) by simp
  note tab = cache_invD(1) [OF i1]
  have mid: "evolves ev {} {} w1 w2 \<Longrightarrow> apc_cache_runlock w2 = Some w' \<Longrightarrow> ?thesis" for w2
    using evolves_trans0 [OF t1(1)] evolves_trans0 [OF _ same_tabD(1) [OF lock_steps(4)]] by blast
  show ?thesis
  proof (cases "ok \<and> apc_cache_rlocked_find_nostat key t w1 \<noteq> None")
    case True
    then obtain e where f: "apc_cache_rlocked_find_nostat key t w1 = Some e" by blast
    then have m: "cmap (cch w1) (zs_val key) = Some e" using find_nostat_live [OF tab k] by (simp add: live_Some)
    note em = cmap_entry(1) [OF tab m]
    have un: "e' = e" if "e' \<in> all_of (cch w1)" "ce_addr e' = ce_addr e" for e'
    proof -
      have "e' \<notin> set (c_gc (cch w1))"
        using that(2) em holdsD(6) [OF cache_invD(3) [OF i1]] by (force simp: addrs_def gc_addrs_def)
      then have "e' \<in> set (entries (cch w1))" using that(1) by (simp add: all_of_def)
      then show ?thesis using em that(2) table_okD(4) [OF tab] by (auto simp: distinct_map dest: inj_onD)
    qed
    show ?thesis
    proof (cases "\<exists>i. ce_val e = IS_LONG i")
      case True
      then obtain i where i: "ce_val e = IS_LONG i" by blast
      with x l \<open>ok \<and> _\<close> f obtain j where u: "apc_cache_runlock (upd_cache (upd_entry (ce_addr e) (\<lambda>e. e\<lparr>ce_val := IS_LONG j, ce_mtime := t\<rparr>)) w1) = Some w'"
        by (auto simp: atomic_update_attempt_def Option.bind_eq_Some_conv case_prod_unfold Let_def)
      show ?thesis
        by (rule mid [OF upd_entry_evolves u]) (use un i in \<open>auto simp: carries_def\<close>)
    next
      case False
      with x l \<open>ok \<and> _\<close> f have "apc_cache_runlock w1 = Some w'"
        by (auto simp: atomic_update_attempt_def Option.bind_eq_Some_conv Let_def split: zval.splits)
      then show ?thesis by (intro mid) simp_all
    qed
  next
    case False
    with x l have "w' = w1 \<or> apc_cache_runlock w1 = Some w'"
      by (auto simp: atomic_update_attempt_def Option.bind_eq_Some_conv split: if_splits)
    then show ?thesis using t1(1) mid [of w1] by auto
  qed
qed

end
