(* ===== verification/Apc_Cache_Concurrent.thy ===== *)
theory Apc_Cache_Concurrent imports Apc_Cache_Frame_Ops Apc_Cache_Create begin

text \<open>
  Several processes on one cache. \<open>apc_cache_fetch\<close> holds the lock only while it looks the entry up
  and counts itself as a reader; it copies the value out and takes the count back after it has let
  go of the lock. Between the two other processes may store, delete, clear and update, and an
  allocation may expunge. Each section under the lock is one step here, and so is the release.
\<close>

section \<open>Fetching in two steps\<close>

text \<open>\<open>apc_cache_fetch\<close> is \<open>apc_cache_find\<close>, the copy and the release, one after the other.\<close>

lemma fetch_split:
  "apc_cache_fetch ev key t w = do {
     (r, w1) \<leftarrow> apc_cache_find key t w;
     (case r of
        None \<Rightarrow> Some (False, None, w1)
      | Some e \<Rightarrow> do {
          (ret, dst, rq) \<leftarrow> apc_cache_entry_fetch_zval ev e w1;
          w2 \<leftarrow> apc_cache_entry_release (ce_addr e) w1;
          Some (ret, Some (dst, rq), w2)
        })
   }"
  unfolding apc_cache_fetch_def apc_cache_find_def
  by (auto simp: Let_def case_prod_unfold split: Option.bind_split option.split)

text \<open>
  The shared memory and, for every process that is copying an entry out, the address of that entry.
  The globals are the acting process's own, so a step starts with any that are not inside
  \<open>apcu_entry\<close>.
\<close>

record cache_sys =
  sy_world :: world
  sy_pins :: "32 word \<Rightarrow> nat option"

inductive cache_step :: "cache_sys \<Rightarrow> cache_sys \<Rightarrow> bool" where
  find: "sy_pins s p = None \<Longrightarrow> zs_ok key \<Longrightarrow> g_entry_level g = 0 \<Longrightarrow>
    apc_cache_find key t (upd_g g (sy_world s)) = Some (Some e, w') \<Longrightarrow>
    cache_step s (s\<lparr>sy_world := w', sy_pins := (sy_pins s)(p := Some (ce_addr e))\<rparr>)"
| miss: "zs_ok key \<Longrightarrow> g_entry_level g = 0 \<Longrightarrow> apc_cache_find key t (upd_g g (sy_world s)) = Some (None, w') \<Longrightarrow>
    cache_step s (s\<lparr>sy_world := w'\<rparr>)"
| release: "sy_pins s p = Some a \<Longrightarrow> apc_cache_entry_release a (upd_g g (sy_world s)) = Some w' \<Longrightarrow>
    cache_step s (s\<lparr>sy_world := w', sy_pins := (sy_pins s)(p := None)\<rparr>)"
| store: "zs_ok key \<Longrightarrow> g_entry_level g = 0 \<Longrightarrow> patient ev (sy_world s) \<Longrightarrow>
    storable ev (c_serializer (cch (sy_world s))) (apc_cache_init_entry key val ttl (fst (apc_time ev g))) \<Longrightarrow>
    apc_cache_store ev key val ttl excl (upd_g g (sy_world s)) = Some (ok, w') \<Longrightarrow> cache_step s (s\<lparr>sy_world := w'\<rparr>)"
| delete: "zs_ok key \<Longrightarrow> g_entry_level g = 0 \<Longrightarrow> patient ev (sy_world s) \<Longrightarrow>
    apc_cache_delete ev key (upd_g g (sy_world s)) = Some (b, w') \<Longrightarrow> cache_step s (s\<lparr>sy_world := w'\<rparr>)"
| clear: "g_entry_level g = 0 \<Longrightarrow> patient ev (sy_world s) \<Longrightarrow>
    apc_cache_clear ev (upd_g g (sy_world s)) = Some w' \<Longrightarrow> cache_step s (s\<lparr>sy_world := w'\<rparr>)"
| update: "zs_ok key \<Longrightarrow> g_entry_level g = 0 \<Longrightarrow> patient ev (sy_world s) \<Longrightarrow>
    atomic_update_attempt upd (data :: i64 \<times> i64) key t (upd_g g (sy_world s)) = Some (res, data1, w') \<Longrightarrow>
    cache_step s (s\<lparr>sy_world := w'\<rparr>)"

inductive_cases cache_stepE: "cache_step s s'"

section \<open>The invariant\<close>














section \<open>Every step keeps it\<close>




















section \<open>What a reader relies on\<close>


section \<open>A race\<close>















end
