(* ===== verification/Apc_Persist_Claims.thy ===== *)
theory Apc_Persist_Claims imports Apc_Persist_Image begin

text \<open>
  What copying a value into shared memory and back promises, with an array that contains a
  reference to itself as the instance.
\<close>

section \<open>An array that contains itself\<close>

definition loop_array :: hash_table where
  "loop_array = \<lparr>ht_flags = 16, ht_hash = [HT_INVALID_IDX, HT_INVALID_IDX],
     ht_data = [\<lparr>bk_val = IS_REFERENCE 16, bk_h = 0, bk_key = 0\<rparr>, \<lparr>bk_val = IS_STRING 24, bk_h = 7, bk_key = 24\<rparr>],
     ht_num_elements = 2, ht_table_size = 8, ht_internal = 0, ht_next = 1\<rparr>"

definition loop_heap :: heap where
  "loop_heap = [(8, CArr loop_array), (16, CRef (IS_ARRAY 8)), (24, CStr (mk_zstr ''abc''))]"

definition loop_entry :: apc_cache_entry_t where
  "loop_entry = \<lparr>ce_addr = 0, ce_key = mk_zstr ''k'', ce_val = IS_ARRAY 8, ce_ttl = 0, ce_ref_count = 0, ce_nhits = 0,
     ce_ctime = 0, ce_mtime = 0, ce_dtime = 0, ce_atime = 0, ce_mem_size = 0\<rparr>"

definition no_ser :: "heap \<Rightarrow> zval \<Rightarrow> string option" where "no_ser hp v = None"

definition bump_malloc :: "nat \<Rightarrow> nat \<Rightarrow> (nat \<times> nat) option" where
  "bump_malloc brk n = Some (brk, brk + n)"

lemma loop_heap_ok: "heap_ok loop_heap"
  by (auto simp: heap_ok_def loop_heap_def loop_array_def hp_get_def bucket_ok_def zv_ok_def hp_ref_def hp_str_def hp_arr_def
      split: if_splits)

lemma loop_top: "top_ok loop_heap (ce_val loop_entry)"
  by (simp add: top_ok_def zv_ok_def loop_entry_def loop_heap_def hp_arr_def hp_get_def)

lemma loop_cells [simp]:
  "hp_arr loop_heap 8 = Some loop_array" "hp_ref loop_heap 16 = Some (IS_ARRAY 8)"
  "hp_str loop_heap 24 = Some (mk_zstr ''abc'')"
  by (simp_all add: loop_heap_def hp_arr_def hp_ref_def hp_str_def hp_get_def)

lemma loop_fuel: "persist_fuel loop_heap = Suc (Suc (Suc (Suc (Suc 0))))"
  by (simp add: persist_fuel_def loop_heap_def)

lemma loop_size: "persist_size no_ser None loop_heap loop_entry = Some (Some
   (apc_persist_init_context\<lparr>cx_size := 352, cx_memoization_needed := True, cx_already_counted := [24, 16, 8]\<rparr>))"
  unfolding persist_size_def apc_persist_calc_def loop_fuel
  by (simp add: persist_context_def loop_entry_def loop_array_def persist_calc_ht_def apc_persist_calc_memoize_def Let_def
      ADD_SIZE_def ADD_SIZE_STR_def ZEND_MM_ALIGNED_SIZE_def SIZEOF_CACHE_ENTRY_def ZSTR_STRUCT_SIZE_def ZSTR_LEN_def
      apc_persist_init_context_def SIZEOF_HASHTABLE_def HT_USED_SIZE_def SIZEOF_BUCKET_def SIZEOF_REFERENCE_def)

lemma loop_below: "persist_below 1000 no_ser None loop_heap loop_entry"
  by (simp add: persist_below_def loop_size)

section \<open>Copying in\<close>

text \<open>
  C12: \<open>apc_persist\<close> ends on every value of a well-formed store, arrays that contain themselves
  through references included, provided the allocator returns: it answers \<open>NULL\<close> and leaves the
  shared store alone, or an entry that lies at the block it was given and carries the key, the
  times and the counters of the original.
\<close>

theorem persist_ends:
  assumes "heap_ok rq" "top_ok rq (ce_val orig)" "persist_below b php_ser srz rq orig"
    "\<forall>n < b. \<exists>q s'. malloc s n = Some (q, s')"
  shows "(\<exists>s1. apc_persist php_ser malloc srz rq orig (s, sh) = Some (None, s1, sh)) \<or>
    (\<exists>n p v s1 sh'. malloc s n = Some (p, s1) \<and> n < b \<and> apc_persist php_ser malloc srz rq orig (s, sh) =
       Some (Some (orig\<lparr>ce_addr := p, ce_key := persist_zstr (zs_val (ce_key orig)) (zs_h (ce_key orig)), ce_val := v,
                        ce_mem_size := of_nat n\<rparr>), s1, sh'))"
proof -
  have al: "\<exists>q s'. malloc s n = Some (q, s')" if "n < b" for n using assms(4) that by simp
  show ?thesis
  proof (cases rule: apc_persist_ends [where malloc = malloc and s = s and sh = sh, OF assms(1-3)])
    case (1 n)
    then show ?case by (rule al)
  qed blast+
qed

theorem persist_ends_witness:
  "\<exists>v s1 sh'. apc_persist no_ser bump_malloc None loop_heap loop_entry (4096, []) =
     Some (Some (loop_entry\<lparr>ce_addr := 4096, ce_key := persist_zstr ''k'' 0, ce_val := v, ce_mem_size := 352\<rparr>), s1, sh')"
proof -
  have al: "\<forall>n < 1000. \<exists>q s'. bump_malloc 4096 n = Some (q, s')" by (simp add: bump_malloc_def)
  have "\<nexists>s1. apc_persist no_ser bump_malloc None loop_heap loop_entry (4096, []) = Some (None, s1, [])"
    by (auto simp: apc_persist_def loop_size bump_malloc_def split: Option.bind_splits)
  with persist_ends [where malloc = bump_malloc and s = 4096 and sh = "[]", OF loop_heap_ok loop_top loop_below al] obtain n v s1 sh' where
    r: "apc_persist no_ser bump_malloc None loop_heap loop_entry (4096, []) = Some (Some (loop_entry\<lparr>ce_addr := 4096,
       ce_key := persist_zstr (zs_val (ce_key loop_entry)) (zs_h (ce_key loop_entry)), ce_val := v, ce_mem_size := of_nat n\<rparr>), s1, sh')"
    by (auto simp: bump_malloc_def)
  then obtain aa :: apc_cache_entry_t where "aa\<lparr>ce_mem_size := 352\<rparr> = loop_entry\<lparr>ce_addr := 4096,
       ce_key := persist_zstr (zs_val (ce_key loop_entry)) (zs_h (ce_key loop_entry)), ce_val := v, ce_mem_size := of_nat n\<rparr>"
    by (auto simp: apc_persist_def loop_size split: Option.bind_splits if_splits)
  from arg_cong [OF this, of ce_mem_size] have "(of_nat n :: i64) = 352" by simp
  with r show ?thesis by (auto simp: loop_entry_def mk_zstr_def)
qed


lemma loop_persisted:
  obtains e s1 sh' where "apc_persist no_ser bump_malloc None loop_heap loop_entry (4096, []) = Some (Some e, s1, sh')" "ce_addr e = 4096"
proof -
  show ?thesis
  proof (rule apc_persist_ends [where malloc = bump_malloc and s = 4096 and sh = "[]", OF loop_heap_ok loop_top loop_below], goal_cases)
    case (1 n)
    then show ?case by (simp add: bump_malloc_def)
  next
    case 2
    then show ?case by (auto simp: apc_persist_def loop_size bump_malloc_def split: Option.bind_splits)
  next
    case (3 n s1)
    then show ?case by (simp add: bump_malloc_def)
  next
    case (4 n p s1 v sh')
    then show ?case by (intro that [OF 4(4)]) (simp add: bump_malloc_def)
  qed
qed


section \<open>Copying in and out\<close>

text \<open>
  C14: A value that was persisted and is read back, into the store of any request, ends as the
  same value: there is a correspondence of the structures reachable from the two under which
  strings have the same bytes, tables the same keys, hashes and elements in the same order, and
  references the same targets. A serialized value is what the unserializer makes of exactly the
  serializer's string. The other structures of the reading request are untouched.
\<close>

theorem persist_unpersist_same:
  assumes "heap_ok rq" "top_ok rq (ce_val orig)"
    "apc_persist php_ser malloc srz rq orig (s, sh) = Some (Some e, s1, sh')"
  shows "(\<exists>v rq2. apc_unpersist php_unser srz sh' (ce_val e) rq1 = Some (True, v, rq2) \<and>
       same_value rq (ce_val orig) rq2 v \<and> (\<forall>x < hp_fresh rq1. hp_get rq2 x = hp_get rq1 x)) \<or>
    (\<exists>buf. persist_serialize php_ser srz rq (ce_val orig) = Some buf \<and>
       apc_unpersist php_unser srz sh' (ce_val e) rq1 = Some (read_back php_unser srz rq1 buf))"
  by (rule persist_unpersist [OF assms, of php_unser rq1]) blast+

theorem persist_unpersist_same_witness:
  "\<exists>e s1 sh' v rq2. apc_persist no_ser bump_malloc None loop_heap loop_entry (4096, []) = Some (Some e, s1, sh') \<and>
     apc_unpersist (\<lambda>_ _. None) None sh' (ce_val e) [] = Some (True, v, rq2) \<and> same_value loop_heap (IS_ARRAY 8) rq2 v"
proof -
  obtain e s1 sh' where e: "apc_persist no_ser bump_malloc None loop_heap loop_entry (4096, []) = Some (Some e, s1, sh')"
    by (rule loop_persisted)
  have "persist_serialize no_ser None loop_heap (ce_val loop_entry) = None" by (simp add: persist_serialize_def no_ser_def)
  moreover have "ce_val loop_entry = IS_ARRAY 8" by (simp add: loop_entry_def)
  ultimately show ?thesis
    using persist_unpersist_same [OF loop_heap_ok loop_top e, of "\<lambda>_ _. None" "[]"] e by auto
qed

end
