(* ===== verification/Apc_Persist_Counts.thy ===== *)
theory Apc_Persist_Counts imports Apc_Persist_Claims "HOL-Library.Multiset" begin

text \<open>
  The reference counts of what \<open>apc_unpersist\<close> builds: every structure it allocates is counted once
  for each pointer to it, so that the request can release the value and nothing is freed too
  early or left over.
\<close>

section \<open>Pointers\<close>

text \<open>
  The addresses a value, a bucket and a structure point to, each as often as it points there; and
  those of all structures at the addresses from \<open>lo\<close> up to \<open>hi\<close>.
\<close>

definition refs_val :: "zval \<Rightarrow> nat multiset" where
  "refs_val v = (if z_simple v then {#} else {#Z_COUNTED v#})"

definition refs_bucket :: "bucket \<Rightarrow> nat multiset" where
  "refs_bucket q = refs_val (bk_val q) + (if keyed q then {#bk_key q#} else {#})"

definition refs_buckets :: "bucket list \<Rightarrow> nat multiset" where
  "refs_buckets qs = (\<Sum>q \<leftarrow> qs. refs_bucket q)"

definition refs_counted :: "counted \<Rightarrow> nat multiset" where
  "refs_counted c = (case c of CArr ht \<Rightarrow> refs_buckets (ht_data ht) | CRef v \<Rightarrow> refs_val v | _ \<Rightarrow> {#})"

definition refs_at :: "heap \<Rightarrow> nat \<Rightarrow> nat multiset" where
  "refs_at hp a = (case hp_get hp a of None \<Rightarrow> {#} | Some c \<Rightarrow> refs_counted c)"

definition refs_range :: "heap \<Rightarrow> nat \<Rightarrow> nat \<Rightarrow> nat multiset" where
  "refs_range hp lo hi = (\<Sum>a \<leftarrow> [lo..<hi]. refs_at hp a)"

lemma refs_val_simps [simp]:
  "z_simple v \<Longrightarrow> refs_val v = {#}" "refs_val (IS_STRING a) = {#a#}" "refs_val (IS_ARRAY a) = {#a#}"
  "refs_val (IS_REFERENCE a) = {#a#}"
  by (simp_all add: refs_val_def)

lemma refs_buckets_simps [simp]:
  "refs_buckets [] = {#}" "refs_buckets (q # qs) = refs_bucket q + refs_buckets qs"
  by (simp_all add: refs_buckets_def)

lemma refs_range_empty [simp]: "refs_range hp a a = {#}"
  by (simp add: refs_range_def)

lemma refs_range_split: "a \<le> b \<Longrightarrow> b \<le> c \<Longrightarrow> refs_range hp a c = refs_range hp a b + refs_range hp b c"
  using upt_add_eq_append [of a b "c - b"] by (simp add: refs_range_def)

lemma refs_range_first: "a < c \<Longrightarrow> refs_range hp a c = refs_at hp a + refs_range hp (Suc a) c"
  by (simp add: refs_range_def upt_conv_Cons)

lemma refs_range_cong:
  "(\<And>x. a \<le> x \<Longrightarrow> x < b \<Longrightarrow> hp_get hp' x = hp_get hp x) \<Longrightarrow> refs_range hp' a b = refs_range hp a b"
  unfolding refs_range_def by (rule arg_cong [where f = sum_list], rule map_cong) (simp_all add: refs_at_def)

section \<open>A step that keeps count\<close>

text \<open>
  The structures from \<open>lo\<close> on are those of this call; the table of copied structures only leads
  there. A step hands the pointers \<open>D\<close> to its caller and fills new structures with more; together
  they are what the counts of the new structures say, every new structure is pointed to, and the
  counts of the older ones of this call went up by the pointers to them.
\<close>

definition here :: "nat \<Rightarrow> unpersist_state \<Rightarrow> bool" where
  "here lo st \<longleftrightarrow> (case st of (tab, hp, gc) \<Rightarrow> lo \<le> hp_fresh hp \<and> snd ` set tab \<subseteq> {lo..<hp_fresh hp})"

definition given :: "heap \<Rightarrow> heap \<Rightarrow> nat multiset \<Rightarrow> nat multiset" where
  "given hp hp' D = D + refs_range hp' (hp_fresh hp) (hp_fresh hp')"

definition keeps_count :: "nat \<Rightarrow> unpersist_state \<Rightarrow> unpersist_state \<Rightarrow> nat multiset \<Rightarrow> bool" where
  "keeps_count lo st st' D \<longleftrightarrow> (case (st, st') of ((tab, hp, gc), (tab', hp', gc')) \<Rightarrow>
     here lo st' \<and> hp_fresh hp \<le> hp_fresh hp' \<and> (\<forall>a < hp_fresh hp. hp_get hp' a = hp_get hp a) \<and>
     set_mset (given hp hp' D) \<subseteq> {lo..<hp_fresh hp'} \<and>
     {hp_fresh hp..<hp_fresh hp'} \<subseteq> set_mset (given hp hp' D) \<and>
     (\<forall>a < hp_fresh hp'. gc' a = (if a < hp_fresh hp then gc a else 0) + of_nat (count (given hp hp' D) a)))"

lemma keeps_countI:
  assumes "here lo (tab', hp', gc')" "hp_fresh hp \<le> hp_fresh hp'" "\<And>a. a < hp_fresh hp \<Longrightarrow> hp_get hp' a = hp_get hp a"
    "set_mset (given hp hp' D) \<subseteq> {lo..<hp_fresh hp'}" "{hp_fresh hp..<hp_fresh hp'} \<subseteq> set_mset (given hp hp' D)"
    "\<And>a. a < hp_fresh hp' \<Longrightarrow> gc' a = (if a < hp_fresh hp then gc a else 0) + of_nat (count (given hp hp' D) a)"
  shows "keeps_count lo (tab, hp, gc) (tab', hp', gc') D"
  using assms by (simp add: keeps_count_def)

lemma keeps_countD:
  assumes "keeps_count lo (tab, hp, gc) (tab', hp', gc') D"
  shows "here lo (tab', hp', gc')" "hp_fresh hp \<le> hp_fresh hp'" "a < hp_fresh hp \<Longrightarrow> hp_get hp' a = hp_get hp a"
    "set_mset (given hp hp' D) \<subseteq> {lo..<hp_fresh hp'}" "{hp_fresh hp..<hp_fresh hp'} \<subseteq> set_mset (given hp hp' D)"
    "a < hp_fresh hp' \<Longrightarrow> gc' a = (if a < hp_fresh hp then gc a else 0) + of_nat (count (given hp hp' D) a)"
  using assms by (simp_all add: keeps_count_def)

lemma keeps_count_refl: "here lo st \<Longrightarrow> keeps_count lo st st {#}"
  by (cases st) (simp add: keeps_count_def given_def)

lemma keeps_count_here: "keeps_count lo st st' D \<Longrightarrow> here lo st'"
  by (cases st, cases st') (simp add: keeps_count_def)

lemma keeps_count_trans:
  assumes "keeps_count lo st st1 D1" "keeps_count lo st1 st2 D2"
  shows "keeps_count lo st st2 (D1 + D2)"
proof -
  obtain tab hp gc tab1 hp1 gc1 tab2 hp2 gc2 where e: "st = (tab, hp, gc)" "st1 = (tab1, hp1, gc1)" "st2 = (tab2, hp2, gc2)"
    by (cases st, cases st1, cases st2) auto
  note a = keeps_countD [OF assms(1) [unfolded e]] and b = keeps_countD [OF assms(2) [unfolded e]]
  have "refs_range hp2 (hp_fresh hp) (hp_fresh hp1) = refs_range hp1 (hp_fresh hp) (hp_fresh hp1)"
    by (rule refs_range_cong) (simp add: b(3))
  with refs_range_split [OF a(2) b(2), of hp2] have g: "given hp hp2 (D1 + D2) = given hp hp1 D1 + given hp1 hp2 D2"
    by (simp add: given_def)
  show ?thesis
    unfolding e
  proof (rule keeps_countI)
    show "here lo (tab2, hp2, gc2)" by (rule b(1))
    show "hp_fresh hp \<le> hp_fresh hp2" using a(2) b(2) by simp
    show "hp_get hp2 x = hp_get hp x" if "x < hp_fresh hp" for x using that a(2,3) b(3) by simp
    show "set_mset (given hp hp2 (D1 + D2)) \<subseteq> {lo..<hp_fresh hp2}" using a(4) b(2,4) by (force simp: g)
    show "{hp_fresh hp..<hp_fresh hp2} \<subseteq> set_mset (given hp hp2 (D1 + D2))" 
    proof
      fix x assume "x \<in> {hp_fresh hp..<hp_fresh hp2}"
      then have "x \<in> {hp_fresh hp..<hp_fresh hp1} \<or> x \<in> {hp_fresh hp1..<hp_fresh hp2}" by auto
      then show "x \<in># given hp hp2 (D1 + D2)" using a(5) b(5) by (auto simp only: g set_mset_union subset_iff)
    qed
    show "gc2 x = (if x < hp_fresh hp then gc x else 0) + of_nat (count (given hp hp2 (D1 + D2)) x)"
      if x: "x < hp_fresh hp2" for x
    proof (cases "x < hp_fresh hp1")
      case True
      then show ?thesis using a(6) [OF True] b(6) [OF x] by (simp add: g)
    next
      case False
      then have "count (given hp hp1 D1) x = 0" using a(4) by (force simp: count_eq_zero_iff)
      then show ?thesis using b(6) [OF x] False a(2) by (simp add: g)
    qed
  qed
qed

lemma keeps_count_enter:
  assumes en: "unpersist_enter mm old c (tab, hp, gc) = (p, st1)" and h: "here lo (tab, hp, gc)"
    and k: "keeps_count lo st1 st2 (refs_counted y)"
  shows "keeps_count lo (tab, hp, gc) (unpersist_write p y st2) {#p#}"
proof -
  obtain tab2 hp2 gc2 where e2: "st2 = (tab2, hp2, gc2)" by (cases st2)
  let ?hp1 = "hp_put p c hp"
  have p: "p = hp_fresh hp" and e1: "st1 = (unpersist_add mm old p tab, ?hp1, gc(p := 1))"
    using en by (auto simp: unpersist_enter_def Let_def)
  have f1: "hp_fresh ?hp1 = Suc p" by (simp add: hp_fresh_put p)
  note b = keeps_countD [OF k [unfolded e1 e2], unfolded f1]
  have f2: "hp_fresh (hp_put p y hp2) = hp_fresh hp2" using b(2) by (simp add: hp_fresh_put)
  have "refs_range (hp_put p y hp2) (Suc p) (hp_fresh hp2) = refs_range hp2 (Suc p) (hp_fresh hp2)"
    by (rule refs_range_cong) simp
  then have g: "given hp (hp_put p y hp2) {#p#} = add_mset p (given ?hp1 hp2 (refs_counted y))"
    using refs_range_first [of p "hp_fresh hp2" "hp_put p y hp2"] b(2) by (simp add: given_def f1 f2 p [symmetric] refs_at_def)
  have lo: "lo \<le> p" using h by (simp add: here_def p)
  have "keeps_count lo (tab, hp, gc) (tab2, hp_put p y hp2, gc2) {#p#}"
  proof (rule keeps_countI, goal_cases)
    case 1
    then show ?case using b(1) by (simp add: here_def f2)
  next
    case 2
    then show ?case using b(2) by (simp add: f2 p [symmetric])
  next
    case (3 a)
    then show ?case using b(3) [of a] by (simp add: p [symmetric])
  next
    case 4
    then show ?case using b(2,4) lo by (simp add: f2 g)
  next
    case 5
    show ?case
    proof
      fix x assume "x \<in> {hp_fresh hp..<hp_fresh (hp_put p y hp2)}"
      then have "x = p \<or> x \<in> {Suc p..<hp_fresh hp2}" by (auto simp: f2 p [symmetric])
      then show "x \<in># given hp (hp_put p y hp2) {#p#}" using b(5) by (auto simp only: g set_mset_add_mset_insert)
    qed
  next
    case (6 a)
    then show ?case using b(6) [of a] by (simp add: f2 g) (auto simp: p [symmetric] algebra_simps)
  qed
  then show ?thesis by (simp add: e2 unpersist_write_def)
qed

lemma enter_here:
  assumes "unpersist_enter mm old c (tab, hp, gc) = (p, st1)" "here lo (tab, hp, gc)"
  shows "here lo st1"
  using assms by (cases mm) (force simp: unpersist_enter_def here_def unpersist_add_def hp_fresh_put Let_def)+

lemma zstr_keeps_count:
  assumes h: "here lo st" and z: "apc_unpersist_zstr mm a s st = (p, st1)"
  shows "keeps_count lo st st1 {#p#}"
proof -
  obtain tab hp gc where e: "st = (tab, hp, gc)" by (cases st)
  note en = z [unfolded apc_unpersist_zstr_def e]
  have p: "p = hp_fresh hp" and e1: "st1 = (unpersist_add mm a p tab, hp_put p (CStr s) hp, gc(p := 1))"
    using en by (auto simp: unpersist_enter_def Let_def)
  have f1: "hp_fresh (hp_put p (CStr s) hp) = Suc p" by (simp add: hp_fresh_put p)
  have g: "given hp (hp_put p (CStr s) hp) {#p#} = {#p#}"
    using refs_range_first [of p "Suc p"] by (simp add: given_def f1 p [symmetric] refs_at_def refs_counted_def)
  have "lo \<le> p" using h by (simp add: here_def e p)
  then show ?thesis
    using enter_here [OF en h [unfolded e]] unfolding e e1 by (intro keeps_countI) (auto simp: f1 g p [symmetric])
qed

lemma addref_keeps_count:
  assumes h: "here lo st" and c: "unpersist_copied mm a (fst st) = Some p"
  shows "keeps_count lo st (Z_ADDREF p st) {#p#}"
proof -
  obtain tab hp gc where e: "st = (tab, hp, gc)" by (cases st)
  have "(a, p) \<in> set tab" using c by (auto simp: e unpersist_copied_def split: if_splits dest: map_of_SomeD)
  then have "lo \<le> p" "p < hp_fresh hp" using h by (force simp: here_def e)+
  with h show ?thesis by (auto simp: e Z_ADDREF_def keeps_count_def given_def here_def)
qed

section \<open>The copier keeps count\<close>

definition counts_ok :: "nat \<Rightarrow> nat set \<Rightarrow> heap \<Rightarrow> (zval \<Rightarrow> unpersist_state \<Rightarrow> (zval \<times> unpersist_state) option) \<Rightarrow> bool" where
  "counts_ok lo R sh unp \<longleftrightarrow> (\<forall>v st r st'. zv_in R sh v \<longrightarrow> here lo st \<longrightarrow> unp v st = Some (r, st') \<longrightarrow>
     keeps_count lo st st' (refs_val r) \<and> (r = IS_UNDEF \<longleftrightarrow> v = IS_UNDEF))"

lemma counts_okD:
  assumes "counts_ok lo R sh unp" "zv_in R sh v" "here lo st" "unp v st = Some (r, st')"
  shows "keeps_count lo st st' (refs_val r)" "r = IS_UNDEF \<longleftrightarrow> v = IS_UNDEF" "here lo st'"
  using assms keeps_count_here unfolding counts_ok_def by blast+

lemma static_keeps_count:
  assumes un: "counts_ok lo R sh unp"
  shows "\<forall>q \<in> set qs. zv_in R sh (bk_val q) \<and> \<not> keyed q \<Longrightarrow> here lo st \<Longrightarrow>
    unpersist_buckets_static unp qs st = Some (rs, st') \<Longrightarrow> keeps_count lo st st' (refs_buckets rs)"
proof (induction qs arbitrary: st rs)
  case Nil
  then show ?case by (simp add: keeps_count_refl)
next
  case (Cons q qs)
  from Cons.prems(3) obtain v st1 ps where v: "unp (bk_val q) st = Some (v, st1)"
    and r: "unpersist_buckets_static unp qs st1 = Some (ps, st')" "rs = q\<lparr>bk_val := v\<rparr> # ps"
    by (auto split: Option.bind_splits)
  note k = counts_okD [OF un _ Cons.prems(2) v]
  have q: "zv_in R sh (bk_val q)" "\<not> keyed q" using Cons.prems(1) by simp_all
  then have "refs_bucket (q\<lparr>bk_val := v\<rparr>) = refs_val v" using k(2) by (auto simp: refs_bucket_def keyed_def)
  moreover have "keeps_count lo st1 st' (refs_buckets ps)"
    by (rule Cons.IH [OF _ k(3) [OF q(1)] r(1)]) (use Cons.prems(1) in simp)
  ultimately show ?case using keeps_count_trans [OF k(1) [OF q(1)]] r(2) by simp
qed

lemma key_keeps_count:
  assumes "here lo st" "unpersist_key sh key st = Some (k, st1)"
  shows "keeps_count lo st st1 (if k \<noteq> 0 then {#k#} else {#})"
proof (cases "key = 0")
  case True
  with assms show ?thesis by (simp add: unpersist_key_def keeps_count_refl)
next
  case False
  with assms(2) obtain s where z: "apc_unpersist_zstr False 0 s st = (k, st1)"
    by (auto simp: unpersist_key_def split: Option.bind_splits)
  then have "k \<noteq> 0" by (cases st) (auto simp: apc_unpersist_zstr_def unpersist_enter_def Let_def)
  with zstr_keeps_count [OF assms(1) z] show ?thesis by simp
qed

lemma buckets_keep_count:
  assumes un: "counts_ok lo R sh unp"
  shows "\<forall>q \<in> set qs. zv_in R sh (bk_val q) \<Longrightarrow> here lo st \<Longrightarrow>
    unpersist_buckets unp sh qs st = Some (rs, st') \<Longrightarrow> keeps_count lo st st' (refs_buckets rs)"
proof (induction qs arbitrary: st rs)
  case Nil
  then show ?case by (simp add: keeps_count_refl)
next
  case (Cons q qs)
  show ?case
  proof (cases "bk_val q = IS_UNDEF")
    case True
    with Cons.prems(3) obtain ps where r: "unpersist_buckets unp sh qs st = Some (ps, st')"
      "rs = \<lparr>bk_val = IS_UNDEF, bk_h = 0, bk_key = 0\<rparr> # ps" by (auto split: Option.bind_splits)
    have "keeps_count lo st st' (refs_buckets ps)" by (rule Cons.IH [OF _ Cons.prems(2) r(1)]) (use Cons.prems(1) in simp)
    then show ?thesis using r(2) by (simp add: refs_bucket_def keyed_def)
  next
    case False
    with Cons.prems(3) obtain key st1 v st2 ps where k: "unpersist_key sh (bk_key q) st = Some (key, st1)"
      and v: "unp (bk_val q) st1 = Some (v, st2)" and r: "unpersist_buckets unp sh qs st2 = Some (ps, st')"
      and rs: "rs = \<lparr>bk_val = v, bk_h = bk_h q, bk_key = key\<rparr> # ps" by (auto split: Option.bind_splits)
    have q: "zv_in R sh (bk_val q)" using Cons.prems(1) by simp
    note kk = key_keeps_count [OF Cons.prems(2) k]
    note vk = counts_okD [OF un q keeps_count_here [OF kk] v]
    have "keeps_count lo st2 st' (refs_buckets ps)" by (rule Cons.IH [OF _ vk(3) r]) (use Cons.prems(1) in simp)
    from keeps_count_trans [OF keeps_count_trans [OF kk vk(1)] this]
    show ?thesis using rs False vk(2) by (auto simp: refs_bucket_def keyed_def add_ac split: if_splits)
  qed
qed

lemma ht_keeps_count:
  assumes un: "counts_ok lo R sh unp" and cl: "closed R sh" and a: "a \<in> R" "hp_arr sh a = Some ht"
    and h: "here lo st" and r: "unpersist_ht unp mm sh a ht st = Some (p, st')"
  shows "keeps_count lo st st' {#p#}"
proof -
  have mk: "marks_ok ht" "\<forall>q \<in> set (ht_data ht). zv_in R sh (bk_val q)" using cl a unfolding closed_def by blast+
  obtain tab hp gc where e: "st = (tab, hp, gc)" by (cases st)
  obtain p1 st1 where en: "unpersist_enter mm a (CArr ht) (tab, hp, gc) = (p1, st1)" by (cases "unpersist_enter mm a (CArr ht) st") (simp add: e)
  note h1 = enter_here [OF en h [unfolded e]] and enter = keeps_count_enter [OF en h [unfolded e]]
  show ?thesis
  proof (cases "ht_data ht = []")
    case True
    with r en have "p = p1" "st' = unpersist_write p1 (CArr (ht\<lparr>ht_hash := [HT_INVALID_IDX, HT_INVALID_IDX]\<rparr>)) st1"
      by (auto simp: unpersist_ht_def e)
    then show ?thesis using enter True keeps_count_refl [OF h1] by (simp add: e refs_counted_def)
  next
    case False
    with r en obtain ps st2 where b: "(if static ht then unpersist_buckets_static unp (ht_data ht) st1
        else unpersist_buckets unp sh (ht_data ht) st1) = Some (ps, st2)"
      and o: "p = p1" "st' = unpersist_write p1 (CArr (ht\<lparr>ht_data := ps\<rparr>)) st2"
      by (auto simp: unpersist_ht_def static_def e split: Option.bind_splits)
    have "keeps_count lo st1 st2 (refs_buckets ps)"
    proof (cases "static ht")
      case True
      show ?thesis by (rule static_keeps_count [OF un _ h1, of "ht_data ht"]) (use True b mk in \<open>auto simp: marks_ok_def\<close>)
    next
      case False
      then show ?thesis using buckets_keep_count [OF un mk(2) h1] b by simp
    qed
    then show ?thesis using enter o by (simp add: e refs_counted_def)
  qed
qed

lemma ref_keeps_count:
  assumes un: "counts_ok lo R sh unp" and v: "zv_in R sh v"
    and h: "here lo st" and r: "unpersist_ref unp mm a v st = Some (p, st')"
  shows "keeps_count lo st st' {#p#}"
proof -
  obtain tab hp gc where e: "st = (tab, hp, gc)" by (cases st)
  obtain p1 st1 where en: "unpersist_enter mm a (CRef v) (tab, hp, gc) = (p1, st1)" by (cases "unpersist_enter mm a (CRef v) st") (simp add: e)
  with r obtain w st2 where w: "unp v st1 = Some (w, st2)" and o: "p = p1" "st' = unpersist_write p1 (CRef w) st2"
    by (auto simp: unpersist_ref_def e split: Option.bind_splits)
  from counts_okD(1) [OF un v enter_here [OF en h [unfolded e]] w]
  show ?thesis using keeps_count_enter [OF en h [unfolded e]] o by (simp add: e refs_counted_def)
qed

lemma zval_keeps_count:
  assumes cl: "closed R sh"
  shows "counts_ok lo R sh (unpersist_zval n mm sh)"
proof (induction n)
  case 0
  then show ?case by (simp add: counts_ok_def)
next
  case (Suc n)
  have "keeps_count lo st st' (refs_val r) \<and> (r = IS_UNDEF \<longleftrightarrow> v = IS_UNDEF)"
    if v: "zv_in R sh v" and h: "here lo st" and u: "unpersist_zval (Suc n) mm sh v st = Some (r, st')" for v st r st'
  proof (cases v)
    case (IS_STRING a)
    show ?thesis
    proof (cases "unpersist_copied mm a (fst st)")
      case None
      with u IS_STRING show ?thesis
        by (auto split: Option.bind_splits prod.splits dest: zstr_keeps_count [OF h])
    next
      case (Some p)
      with u IS_STRING addref_keeps_count [OF h Some] show ?thesis by auto
    qed
  next
    case (IS_ARRAY a)
    show ?thesis
    proof (cases "unpersist_copied mm a (fst st)")
      case None
      have "a \<in> R" using v IS_ARRAY by (simp add: zv_in_def)
      with None u IS_ARRAY show ?thesis
        by (auto split: Option.bind_splits dest: ht_keeps_count [OF Suc.IH cl _ _ h])
    next
      case (Some p)
      with u IS_ARRAY addref_keeps_count [OF h Some] show ?thesis by auto
    qed
  next
    case (IS_REFERENCE a)
    show ?thesis
    proof (cases "unpersist_copied mm a (fst st)")
      case None
      have "zv_in R sh w" if "hp_ref sh a = Some w" for w
        using v IS_REFERENCE cl that by (auto simp: zv_in_def closed_def)
      with None u IS_REFERENCE show ?thesis
        by (auto split: Option.bind_splits dest: ref_keeps_count [OF Suc.IH _ h])
    next
      case (Some p)
      with u IS_REFERENCE addref_keeps_count [OF h Some] show ?thesis by auto
    qed
  qed (use u v h in \<open>auto simp: keeps_count_refl zv_in_def\<close>)
  then show ?case unfolding counts_ok_def by blast
qed

section \<open>The counts do not matter to the copy\<close>

definition forget :: "('a \<times> unpersist_state) option \<Rightarrow> ('a \<times> (nat \<times> nat) list \<times> heap) option" where
  "forget = map_option (\<lambda>(x, tab, hp, gc). (x, tab, hp))"

definition blind :: "('a \<Rightarrow> unpersist_state \<Rightarrow> ('b \<times> unpersist_state) option) \<Rightarrow> bool" where
  "blind f \<longleftrightarrow> (\<forall>x tab hp g h. forget (f x (tab, hp, g)) = forget (f x (tab, hp, h)))"

lemma forget_simps [simp]:
  "forget None = None" "forget (Some (x, tab, hp, gc)) = Some (x, tab, hp)"
  by (simp_all add: forget_def)

lemma forget_eq_cases:
  assumes "forget x = forget y"
  obtains "x = None" "y = None" | r tab hp g h where "x = Some (r, tab, hp, g)" "y = Some (r, tab, hp, h)"
  using assms by (cases x; cases y) auto

lemma blindD: "blind f \<Longrightarrow> forget (f x (tab, hp, g)) = forget (f x (tab, hp, h))"
  by (simp add: blind_def)

lemma blind_bind:
  assumes "forget x = forget y" "\<And>r tab hp g h. forget (k r (tab, hp, g)) = forget (k r (tab, hp, h))"
  shows "forget (x \<bind> (\<lambda>(r, st). k r st)) = forget (y \<bind> (\<lambda>(r, st). k r st))"
  using assms by (cases rule: forget_eq_cases [OF assms(1)]) auto

lemma blind_static: "blind unp \<Longrightarrow> blind (unpersist_buckets_static unp)"
  unfolding blind_def [of "unpersist_buckets_static unp"]
proof (intro allI)
  fix qs tab hp g h assume "blind unp"
  then show "forget (unpersist_buckets_static unp qs (tab, hp, g)) = forget (unpersist_buckets_static unp qs (tab, hp, h))"
    by (induction qs arbitrary: tab hp g h) (auto intro!: blind_bind dest: blindD)
qed

lemma blind_key: "forget (unpersist_key sh key (tab, hp, g)) = forget (unpersist_key sh key (tab, hp, h))"
  by (cases "hp_str sh key") (auto simp: unpersist_key_def apc_unpersist_zstr_def unpersist_enter_def Let_def)

lemma blind_buckets: "blind unp \<Longrightarrow> blind (unpersist_buckets unp sh)"
  unfolding blind_def [of "unpersist_buckets unp sh"]
proof (intro allI)
  fix qs tab hp g h assume "blind unp"
  then show "forget (unpersist_buckets unp sh qs (tab, hp, g)) = forget (unpersist_buckets unp sh qs (tab, hp, h))"
    by (induction qs arbitrary: tab hp g h) (auto intro!: blind_bind blind_key dest: blindD)
qed

lemma blind_write: "forget (Some (x, unpersist_write a c (tab, hp, g))) = forget (Some (x, unpersist_write a c (tab, hp, h)))"
  by (simp add: unpersist_write_def)

lemma blind_zval: "blind (unpersist_zval n mm sh)"
proof (induction n)
  case 0
  then show ?case by (simp add: blind_def)
next
  case (Suc n)
  note st = blind_static [OF Suc.IH] and bu = blind_buckets [OF Suc.IH, of sh]
  have ht: "forget (unpersist_ht (unpersist_zval n mm sh) mm sh a t (tab, hp, g)) =
      forget (unpersist_ht (unpersist_zval n mm sh) mm sh a t (tab, hp, h))" for a t tab hp g h
    by (auto simp: unpersist_ht_def unpersist_enter_def Let_def blind_write intro!: blind_bind blindD [OF st] blindD [OF bu])
  have rf: "forget (unpersist_ref (unpersist_zval n mm sh) mm a v (tab, hp, g)) =
      forget (unpersist_ref (unpersist_zval n mm sh) mm a v (tab, hp, h))" for a v tab hp g h
    by (auto simp: unpersist_ref_def unpersist_enter_def Let_def blind_write intro!: blind_bind blindD [OF Suc.IH])
  have "forget (unpersist_zval (Suc n) mm sh v (tab, hp, g)) = forget (unpersist_zval (Suc n) mm sh v (tab, hp, h))" for v tab hp g h
    by (cases v; cases "unpersist_copied mm (Z_COUNTED v) tab"; cases "hp_get sh (Z_COUNTED v)")
      (auto simp: Z_ADDREF_def apc_unpersist_zstr_def unpersist_enter_def Let_def hp_str_def hp_arr_def hp_ref_def
        intro!: blind_bind ht rf split: counted.split)
  then show ?case by (simp add: blind_def)
qed

section \<open>The counts of a value read from the cache\<close>

text \<open>
  How often the value \<open>v\<close> and the structures that were added between \<open>rq\<close> and \<open>rq'\<close> point to \<open>a\<close>.
\<close>

definition pointers_to :: "heap \<Rightarrow> heap \<Rightarrow> zval \<Rightarrow> nat \<Rightarrow> nat" where
  "pointers_to rq rq' v a = count (given rq rq' (refs_val v)) a"

lemma unpersist_value_blind:
  assumes "unpersist_value sh v (rq, g) = Some (r, rq2, g2)"
  obtains h2 where "unpersist_value sh v (rq, h) = Some (r, rq2, h2)"
proof -
  have "forget (unpersist_zval (persist_fuel sh) (Z_TYPE v = 7) sh v ([], rq, g)) =
      forget (unpersist_zval (persist_fuel sh) (Z_TYPE v = 7) sh v ([], rq, h))"
    by (rule blindD [OF blind_zval])
  then show thesis
    by (cases rule: forget_eq_cases) (use assms that in \<open>auto simp: unpersist_value_def assert_c_def split: if_splits\<close>)
qed

lemma unpersist_value_counts:
  assumes "closed R sh" "zv_in R sh v" and u: "unpersist_value sh v (rq, gc) = Some (r, rq2, gc2)"
  shows "hp_fresh rq \<le> a \<Longrightarrow> a < hp_fresh rq2 \<Longrightarrow> 0 < pointers_to rq rq2 r a \<and> gc2 a = of_nat (pointers_to rq rq2 r a)"
    and "a < hp_fresh rq \<Longrightarrow> gc2 a = gc a"
proof -
  obtain tab where z: "unpersist_zval (persist_fuel sh) (Z_TYPE v = 7) sh v ([], rq, gc) = Some (r, tab, rq2, gc2)"
    using u by (auto simp: unpersist_value_def assert_c_def split: if_splits Option.bind_splits)
  have "here (hp_fresh rq) ([], rq, gc)" by (simp add: here_def)
  note k = keeps_countD [OF counts_okD(1) [OF zval_keeps_count [OF assms(1)] assms(2) this z]]
  show "0 < pointers_to rq rq2 r a \<and> gc2 a = of_nat (pointers_to rq rq2 r a)" if "hp_fresh rq \<le> a" "a < hp_fresh rq2"
    using that k(5) k(6) [of a] by (auto simp: pointers_to_def subset_iff)
  show "gc2 a = gc a" if a: "a < hp_fresh rq"
  proof -
    have "count (given rq rq2 (refs_val r)) a = 0" using k(4) a by (force simp: count_eq_zero_iff)
    then show ?thesis using k(2) k(6) [of a] a by simp
  qed
qed

lemma unpersist_not_serialized:
  "Z_TYPE zv \<noteq> 13 \<Longrightarrow> apc_unpersist php_unser srz sh zv rq = Some x \<Longrightarrow>
     \<exists>v rq2 gc2. x = (True, v, rq2) \<and> unpersist_value sh zv (rq, \<lambda>_. 0) = Some (v, rq2, gc2)"
  by (cases zv) (auto simp: apc_unpersist_def split: Option.bind_splits)

text \<open>
  C15: The reference counts of a value read from the cache are exact: every structure that
  \<open>apc_unpersist\<close> allocates in the request, key strings included, is pointed to, and its count
  is the number of pointers to it from the value and from the other new structures, for values
  that share structures or contain themselves too. The counts of the request's other structures
  stay as they are.
\<close>

theorem unpersist_counts_exact:
  assumes "heap_ok rq" "top_ok rq (ce_val orig)"
    "apc_persist php_ser malloc srz rq orig (s, sh) = Some (Some e, s1, sh')" "Z_TYPE (ce_val e) \<noteq> 13"
  shows "\<exists>v rq2 gc2. apc_unpersist php_unser srz sh' (ce_val e) rq1 = Some (True, v, rq2) \<and>
    unpersist_value sh' (ce_val e) (rq1, gc) = Some (v, rq2, gc2) \<and>
    (\<forall>a. hp_fresh rq1 \<le> a \<and> a < hp_fresh rq2 \<longrightarrow> 0 < pointers_to rq1 rq2 v a \<and> gc2 a = of_nat (pointers_to rq1 rq2 v a)) \<and>
    (\<forall>a < hp_fresh rq1. gc2 a = gc a)"
proof -
  obtain n where im: "stored_as php_ser srz rq (ce_val orig) (hp_get sh' |` {ce_addr e..<ce_addr e + n}) (ce_val e)"
    by (rule apc_persist_image [OF assms(1-3)])
  have im': "stored_as php_ser srz rq (ce_val orig) (hp_get sh') (ce_val e)"
    by (rule stored_as_mono [OF _ im]) (auto simp: map_le_def restrict_map_def)
  with assms(4) obtain M where M: "same_graph M (hp_get rq) (hp_get sh')" "tr M (ce_val orig) = Some (ce_val e)"
    by (auto simp: stored_as_def)
  have v: "zv_in (ran M) sh' (ce_val e)"
    using same_graph_zv_in [OF assms(1) M(1) _ M(2)] assms(2) by (simp add: top_ok_def)
  obtain x where "apc_unpersist php_unser srz sh' (ce_val e) rq1 = Some x"
    by (rule unpersist_image [OF assms(1,2) im']) blast+
  with unpersist_not_serialized [OF assms(4) this] obtain r rq2 g where
    u: "apc_unpersist php_unser srz sh' (ce_val e) rq1 = Some (True, r, rq2)"
      "unpersist_value sh' (ce_val e) (rq1, \<lambda>_. 0) = Some (r, rq2, g)" by blast
  from unpersist_value_blind [OF u(2)] obtain gc2 where w: "unpersist_value sh' (ce_val e) (rq1, gc) = Some (r, rq2, gc2)" .
  from unpersist_value_counts [OF same_graph_closed [OF assms(1) M(1)] v w] u(1) w show ?thesis by blast
qed

theorem unpersist_counts_exact_witness:
  "\<exists>e s1 sh' v rq2 gc2. apc_persist no_ser bump_malloc None loop_heap loop_entry (4096, []) = Some (Some e, s1, sh') \<and>
     unpersist_value sh' (ce_val e) ([], \<lambda>_. 0) = Some (v, rq2, gc2) \<and>
     (\<forall>a. 1 \<le> a \<and> a < hp_fresh rq2 \<longrightarrow> 0 < pointers_to [] rq2 v a \<and> gc2 a = of_nat (pointers_to [] rq2 v a))"
proof -
  obtain e s1 sh' where e: "apc_persist no_ser bump_malloc None loop_heap loop_entry (4096, []) = Some (Some e, s1, sh')"
    by (rule loop_persisted)
  obtain n where "stored_as no_ser None loop_heap (ce_val loop_entry) (hp_get sh' |` {ce_addr e..<ce_addr e + n}) (ce_val e)"
    by (rule apc_persist_image [OF loop_heap_ok loop_top e])
  then have "Z_TYPE (ce_val e) \<noteq> 13" by (auto simp: stored_as_def persist_serialize_def no_ser_def)
  with unpersist_counts_exact [OF loop_heap_ok loop_top e this, of "\<lambda>_ _. None" "[]" "\<lambda>_. 0"] e
  show ?thesis by (auto simp: hp_fresh_def)
qed

end
