(* ===== verification/Apc_Sma_Protect.thy ===== *)
theory Apc_Sma_Protect imports Apc_Sma begin

text \<open>
  The build with \<open>APC_MEMPROTECT\<close>, which the repository's configuration leaves out: a segment is
  mapped a second time for reading only, and \<open>apc_sma_protect\<close> and \<open>apc_sma_unprotect\<close> translate
  an address between the two mappings. The read-only address stands beside the segment; 0 is
  \<open>NULL\<close>. A failed \<open>mmap\<close> answers \<open>MAP_FAILED\<close>, the largest address.
\<close>

section \<open>Two mappings of a segment\<close>

definition MAP_FAILED :: nat where
  "MAP_FAILED = SIZE_MAX"

definition mmap_remap :: "string option \<Rightarrow> bool" where
  "mmap_remap file_mask =
     (case file_mask of None \<Rightarrow> False | Some m \<Rightarrow> m \<noteq> [] \<and> m \<noteq> ''/dev/zero'')"

text \<open>The first result is checked, after the second call was made; the second is not.\<close>

definition apc_mmap_ro ::
  "mm_sys \<Rightarrow> (nat \<Rightarrow> nat option) \<Rightarrow> string option \<Rightarrow> nat \<Rightarrow> os_state \<Rightarrow>
   (string + (apc_segment_t \<times> nat) \<times> string option) \<times> os_state" where
  "apc_mmap_ro sys sys_mmap_ro file_mask sz os =
     (case mmap_backing sys file_mask os of
        (Inl e, os1) \<Rightarrow> (Inl e, os1)
      | (Inr (fd, msk), os1) \<Rightarrow>
          (let rw = sys_mmap sys sz;
               os2 = (case rw of None \<Rightarrow> os1 | Some a \<Rightarrow> os1\<lparr>os_maps := (a, sz) # os_maps os1\<rparr>);
               ro = (if mmap_remap file_mask then sys_mmap_ro sz else Some 0);
               roaddr = (case ro of None \<Rightarrow> MAP_FAILED | Some r \<Rightarrow> r);
               os3 = (if mmap_remap file_mask \<and> ro \<noteq> None
                      then os2\<lparr>os_maps := (roaddr, sz) # os_maps os2\<rparr> else os2)
           in case rw of
                None \<Rightarrow> (Inl ''apc_mmap: Failed to mmap bytes. Is your apc.shm_size too large?'', os3)
              | Some a \<Rightarrow>
                  (Inr ((\<lparr>seg_size = sz, shmaddr = a, seg_mem = zero_mem\<rparr>, roaddr), msk),
                   if fd \<noteq> -1 then close_fd fd os3 else os3)))"

definition apc_unmap_ro :: "int \<Rightarrow> int \<Rightarrow> apc_segment_t \<times> nat \<Rightarrow> os_state \<Rightarrow> os_state" where
  "apc_unmap_ro munmap_rw munmap_ro sg os =
     (let os1 = apc_unmap munmap_rw (fst sg) os
      in if snd sg \<noteq> 0 then apc_unmap munmap_ro ((fst sg)\<lparr>shmaddr := snd sg\<rparr>) os1 else os1)"

definition apc_shm_attach_ro ::
  "nat option \<Rightarrow> nat option \<Rightarrow> int \<Rightarrow> nat \<Rightarrow> os_state \<Rightarrow> (string + apc_segment_t \<times> nat) \<times> os_state" where
  "apc_shm_attach_ro shmat_rw shmat_ro shmid sz os =
     (case shmat_rw of
        None \<Rightarrow> (Inl ''apc_shm_attach: shmat failed:'', os)
      | Some a \<Rightarrow>
          (let os1 = os\<lparr>os_maps := (a, sz) # os_maps os\<rparr>;
               (roaddr, os2) = (case shmat_ro of
                  None \<Rightarrow> (0, os1)
                | Some r \<Rightarrow> (r, os1\<lparr>os_maps := (r, sz) # os_maps os1\<rparr>))
           in (Inr (\<lparr>seg_size = sz, shmaddr = a, seg_mem = zero_mem\<rparr>, roaddr), apc_shm_destroy shmid os2)))"

definition apc_shm_detach_ro :: "int \<Rightarrow> int \<Rightarrow> apc_segment_t \<times> nat \<Rightarrow> os_state \<Rightarrow> os_state" where
  "apc_shm_detach_ro shmdt_rw shmdt_ro sg os =
     (let os1 = apc_shm_detach shmdt_rw (fst sg) os
      in if snd sg \<noteq> 0 then apc_shm_detach shmdt_ro ((fst sg)\<lparr>shmaddr := snd sg\<rparr>) os1 else os1)"

section \<open>Translating addresses\<close>

text \<open>The allocator of this build: \<open>ro_addrs\<close> are the \<open>roaddr\<close> fields of its segments.\<close>

record sma_ro = apc_sma_t +
  ro_addrs :: "nat list"

definition SMA_RO :: "sma_ro \<Rightarrow> nat \<Rightarrow> nat" where
  "SMA_RO sma i = ro_addrs sma ! i"

definition SMA_RW :: "sma_ro \<Rightarrow> nat \<Rightarrow> nat" where
  "SMA_RW sma i = SMA_ADDR (apc_sma_t.truncate sma) i"

text \<open>The segment whose mapping at \<open>base\<close> holds \<open>p\<close>: the last one used first, then in order.\<close>

definition in_mapping :: "(nat \<Rightarrow> nat) \<Rightarrow> sma_ro \<Rightarrow> nat \<Rightarrow> nat \<Rightarrow> bool" where
  "in_mapping base sma p i \<longleftrightarrow> base i \<le> p \<and> p - base i < sma_size sma"

definition find_mapping :: "(nat \<Rightarrow> nat) \<Rightarrow> sma_ro \<Rightarrow> nat \<Rightarrow> nat option" where
  "find_mapping base sma p =
     (if in_mapping base sma p (sma_last sma) then Some (sma_last sma)
      else List.find (in_mapping base sma p) [0..<num sma])"

definition sma_protect_ro :: "sma_ro \<Rightarrow> nat \<Rightarrow> nat" where
  "sma_protect_ro sma p =
     (if p = 0 then 0
      else if SMA_RO sma (sma_last sma) = 0 then p
      else case find_mapping (SMA_RW sma) sma p of
             Some i \<Rightarrow> sz_add (SMA_RO sma i) (p - SMA_RW sma i)
           | None \<Rightarrow> 0)"

definition sma_unprotect_ro :: "sma_ro \<Rightarrow> nat \<Rightarrow> nat" where
  "sma_unprotect_ro sma p =
     (if p = 0 then 0
      else if SMA_RO sma (sma_last sma) = 0 then p
      else case find_mapping (SMA_RO sma) sma p of
             Some i \<Rightarrow> sz_add (SMA_RW sma i) (p - SMA_RO sma i)
           | None \<Rightarrow> 0)"

section \<open>What the two mappings promise\<close>

text \<open>Both mappings of every segment lie in the address space, no two of a kind overlap.\<close>

definition mappings_apart :: "(nat \<Rightarrow> nat) \<Rightarrow> sma_ro \<Rightarrow> bool" where
  "mappings_apart base sma \<longleftrightarrow> sma_last sma < num sma \<and>
     (\<forall>i < num sma. 0 < base i \<and> base i + sma_size sma \<le> SIZE_LIMIT) \<and>
     (\<forall>i < num sma. \<forall>j < num sma. i \<noteq> j \<longrightarrow>
        base i + sma_size sma \<le> base j \<or> base j + sma_size sma \<le> base i)"

lemma in_mapping_unique:
  assumes "mappings_apart base sma" "i < num sma" "j < num sma" "in_mapping base sma p i" "in_mapping base sma p j"
  shows "i = j"
proof (rule ccontr)
  assume "i \<noteq> j"
  with assms(1-3) have "base i + sma_size sma \<le> base j \<or> base j + sma_size sma \<le> base i"
    unfolding mappings_apart_def by blast
  then show False using assms(4,5) unfolding in_mapping_def by linarith
qed

lemma find_mapping_eq:
  assumes "mappings_apart base sma" "i < num sma" "in_mapping base sma p i"
  shows "find_mapping base sma p = Some i"
proof (cases "in_mapping base sma p (sma_last sma)")
  case True
  have "sma_last sma < num sma" using assms(1) by (simp add: mappings_apart_def)
  with True in_mapping_unique [OF assms(1) this assms(2) True assms(3)] show ?thesis by (simp add: find_mapping_def)
next
  case False
  have "\<exists>j. List.find (in_mapping base sma p) [0..<num sma] = Some j"
    using assms(2,3) by (cases "List.find (in_mapping base sma p) [0..<num sma]") (auto simp: find_None_iff)
  then obtain j where j: "List.find (in_mapping base sma p) [0..<num sma] = Some j" by blast
  then have "j < num sma" "in_mapping base sma p j" by (auto simp: find_Some_iff)
  with in_mapping_unique [OF assms(1) assms(2) _ assms(3)] j False show ?thesis by (simp add: find_mapping_def)
qed

lemma moved_address:
  assumes "mappings_apart frm sma" "mappings_apart onto sma" "i < num sma" "in_mapping frm sma p i"
  defines "q \<equiv> sz_add (onto i) (p - frm i)"
  shows "0 < q" "in_mapping onto sma q i" "q - onto i = p - frm i" "sz_add (frm i) (q - onto i) = p"
proof -
  have lt: "p - frm i < sma_size sma" "frm i \<le> p" using assms(4) by (simp_all add: in_mapping_def)
  have b: "frm i + sma_size sma \<le> SIZE_LIMIT" "onto i + sma_size sma \<le> SIZE_LIMIT" "0 < onto i"
    using assms(1-3) by (auto simp: mappings_apart_def)
  have q: "q = onto i + (p - frm i)" unfolding q_def by (rule sz_add_exact) (use lt b in linarith)
  then show "0 < q" "in_mapping onto sma q i" "q - onto i = p - frm i" using b lt by (auto simp: in_mapping_def)
  have "sz_add (frm i) (p - frm i) = frm i + (p - frm i)" by (rule sz_add_exact) (use lt b in linarith)
  then show "sz_add (frm i) (q - onto i) = p" using q lt by simp
qed

text \<open>
  An address of a segment is translated into the read-only mapping of the same segment, at the
  same offset, and back; and the other way round.
\<close>

lemma unprotect_protect:
  assumes "mappings_apart (SMA_RW sma) sma" "mappings_apart (SMA_RO sma) sma"
    and "i < num sma" "in_mapping (SMA_RW sma) sma p i"
  shows "sma_unprotect_ro sma (sma_protect_ro sma p) = p"
    and "in_mapping (SMA_RO sma) sma (sma_protect_ro sma p) i"
proof -
  note m = moved_address [OF assms]
  have nz: "0 < p" "SMA_RO sma (sma_last sma) \<noteq> 0"
    using assms by (auto simp: mappings_apart_def in_mapping_def)
  have p: "sma_protect_ro sma p = sz_add (SMA_RO sma i) (p - SMA_RW sma i)"
    using nz find_mapping_eq [OF assms(1,3,4)] by (simp add: sma_protect_ro_def)
  then show "sma_unprotect_ro sma (sma_protect_ro sma p) = p"
    using m nz find_mapping_eq [OF assms(2,3) m(2)] by (simp add: sma_unprotect_ro_def)
  show "in_mapping (SMA_RO sma) sma (sma_protect_ro sma p) i" using m(2) by (simp add: p)
qed

lemma protect_unprotect:
  assumes "mappings_apart (SMA_RW sma) sma" "mappings_apart (SMA_RO sma) sma"
    and "i < num sma" "in_mapping (SMA_RO sma) sma p i"
  shows "sma_protect_ro sma (sma_unprotect_ro sma p) = p"
    and "in_mapping (SMA_RW sma) sma (sma_unprotect_ro sma p) i"
proof -
  note m = moved_address [OF assms(2,1,3,4)]
  have nz: "0 < p" "SMA_RO sma (sma_last sma) \<noteq> 0"
    using assms by (auto simp: mappings_apart_def in_mapping_def)
  have p: "sma_unprotect_ro sma p = sz_add (SMA_RW sma i) (p - SMA_RO sma i)"
    using nz find_mapping_eq [OF assms(2,3,4)] by (simp add: sma_unprotect_ro_def)
  then show "sma_protect_ro sma (sma_unprotect_ro sma p) = p"
    using m nz find_mapping_eq [OF assms(1,3) m(2)] by (simp add: sma_protect_ro_def)
  show "in_mapping (SMA_RW sma) sma (sma_unprotect_ro sma p) i" using m(2) by (simp add: p)
qed

text \<open>
  Both sources give back what they mapped. \<open>apc_shm_attach\<close> turns a failed second mapping into
  \<open>NULL\<close>; \<open>apc_mmap\<close> returns \<open>MAP_FAILED\<close>, which is not \<open>NULL\<close>, so it is used as an address: the
  translation of the segment's first byte is then the top of the address space.
\<close>

lemma shm_ro_given_back:
  "apc_shm_attach_ro rw ro shmid n os = (Inr sg, os1) \<Longrightarrow> ro \<noteq> Some 0 \<Longrightarrow>
     os_maps (apc_shm_detach_ro 0 0 sg os1) = os_maps os"
  by (auto simp: apc_shm_attach_ro_def apc_shm_detach_ro_def os_defs Let_def split: option.splits)

lemma mmap_ro_given_back:
  assumes "apc_mmap_ro sys ro m n os = (Inr (sg, msk), os1)" "ro n \<noteq> None" "ro n \<noteq> Some 0"
  shows "os_maps (apc_unmap_ro 0 0 sg os1) = os_maps os"
proof -
  obtain fd a os0 where b: "mmap_backing sys m os = (Inr (fd, msk), os0)" and a: "sys_mmap sys n = Some a"
    using assms(1) by (auto simp: apc_mmap_ro_def Let_def split: prod.splits sum.splits option.splits)
  then show ?thesis using assms mmap_backing_leaves [OF b]
    by (auto simp: apc_mmap_ro_def apc_unmap_ro_def apc_unmap_def close_fd_def Let_def remove1_commute
        split: option.splits if_splits)
qed

lemma mmap_ro_failure_unnoticed:
  "mmap_backing sys m os = (Inr (fd, msk), os1) \<Longrightarrow> mmap_remap m \<Longrightarrow> sys_mmap sys n = Some a \<Longrightarrow> ro n = None \<Longrightarrow>
     \<exists>os2. apc_mmap_ro sys ro m n os = (Inr ((\<lparr>seg_size = n, shmaddr = a, seg_mem = zero_mem\<rparr>, MAP_FAILED), msk), os2)"
  by (simp add: apc_mmap_ro_def Let_def)

lemma protect_after_failure:
  assumes "sma_last sma = 0" "SMA_RO sma 0 = MAP_FAILED" "SMA_RW sma 0 = a" "0 < a" "0 < sma_size sma"
  shows "sma_protect_ro sma a = MAP_FAILED"
  using assms by (simp add: sma_protect_ro_def find_mapping_def in_mapping_def MAP_FAILED_def sz_add_def SIZE_MAX_def SIZE_LIMIT_def)

end
