(* ===== verification/Apc_Iterator_Props.thy ===== *)
theory Apc_Iterator_Props imports Apc_Iterator Apc_Cache_Create begin

text \<open>
  What an iterator yields. A pass over the slots collects the entries that have not expired and
  match the search, in the order of the slots; driving the iterator the way \<open>foreach\<close> does yields
  each of them once.
\<close>

section \<open>One item\<close>

definition wanted :: "apc_iterator_t \<Rightarrow> i64 \<Rightarrow> apc_cache_entry_t \<Rightarrow> bool" where
  "wanted it t e \<longleftrightarrow> apc_iterator_check_expiry e t \<and> apc_iterator_search_match it e"

definition item_of :: "apc_iterator_t \<Rightarrow> apc_cache_entry_t \<Rightarrow> apc_iterator_item_t \<Rightarrow> bool" where
  "item_of it e i \<longleftrightarrow> itm_key i = mk_zstr (zval_of_key e) \<and>
     (\<exists>v. itm_value i = item_fields (ai_format it) (itm_key i) v e)"

text \<open>The values the format asks for can be copied out of the cache.\<close>

definition copies_out :: "apc_iterator_t \<Rightarrow> apc_env \<Rightarrow> world \<Rightarrow> apc_cache_entry_t \<Rightarrow> bool" where
  "copies_out it ev w e \<longleftrightarrow> (bit (ai_format it) 2 \<longrightarrow> (\<forall>rq. apc_cache_entry_fetch_zval (ev\<lparr>ev_rq := rq\<rparr>) e w \<noteq> None))"

lemma ev_rq_twice [simp]: "ev\<lparr>ev_rq := a, ev_rq := b\<rparr> = ev\<lparr>ev_rq := b\<rparr>"
  by simp

lemma copies_out_rq [simp]: "copies_out it (ev\<lparr>ev_rq := rq\<rparr>) w e = copies_out it ev w e"
  by (simp add: copies_out_def)

lemma item_ctor_ok:
  assumes "copies_out it ev w e"
  obtains i rq where "apc_iterator_item_ctor it e w ev = Some (i, ev\<lparr>ev_rq := rq\<rparr>)" "item_of it e i"
proof (cases "bit (ai_format it) 2")
  case True
  then obtain r where "apc_cache_entry_fetch_zval ev e w = Some r"
    using assms [unfolded copies_out_def, rule_format, of "ev_rq ev"] by auto
  then show ?thesis using that True
    by (cases r) (auto simp: apc_iterator_item_ctor_def item_of_def zend_string_dup_def zval_of_key_def Let_def)
next
  case False
  then show ?thesis using that [of _ "ev_rq ev"]
    by (auto simp: apc_iterator_item_ctor_def item_of_def zend_string_dup_def zval_of_key_def Let_def)
qed

lemma fetch_entry_ok:
  assumes "copies_out it ev w e" "st_inv st"
  obtains i st1 rq where "fetch_entry it w e (n, st, ev) = Some (n + 1, st1, ev\<lparr>ev_rq := rq\<rparr>)" "st_inv st1"
    "st_list st1 = st_list st @ [i]" "item_of it e i"
proof -
  obtain i rq where i: "apc_iterator_item_ctor it e w ev = Some (i, ev\<lparr>ev_rq := rq\<rparr>)" "item_of it e i"
    by (rule item_ctor_ok [OF assms(1)])
  obtain st1 where "apc_stack_push st i = Some st1" "st_inv st1" "st_list st1 = st_list st @ [i]"
    using istack.push_ok [OF assms(2), of i] by blast
  with i that show ?thesis by (simp add: fetch_entry_def)
qed

section \<open>Passes over chains and slots\<close>

text \<open>What a pass adds to the stack for a list of entries.\<close>

definition adds :: "apc_iterator_t \<Rightarrow> apc_cache_entry_t list \<Rightarrow> fetch_acc \<Rightarrow> fetch_acc \<Rightarrow> bool" where
  "adds it es acc acc' \<longleftrightarrow> (case (acc, acc') of ((n, st, ev), (n', st', ev')) \<Rightarrow>
     n' = n + length es \<and> st_inv st' \<and> (\<exists>rq. ev' = ev\<lparr>ev_rq := rq\<rparr>) \<and>
     (\<exists>is. st_list st' = st_list st @ is \<and> list_all2 (item_of it) es is))"

lemma adds_nil: "st_inv (fst (snd acc)) \<Longrightarrow> adds it [] acc acc"
  by (cases acc) (auto simp: adds_def intro: exI [of _ "ev_rq (snd (snd acc))"])

lemma adds_one:
  assumes "copies_out it (snd (snd acc)) w e" "st_inv (fst (snd acc))"
  obtains acc1 where "fetch_entry it w e acc = Some acc1" "adds it [e] acc acc1"
proof -
  obtain n st ev where acc: "acc = (n, st, ev)" by (cases acc)
  obtain i st1 rq where "fetch_entry it w e (n, st, ev) = Some (n + 1, st1, ev\<lparr>ev_rq := rq\<rparr>)" "st_inv st1"
    "st_list st1 = st_list st @ [i]" "item_of it e i"
    by (rule fetch_entry_ok [of it ev w e st n]) (use assms acc in simp_all)
  then show ?thesis using that by (auto simp: adds_def acc)
qed

lemma adds_append: "adds it es1 a b \<Longrightarrow> adds it es2 b c \<Longrightarrow> adds it (es1 @ es2) a c"
  by (cases a; cases b; cases c) (auto simp: adds_def intro!: list_all2_appendI)

lemma addsD:
  assumes "adds it es a b"
  shows "st_inv (fst (snd b))" "copies_out it (snd (snd b)) w e = copies_out it (snd (snd a)) w e" "fst b = fst a + length es"
  using assms by (cases a; cases b; auto simp: adds_def)+

lemma active_chain_ok:
  assumes "\<forall>e \<in> set es. copies_out it (snd (snd acc)) w e" "st_inv (fst (snd acc))"
  shows "\<exists>acc'. active_chain it w t es acc = Some acc' \<and> adds it (filter (wanted it t) es) acc acc'"
  using assms
proof (induction es arbitrary: acc)
  case Nil
  then show ?case using adds_nil by auto
next
  case (Cons e es)
  show ?case
  proof (cases "wanted it t e")
    case True
    obtain acc1 where 1: "fetch_entry it w e acc = Some acc1" "adds it [e] acc acc1"
      by (rule adds_one [of it acc w e]) (use Cons.prems in simp_all)
    obtain acc2 where "active_chain it w t es acc1 = Some acc2" "adds it (filter (wanted it t) es) acc1 acc2"
      using Cons.IH [of acc1] Cons.prems(1) addsD [OF 1(2)] by auto
    then have "adds it (filter (wanted it t) (e # es)) acc acc2" using True adds_append [OF 1(2), of "filter (wanted it t) es" acc2] by simp
    moreover have "active_chain it w t (e # es) acc = Some acc2"
      using True 1(1) \<open>active_chain it w t es acc1 = Some acc2\<close> by (simp add: wanted_def)
    ultimately show ?thesis by blast
  next
    case False
    then have "active_chain it w t (e # es) acc = active_chain it w t es acc" by (simp add: wanted_def)
    with False Cons show ?thesis by simp
  qed
qed

lemma active_slots_ok:
  assumes "\<forall>e \<in> set (concat ess). copies_out it (snd (snd acc)) w e" "st_inv (fst (snd acc))"
  shows "\<exists>n acc'. active_slots it w t ess s acc = Some (s + n, acc') \<and> n \<le> length ess \<and>
    adds it (filter (wanted it t) (concat (take n ess))) acc acc' \<and> (n = length ess \<or> ai_chunk_size it < fst acc')"
  using assms
proof (induction ess arbitrary: s acc)
  case Nil
  then show ?case using adds_nil by auto
next
  case (Cons es ess)
  show ?case
  proof (cases "fst acc \<le> ai_chunk_size it")
    case True
    obtain acc1 where 1: "active_chain it w t es acc = Some acc1" "adds it (filter (wanted it t) es) acc acc1"
      using active_chain_ok [of es it acc w t] Cons.prems by auto
    obtain n acc2 where 2: "active_slots it w t ess (s + 1) acc1 = Some (s + 1 + n, acc2)" "n \<le> length ess"
      "adds it (filter (wanted it t) (concat (take n ess))) acc1 acc2" "n = length ess \<or> ai_chunk_size it < fst acc2"
      using Cons.IH [of acc1 "s + 1"] Cons.prems(1) addsD [OF 1(2)] by auto
    show ?thesis
      using 1(1) 2 True adds_append [OF 1(2) 2(3)] by (intro exI [of _ "Suc n"] exI [of _ acc2]) auto
  next
    case False
    then show ?thesis using adds_nil [of acc it] Cons.prems(2) by (intro exI [of _ 0] exI [of _ acc]) auto
  qed
qed

section \<open>One fetch\<close>

lemma stack_size_small: "st_inv st \<Longrightarrow> length (st_list st) < 2 ^ 31 \<Longrightarrow> apc_stack_size st = int (length (st_list st))"
  using apc_stack_size_ok [of st] length_st_list [of st] by simp

lemma stack_drain_ok:
  assumes "st_inv st" "length (st_list st) < 2 ^ 31" "length (st_list st) = n"
  shows "\<exists>st'. stack_drain n st = Some st' \<and> st_inv st' \<and> st_list st' = []"
  using assms
proof (induction n arbitrary: st)
  case 0
  then show ?case using stack_size_small [of st] by simp
next
  case (Suc n)
  have ne: "st_list st \<noteq> []" using Suc.prems(3) by auto
  obtain st1 where "apc_stack_pop st = Some (last (st_list st), st1)" "st_inv st1" "st_list st1 = butlast (st_list st)"
    using istack.pop_ok [OF Suc.prems(1) ne] by blast
  with Suc.IH [of st1] Suc.prems stack_size_small [OF Suc.prems(1,2)] show ?case by simp
qed

text \<open>The world with the clock of the request read.\<close>

definition ticked :: "apc_env \<Rightarrow> world \<Rightarrow> world" where
  "ticked ev w = upd_g (snd (apc_time ev (glb w))) w"

lemma upd_g_simps [simp]:
  "glb (upd_g g w) = g" "cch (upd_g g w) = cch w" "fst (upd_g g w) = fst w" "cs_null (snd (upd_g g w)) = cs_null (snd w)"
  "cs_shm (snd (upd_g g w)) = cs_shm (snd w)" "upd_g g (upd_g g' w) = upd_g g w"
  by (simp_all add: upd_g_def)

lemma apc_time_rq [simp]: "apc_time (ev\<lparr>ev_rq := rq\<rparr>) = apc_time ev"
  by (simp add: apc_time_def fun_eq_iff)

lemma ticked_simps [simp]:
  "cch (ticked ev w) = cch w" "ticked ev (ticked ev w) = ticked ev w" "ticked (ev\<lparr>ev_rq := rq\<rparr>) = ticked ev"
  "apc_time ev (glb (ticked ev w)) = apc_time ev (glb w)"
  by (simp_all add: ticked_def fun_eq_iff)

lemma ticked_ready:
  assumes "cache_ready w"
  shows "cache_ready (ticked ev w)" "lock_works (ticked ev w) = lock_works w" "same_config ev w (ticked ev w)"
    "copies_out it ev' (ticked ev w) e = copies_out it ev' w e"
proof -
  show c: "same_config ev w (ticked ev w)" unfolding ticked_def by (rule same_config_time)
  have "cache_inv {} (ticked ev w)"
    using cache_inv_cong [of "ticked ev w" w "{}"] cache_readyD(2) [OF assms] by (simp add: ticked_def)
  then show "cache_ready (ticked ev w)" using cache_ready_config [OF assms _ c] by blast
  show "lock_works (ticked ev w) = lock_works w" by (rule lock_works_config [OF c])
  show "copies_out it ev' (ticked ev w) e = copies_out it ev' w e"
    by (simp add: copies_out_def apc_cache_entry_fetch_zval_def ticked_def)
qed

text \<open>The entries an iterator has not come to yet.\<close>

definition ahead :: "apc_iterator_t \<Rightarrow> i64 \<Rightarrow> world \<Rightarrow> nat \<Rightarrow> apc_cache_entry_t list" where
  "ahead it t w s = filter (wanted it t) (concat (drop s (c_slots (cch w))))"

definition moved :: "apc_iterator_t \<Rightarrow> nat \<Rightarrow> apc_iterator_item_t apc_stack_t \<Rightarrow> apc_iterator_t" where
  "moved it s st = it\<lparr>ai_slot_idx := s, ai_stack := st, ai_stack_idx := 0\<rparr>"

lemma wanted_cong:
  "ai_regex it' = ai_regex it \<Longrightarrow> ai_search_hash it' = ai_search_hash it \<Longrightarrow> wanted it' = wanted it"
  by (simp add: wanted_def apc_iterator_search_match_def fun_eq_iff)

lemma item_of_cong: "ai_format it' = ai_format it \<Longrightarrow> item_of it' = item_of it"
  by (simp add: item_of_def fun_eq_iff)

lemma copies_out_cong: "ai_format it' = ai_format it \<Longrightarrow> copies_out it' = copies_out it"
  by (simp add: copies_out_def fun_eq_iff)

lemma fetch_active_ok:
  assumes r: "cache_ready w" and lw: "lock_works w" and cp: "\<forall>e \<in> set (entries (cch w)). copies_out it ev w e"
    and st: "st_inv (ai_stack it)" "length (st_list (ai_stack it)) < 2 ^ 31" and t: "t = fst (apc_time ev (glb w))"
  obtains es ys s st1 rq where
    "apc_iterator_fetch_active it ev w = Some (length ys, moved it s st1, ev\<lparr>ev_rq := rq\<rparr>, ticked ev w)"
    "st_inv st1" "st_list st1 = ys" "list_all2 (item_of it) es ys" "ahead it t w (ai_slot_idx it) = es @ ahead it t w s"
    "es = [] \<longrightarrow> ahead it t w s = []" "ai_slot_idx it \<le> s" "ai_slot_idx it \<le> c_nslots (cch w) \<longrightarrow> s \<le> c_nslots (cch w)"
    "es = [] \<or> ai_slot_idx it < s"
    "set es = {e \<in> set (concat (take (s - ai_slot_idx it) (drop (ai_slot_idx it) (c_slots (cch w))))). wanted it t e}"
proof -
  let ?s0 = "ai_slot_idx it" and ?w0 = "ticked ev w"
  obtain st0 where st0: "stack_drain (st_size (ai_stack it)) (ai_stack it) = Some st0" "st_inv st0" "st_list st0 = []"
    using stack_drain_ok [OF st length_st_list [OF st(1)]] by auto
  define it0 where "it0 = it\<lparr>ai_stack := st0\<rparr>"
  have c0: "wanted it0 = wanted it" "item_of it0 = item_of it" "copies_out it0 = copies_out it"
    by (rule wanted_cong item_of_cong copies_out_cong; simp add: it0_def)+
  note w0 = ticked_ready [OF r, where ev = ev]
  have tab: "take (c_nslots (cch w)) (c_slots (cch w)) = c_slots (cch w)"
    using table_okD(2) [OF cache_readyD(4) [OF r]] by simp
  have "\<exists>l d. apc_cache_rlock ?w0 = Some (True, relock l d ?w0) \<and> apc_cache_runlock (relock l d ?w0) = Some ?w0"
  proof (cases rule: rsection [OF cache_readyD(3) [OF w0(1)]])
    case 1
    then show ?thesis using lw w0(2) by simp
  next
    case (2 l d)
    have "apc_cache_runlock (relock l d ?w0) = Some (relock (c_lock (cch ?w0)) (g_depth (glb ?w0)) (relock l d ?w0))"
      by (rule 2(3) [rule_format]) simp_all
    then have "apc_cache_runlock (relock l d ?w0) = Some ?w0" unfolding relock_twice relock_same .
    with 2(2) show ?thesis by blast
  qed
  then obtain l d where lk: "apc_cache_rlock ?w0 = Some (True, relock l d ?w0)" "apc_cache_runlock (relock l d ?w0) = Some ?w0"
    by blast
  let ?w1 = "relock l d ?w0" and ?rest = "drop ?s0 (c_slots (cch w))"
  have cp1: "\<forall>e \<in> set (concat ?rest). copies_out it0 ev ?w1 e"
  proof
    fix e assume "e \<in> set (concat ?rest)"
    then have "e \<in> set (entries (cch w))" unfolding entries_def by (auto dest: in_set_dropD)
    with cp show "copies_out it0 ev ?w1 e" by (simp add: c0(3) copies_out_def apc_cache_entry_fetch_zval_def ticked_def)
  qed
  have cp2: "\<forall>e \<in> set (concat ?rest). copies_out it0 (snd (snd (0::nat, st0, ev))) ?w1 e" "st_inv (fst (snd (0::nat, st0, ev)))"
    using cp1 st0(2) by simp_all
  obtain n acc1 where a: "active_slots it0 ?w1 t ?rest ?s0 (0, st0, ev) = Some (?s0 + n, acc1)" "n \<le> length ?rest"
    "adds it0 (filter (wanted it0 t) (concat (take n ?rest))) (0, st0, ev) acc1" "n = length ?rest \<or> ai_chunk_size it0 < fst acc1"
    using active_slots_ok [OF cp2] by blast
  obtain m st1 ev1 where acc1: "acc1 = (m, st1, ev1)" by (cases acc1)
  define es where "es = filter (wanted it t) (concat (take n ?rest))"
  obtain ys rq where i: "m = length ys" "st_inv st1" "st_list st1 = ys" "list_all2 (item_of it) es ys" "ev1 = ev\<lparr>ev_rq := rq\<rparr>"
    using a(3) st0(3) unfolding acc1 adds_def c0 es_def [symmetric] by (auto dest: list_all2_lengthD)
  have f: "apc_iterator_fetch_active it ev w = Some (length ys, moved it (?s0 + n) st1, ev\<lparr>ev_rq := rq\<rparr>, ?w0)"
  proof -
    obtain g where g: "apc_time ev (glb w) = (t, g)" "?w0 = upd_g g w" using t by (cases "apc_time ev (glb w)") (auto simp: ticked_def)
    then show ?thesis
      using st0(1) lk a(1) cache_readyD(1) [OF r]
      by (simp add: apc_iterator_fetch_active_def tab i acc1 it0_def moved_def)
  qed
  have sp: "ahead it t w ?s0 = es @ ahead it t w (?s0 + n)"
  proof -
    have "?rest = take n ?rest @ drop (?s0 + n) (c_slots (cch w))" by (metis append_take_drop_id drop_drop add.commute)
    then show ?thesis by (metis ahead_def es_def concat_append filter_append)
  qed
  have e: "es = [] \<longrightarrow> ahead it t w (?s0 + n) = []"
  proof
    assume "es = []"
    then have "m = 0" using i(1,4) by simp
    then have "n = length ?rest" using a(4) acc1 by simp
    then show "ahead it t w (?s0 + n) = []" by (simp add: ahead_def)
  qed
  have n0: "es = [] \<or> ?s0 < ?s0 + n" by (cases n) (simp_all add: es_def)
  have nn: "?s0 \<le> c_nslots (cch w) \<longrightarrow> ?s0 + n \<le> c_nslots (cch w)"
    using a(2) table_okD(2) [OF cache_readyD(4) [OF r]] by auto
  show ?thesis by (rule that [OF f i(2,3,4) sp e _ nn n0]) (auto simp: es_def)
qed

section \<open>The calls of a foreach\<close>

text \<open>
  PHP's \<open>foreach\<close> over an object of a class that implements \<open>Iterator\<close> calls \<open>rewind\<close> and then,
  in every round, \<open>valid\<close>, \<open>current\<close>, \<open>key\<close> and, after the body, \<open>next\<close>. The first \<open>n\<close> rounds: what
  they hand to the body, and whether \<open>valid\<close> has ended the loop.
\<close>

fun both :: "info_arr php_result \<Rightarrow> zend_string php_result \<Rightarrow> (zend_string \<times> info_arr) option" where
  "both (Return c) (Return k) = Some (k, c)"
| "both _ _ = None"

primrec foreach_rounds ::
  "nat \<Rightarrow> apc_iterator_t \<Rightarrow> apc_env \<Rightarrow> world \<Rightarrow> ((zend_string \<times> info_arr) list \<times> bool \<times> apc_iterator_t \<times> apc_env \<times> world) option" where
  "foreach_rounds 0 it ev w = Some ([], False, it, ev, w)"
| "foreach_rounds (Suc n) it ev w = do {
     (v, it1, ev1, w1) \<leftarrow> APCUIterator_valid it ev w;
     if v \<noteq> Return True then Some ([], True, it1, ev1, w1)
     else do {
       (c, it2, ev2, w2) \<leftarrow> APCUIterator_current it1 ev1 w1;
       (k, it3, ev3, w3) \<leftarrow> APCUIterator_key it2 ev2 w2;
       x \<leftarrow> both c k;
       (xs, ended, it4, ev4, w4) \<leftarrow> foreach_rounds n (snd (APCUIterator_next it3)) ev3 w3;
       Some (x # xs, ended, it4, ev4, w4)
     }
   }"

definition foreach ::
  "nat \<Rightarrow> apc_iterator_t \<Rightarrow> apc_env \<Rightarrow> world \<Rightarrow> ((zend_string \<times> info_arr) list \<times> bool \<times> apc_iterator_t \<times> apc_env \<times> world) option" where
  "foreach n it ev w = do {
     (_, it1, ev1, w1) \<leftarrow> APCUIterator_rewind it ev w;
     foreach_rounds n it1 ev1 w1
   }"

text \<open>An iterator with an item under its cursor.\<close>

definition at_item :: "apc_iterator_t \<Rightarrow> bool" where
  "at_item it \<longleftrightarrow> ai_initialized it \<and> st_inv (ai_stack it) \<and> length (st_list (ai_stack it)) < 2 ^ 31 \<and>
     0 \<le> ai_stack_idx it \<and> nat (ai_stack_idx it) < length (st_list (ai_stack it))"

abbreviation item_at :: "apc_iterator_t \<Rightarrow> apc_iterator_item_t" where
  "item_at it \<equiv> st_list (ai_stack it) ! nat (ai_stack_idx it)"

definition advanced :: "apc_iterator_t \<Rightarrow> apc_iterator_t" where
  "advanced it = it\<lparr>ai_stack_idx := ai_stack_idx it + 1, ai_key_idx := ai_key_idx it + 1\<rparr>"

lemma unat_small_int: "0 \<le> i \<Longrightarrow> nat i < 2 ^ 31 \<Longrightarrow> unat (word_of_int i :: u64) = nat i"
  by (simp add: unat_eq_nat_uint take_bit_int_eq_self uint_word_of_int)

lemma stack_at_item: "at_item it \<Longrightarrow> stack_at it = Some (item_at it)"
  using unat_small_int [of "ai_stack_idx it"] istack.get_ok [of "ai_stack it"]
  by (simp add: at_item_def stack_at_def)

lemma at_item_no_fetch:
  "at_item it \<Longrightarrow> apc_stack_size (ai_stack it) \<noteq> ai_stack_idx it \<and> apc_stack_size (ai_stack it) \<noteq> 0"
  using stack_size_small [of "ai_stack it"] by (auto simp: at_item_def)

lemma round_body:
  assumes "at_item it"
  shows "APCUIterator_current it ev w = Some (Return (itm_value (item_at it)), it, ev, w)"
    "APCUIterator_key it ev w = Some (Return (itm_key (item_at it)), it, ev, w)"
    "snd (APCUIterator_next it) = advanced it"
  using assms at_item_no_fetch [OF assms] stack_at_item [OF assms]
  by (simp_all add: APCUIterator_current_def APCUIterator_key_def iterator_item_def APCUIterator_next_def at_item_def advanced_def)

lemma item_of_pair [simp]: "item_of it e \<lparr>itm_key = itm_key i, itm_value = itm_value i\<rparr> = item_of it e i"
  by (simp add: item_of_def)

lemma foreach_round:
  assumes "APCUIterator_valid it ev w = Some (Return True, it1, ev1, w1)" "at_item it1"
  shows "foreach_rounds (Suc n) it ev w = do {
     (xs, r) \<leftarrow> foreach_rounds n (advanced it1) ev1 w1;
     Some ((itm_key (item_at it1), itm_value (item_at it1)) # xs, r)
   }"
  using assms(1) round_body [OF assms(2)] by (simp add: case_prod_unfold Let_def)

section \<open>A foreach over the live entries\<close>

text \<open>What is still to come: the rest of the stack, then the slots ahead.\<close>

definition to_come :: "apc_iterator_t \<Rightarrow> i64 \<Rightarrow> world \<Rightarrow> apc_cache_entry_t list \<Rightarrow> bool" where
  "to_come it t w es \<longleftrightarrow> ai_initialized it \<and> ai_fetch it = FetchActive \<and> st_inv (ai_stack it) \<and>
     length (st_list (ai_stack it)) < 2 ^ 31 \<and> 0 \<le> ai_stack_idx it \<and>
     nat (ai_stack_idx it) \<le> length (st_list (ai_stack it)) \<and>
     (\<exists>es1. es = es1 @ ahead it t w (ai_slot_idx it) \<and>
        list_all2 (item_of it) es1 (drop (nat (ai_stack_idx it)) (st_list (ai_stack it))))"

text \<open>What every entry of the table and its size have to satisfy.\<close>

definition listable :: "apc_iterator_t \<Rightarrow> apc_env \<Rightarrow> world \<Rightarrow> bool" where
  "listable it ev w \<longleftrightarrow> (\<forall>e \<in> set (entries (cch w)). copies_out it ev w e) \<and> length (entries (cch w)) < 2 ^ 31"

lemma length_ahead: "length (ahead it t w s) \<le> length (entries (cch w))"
proof -
  have "length (concat (drop s xss)) \<le> length (concat xss)" for xss :: "apc_cache_entry_t list list"
    using arg_cong [OF append_take_drop_id [of s xss], of "\<lambda>z. length (concat z)"] by (metis concat_append length_append le_add2)
  then show ?thesis unfolding ahead_def entries_def by (meson le_trans length_filter_le)
qed

lemma moved_same:
  "wanted (moved it s st) = wanted it" "item_of (moved it s st) = item_of it" "copies_out (moved it s st) = copies_out it"
  "ahead (moved it s st) = ahead it"
proof -
  show w: "wanted (moved it s st) = wanted it" by (rule wanted_cong) (simp_all add: moved_def)
  show "item_of (moved it s st) = item_of it" by (rule item_of_cong) (simp add: moved_def)
  show "copies_out (moved it s st) = copies_out it" by (rule copies_out_cong) (simp add: moved_def)
  show "ahead (moved it s st) = ahead it" by (simp add: ahead_def w fun_eq_iff)
qed

lemma advanced_same:
  "wanted (advanced it) = wanted it" "item_of (advanced it) = item_of it" "copies_out (advanced it) = copies_out it"
  "ahead (advanced it) = ahead it"
proof -
  show w: "wanted (advanced it) = wanted it" by (rule wanted_cong) (simp_all add: advanced_def)
  show "item_of (advanced it) = item_of it" by (rule item_of_cong) (simp add: advanced_def)
  show "copies_out (advanced it) = copies_out it" by (rule copies_out_cong) (simp add: advanced_def)
  show "ahead (advanced it) = ahead it" by (simp add: ahead_def w fun_eq_iff)
qed

text \<open>A fetch, seen from the entries to come.\<close>

lemma fetch_to_come:
  assumes "cache_ready w" "lock_works w" "listable it ev w" "ai_initialized it" "ai_fetch it = FetchActive"
    "st_inv (ai_stack it)" "length (st_list (ai_stack it)) < 2 ^ 31" "t = fst (apc_time ev (glb w))"
  obtains s st1 rq where
    "iterator_fetch it ev w = Some (length (st_list st1), moved it s st1, ev\<lparr>ev_rq := rq\<rparr>, ticked ev w)"
    "to_come (moved it s st1) t w (ahead it t w (ai_slot_idx it))"
    "st_list st1 = [] \<longleftrightarrow> ahead it t w (ai_slot_idx it) = []"
proof -
  obtain es ys s st1 rq where f:
    "apc_iterator_fetch_active it ev w = Some (length ys, moved it s st1, ev\<lparr>ev_rq := rq\<rparr>, ticked ev w)"
    "st_inv st1" "st_list st1 = ys" "list_all2 (item_of it) es ys" "ahead it t w (ai_slot_idx it) = es @ ahead it t w s"
    "es = [] \<longrightarrow> ahead it t w s = []"
    by (rule fetch_active_ok [OF assms(1,2) _ assms(6-8)]) (use assms(3) listable_def in blast)+
  have "length ys \<le> length (entries (cch w))"
    using list_all2_lengthD [OF f(4)] length_ahead [of it t w "ai_slot_idx it"] f(5) by simp
  then have "length ys < 2 ^ 31" using assms(3) unfolding listable_def by linarith
  then have tc: "to_come (moved it s st1) t w (ahead it t w (ai_slot_idx it))"
    using f(2-5) assms(4,5) unfolding to_come_def moved_same by (simp add: moved_def)
  have e: "st_list st1 = [] \<longleftrightarrow> ahead it t w (ai_slot_idx it) = []" using f(3-6) by auto
  show ?thesis by (rule that [of st1 s rq]) (use f(1,3) tc e assms(5) in \<open>simp_all add: iterator_fetch_def\<close>)
qed

lemma valid_to_come:
  assumes "cache_ready w" "lock_works w" "listable it ev w" "ticked ev w = w" "t = fst (apc_time ev (glb w))"
    "to_come it t w es"
  obtains it1 rq where "APCUIterator_valid it ev w = Some (Return (es \<noteq> []), it1, ev\<lparr>ev_rq := rq\<rparr>, w)" "to_come it1 t w es"
    "es \<noteq> [] \<Longrightarrow> at_item it1" "item_of it1 = item_of it" "copies_out it1 = copies_out it"
proof (cases "nat (ai_stack_idx it) < length (st_list (ai_stack it))")
  case True
  then have i: "at_item it" "ai_initialized it" using assms(6) by (simp_all add: to_come_def at_item_def)
  have "es \<noteq> []" using assms(6) True by (auto simp: to_come_def dest!: list_all2_lengthD)
  then show ?thesis
    by (intro that [of it "ev_rq ev"]) (use i assms(6) at_item_no_fetch [OF i(1)] in \<open>simp_all add: APCUIterator_valid_def\<close>)
next
  case False
  with assms(6) have c: "ai_initialized it" "ai_fetch it = FetchActive" "st_inv (ai_stack it)"
    "length (st_list (ai_stack it)) < 2 ^ 31" "ai_stack_idx it = int (length (st_list (ai_stack it)))"
    "es = ahead it t w (ai_slot_idx it)"
    by (auto simp: to_come_def)
  obtain s st1 rq where f: "iterator_fetch it ev w = Some (length (st_list st1), moved it s st1, ev\<lparr>ev_rq := rq\<rparr>, ticked ev w)"
    "to_come (moved it s st1) t w es" "st_list st1 = [] \<longleftrightarrow> es = []"
    using fetch_to_come [OF assms(1-3) c(1-4) assms(5)] c(6) by metis
  have st: "st_inv st1" "length (st_list st1) < 2 ^ 31" using f(2) by (simp_all add: to_come_def moved_def)
  have "APCUIterator_valid it ev w = Some (Return (es \<noteq> []), moved it s st1, ev\<lparr>ev_rq := rq\<rparr>, w)"
    using c stack_size_small [OF c(3,4)] stack_size_small [OF st] f(1,3) assms(4) c(1)
    by (simp add: APCUIterator_valid_def moved_def)
  moreover have "es \<noteq> [] \<Longrightarrow> at_item (moved it s st1)" using f(3) c(1) st by (simp add: at_item_def moved_def)
  ultimately show ?thesis using that f(2) moved_same by blast
qed

lemma rounds_to_come:
  assumes "cache_ready w" "lock_works w" "listable it ev w" "ticked ev w = w" "t = fst (apc_time ev (glb w))"
    "to_come it t w es" "length es < n"
  shows "\<exists>xs it' rq. foreach_rounds n it ev w = Some (xs, True, it', ev\<lparr>ev_rq := rq\<rparr>, w) \<and>
    list_all2 (\<lambda>e (k, v). item_of it e \<lparr>itm_key = k, itm_value = v\<rparr>) es xs"
  using assms(3-)
proof (induction es arbitrary: it ev n)
  case Nil
  obtain it1 rq where "APCUIterator_valid it ev w = Some (Return False, it1, ev\<lparr>ev_rq := rq\<rparr>, w)"
    by (rule valid_to_come [OF assms(1,2) Nil(1-4)]) simp
  then show ?case using Nil(5) by (cases n) auto
next
  case (Cons e es)
  from Cons.prems(5) obtain m where n: "n = Suc m" "length es < m" by (cases n) auto
  obtain it1 rq where v: "APCUIterator_valid it ev w = Some (Return True, it1, ev\<lparr>ev_rq := rq\<rparr>, w)" "to_come it1 t w (e # es)"
    "at_item it1" "item_of it1 = item_of it" "copies_out it1 = copies_out it"
    by (rule valid_to_come [OF assms(1,2) Cons.prems(1-4)]) simp_all
  have d: "drop (nat (ai_stack_idx it1)) (st_list (ai_stack it1)) = item_at it1 # drop (Suc (nat (ai_stack_idx it1))) (st_list (ai_stack it1))"
    using v(3) by (simp add: at_item_def Cons_nth_drop_Suc)
  have s: "nat (1 + ai_stack_idx it1) = Suc (nat (ai_stack_idx it1))" using v(3) by (simp add: at_item_def Suc_nat_eq_nat_zadd1)
  have i: "item_of it e (item_at it1)" "to_come (advanced it1) t w es"
    using v(2-4) unfolding to_come_def d advanced_same
    by (auto simp: list_all2_Cons2 advanced_def at_item_def s Cons_eq_append_conv add.commute)
  have l: "listable (advanced it1) (ev\<lparr>ev_rq := rq\<rparr>) w" using Cons.prems(1) v(5) by (simp add: listable_def advanced_same)
  obtain xs it' rq' where "foreach_rounds m (advanced it1) (ev\<lparr>ev_rq := rq\<rparr>) w = Some (xs, True, it', ev\<lparr>ev_rq := rq'\<rparr>, w)"
    "list_all2 (\<lambda>e (k, v). item_of it e \<lparr>itm_key = k, itm_value = v\<rparr>) es xs"
    using Cons.IH [OF l _ _ i(2) n(2)] Cons.prems(2,3) v(4) by (auto simp: advanced_same)
  with foreach_round [OF v(1,3), of m] i(1) n(1) show ?case
    by (intro exI [of _ "(itm_key (item_at it1), itm_value (item_at it1)) # xs"] exI [of _ it'] exI [of _ rq'])
      (simp del: foreach_rounds.simps)
qed

lemma foreach_live:
  assumes "cache_ready w" "lock_works w" "listable it ev w" "ai_initialized it" "ai_fetch it = FetchActive"
    "st_inv (ai_stack it)" "length (st_list (ai_stack it)) < 2 ^ 31" "t = fst (apc_time ev (glb w))"
    "length (filter (wanted it t) (entries (cch w))) < n"
  shows "\<exists>xs it' rq. foreach n it ev w = Some (xs, True, it', ev\<lparr>ev_rq := rq\<rparr>, ticked ev w) \<and>
    list_all2 (\<lambda>e (k, v). item_of it e \<lparr>itm_key = k, itm_value = v\<rparr>) (filter (wanted it t) (entries (cch w))) xs"
proof -
  define it0 where "it0 = it\<lparr>ai_slot_idx := 0, ai_stack_idx := 0, ai_key_idx := 0\<rparr>"
  have c0: "wanted it0 = wanted it" "item_of it0 = item_of it" "copies_out it0 = copies_out it"
    by (rule wanted_cong item_of_cong copies_out_cong; simp add: it0_def)+
  have a: "ahead it0 t w 0 = filter (wanted it t) (entries (cch w))" by (simp add: ahead_def c0 entries_def)
  have i0: "ai_initialized it0" "ai_fetch it0 = FetchActive" "ai_stack it0 = ai_stack it" "ai_slot_idx it0 = 0"
    using assms(4,5) by (simp_all add: it0_def)
  have l0: "listable it0 ev w" using assms(3) by (simp add: listable_def c0)
  obtain s st1 rq where f: "iterator_fetch it0 ev w = Some (length (st_list st1), moved it0 s st1, ev\<lparr>ev_rq := rq\<rparr>, ticked ev w)"
    "to_come (moved it0 s st1) t w (filter (wanted it t) (entries (cch w)))"
    using fetch_to_come [OF assms(1,2) l0 i0(1,2) _ _ assms(8)] assms(6,7) i0(3,4) a by metis
  let ?w = "ticked ev w" and ?it = "moved it0 s st1" and ?ev = "ev\<lparr>ev_rq := rq\<rparr>"
  note tr = ticked_ready [OF assms(1), where ev = ev]
  have ta: "ahead it t ?w = ahead it t w" for it by (simp add: ahead_def fun_eq_iff)
  have tc: "to_come ?it t ?w (filter (wanted it t) (entries (cch w)))" using f(2) unfolding to_come_def ta .
  have l: "listable ?it ?ev ?w" using l0 tr(4) by (simp add: listable_def moved_same)
  obtain xs it' rq' where "foreach_rounds n ?it ?ev ?w = Some (xs, True, it', ev\<lparr>ev_rq := rq'\<rparr>, ?w)"
    "list_all2 (\<lambda>e (k, v). item_of it e \<lparr>itm_key = k, itm_value = v\<rparr>) (filter (wanted it t) (entries (cch w))) xs"
    using rounds_to_come [OF tr(1) _ l _ _ tc assms(9)] assms(2,8) tr(2) by (auto simp: moved_same c0)
  moreover have "APCUIterator_rewind it ev w = Some (Return (), ?it, ?ev, ?w)"
    using f(1) assms(4) by (simp add: APCUIterator_rewind_def it0_def)
  ultimately show ?thesis by (intro exI [of _ xs] exI [of _ it'] exI [of _ rq']) (simp add: foreach_def)
qed

end
