(* ===== verification/Apc_Iterator_Delete.thy ===== *)
theory Apc_Iterator_Delete imports Apc_Iterator_Props begin

text \<open>
  Deleting what an iterator yields, listing removed entries, and the totals of an iterator.
\<close>

section \<open>Deleting the items on the stack\<close>

lemma same_config_rq [simp]: "same_config (ev\<lparr>ev_rq := rq\<rparr>) = same_config ev"
  by (simp add: same_config_def tick_def fun_eq_iff)

definition without :: "string set \<Rightarrow> (string \<Rightarrow> apc_cache_entry_t option) \<Rightarrow> string \<Rightarrow> apc_cache_entry_t option" where
  "without K m = (\<lambda>v. if v \<in> K then None else m v)"

lemma without_simps [simp]: "without {} m = m" "without K (m(k := None)) = without (insert k K) m"
  by (auto simp: without_def)

lemma delete_items_ok:
  assumes "cache_ready w" "lock_works w" "st_inv (ai_stack it)" "length (st_list (ai_stack it)) < 2 ^ 31"
    "0 \<le> ai_stack_idx it" "drop (nat (ai_stack_idx it)) (st_list (ai_stack it)) = ys" "\<forall>i \<in> set ys. zs_ok (itm_key i)"
  shows "\<exists>j w'. delete_items it ev w = Some (it\<lparr>ai_stack_idx := j\<rparr>, w') \<and> cache_ready w' \<and> same_config ev w w' \<and>
    cmap (cch w') = without (zs_val ` itm_key ` set ys) (cmap (cch w))"
  using assms
proof (induction ys arbitrary: it w)
  case Nil
  have "\<not> ai_stack_idx it < apc_stack_size (ai_stack it)" using Nil.prems(3-6) stack_size_small [of "ai_stack it"] by simp
  then have "delete_items it ev w = Some (it\<lparr>ai_stack_idx := ai_stack_idx it\<rparr>, w)" by (subst delete_items.simps) simp
  moreover have "cmap (cch w) = without (zs_val ` itm_key ` set []) (cmap (cch w))" by simp
  ultimately show ?case using Nil.prems(1) same_config_refl by blast
next
  case (Cons y ys)
  let ?it1 = "it\<lparr>ai_stack_idx := ai_stack_idx it + 1\<rparr>" and ?l = "st_list (ai_stack it)" and ?j = "nat (ai_stack_idx it)"
  have lt: "?j < length ?l" using Cons.prems(6) by (metis drop_eq_Nil list.discI not_le)
  have nth: "?l ! ?j = y" using Cons.prems(6) lt by (metis hd_drop_conv_nth list.sel(1))
  have dr: "drop (Suc ?j) ?l = ys" using Cons.prems(6) by (metis drop_Suc list.sel(3) tl_drop)
  have sj: "nat (ai_stack_idx it + 1) = Suc ?j" using Cons.prems(5) by (simp add: nat_add_distrib)
  have less: "ai_stack_idx it < apc_stack_size (ai_stack it)"
    using lt Cons.prems(5) stack_size_small [OF Cons.prems(3,4)] by simp
  have "unat (word_of_int (ai_stack_idx it) :: u64) = ?j"
    using unat_small_int [OF Cons.prems(5)] lt Cons.prems(4) by simp
  then have at: "stack_at it = Some y" using istack.get_ok [OF Cons.prems(3)] lt nth by (simp add: stack_at_def)
  obtain b w1 where d: "apc_cache_delete ev (itm_key y) w = Some (b, w1)" "cache_ready w1" "same_config ev w w1"
    "cmap (cch w1) = (if lock_works w then (cmap (cch w))(zs_val (itm_key y) := None) else cmap (cch w))"
    by (rule apc_cache_delete_ok [OF Cons.prems(1), of "itm_key y" ev]) (use Cons.prems(7) in auto)
  have lw: "lock_works w1" using lock_works_config [OF d(3)] Cons.prems(2) by simp
  have "\<exists>j w'. delete_items ?it1 ev w1 = Some (?it1\<lparr>ai_stack_idx := j\<rparr>, w') \<and> cache_ready w' \<and> same_config ev w1 w' \<and>
    cmap (cch w') = without (zs_val ` itm_key ` set ys) (cmap (cch w1))"
    by (rule Cons.IH [OF d(2) lw]) (use Cons.prems dr sj in simp_all)
  then obtain j w' where r: "delete_items ?it1 ev w1 = Some (it\<lparr>ai_stack_idx := j\<rparr>, w')" "cache_ready w'" "same_config ev w1 w'"
    "cmap (cch w') = without (zs_val ` itm_key ` set ys) (cmap (cch w1))" by auto
  have "delete_items it ev w = Some (it\<lparr>ai_stack_idx := j\<rparr>, w')"
    using less at d(1) r(1) by (subst delete_items.simps) simp
  moreover have "cmap (cch w') = without (zs_val ` itm_key ` set (y # ys)) (cmap (cch w))"
    using r(4) d(4) Cons.prems(2) by simp
  ultimately show ?case using r(2) same_config_trans [OF d(3) r(3)] by blast
qed

section \<open>The loop of apc_iterator_delete\<close>

lemma listable_less:
  assumes "listable it ev w" "cache_ready w" "cache_ready w'" "same_config ev w w'" "cmap (cch w') \<subseteq>\<^sub>m cmap (cch w)"
  shows "listable it ev w'"
proof -
  note tab = cache_readyD(4) [OF assms(2)] and tab' = cache_readyD(4) [OF assms(3)]
  have sub: "e \<in> set (entries (cch w))" if "e \<in> set (entries (cch w'))" for e
  proof -
    have "cmap (cch w') (zval_of_key e) = Some e" by (rule entry_cmap [OF tab' that])
    then have "cmap (cch w) (zval_of_key e) = Some e" using assms(5) by (auto simp: map_le_def dom_def)
    then show ?thesis by (rule cmap_entry(1) [OF tab])
  qed
  have "distinct (entries (cch w'))" using table_okD(4) [OF tab'] by (simp add: distinct_map)
  then have "length (entries (cch w')) = card (set (entries (cch w')))" by (simp add: distinct_card)
  also have "\<dots> \<le> card (set (entries (cch w)))" by (rule card_mono) (use sub in auto)
  also have "\<dots> \<le> length (entries (cch w))" by (rule card_length)
  finally have "length (entries (cch w')) < 2 ^ 31" using assms(1) by (simp add: listable_def)
  moreover have "copies_out it ev w' e = copies_out it ev w e" for e
    using same_configD(6,10) [OF assms(4)] by (simp add: copies_out_def apc_cache_entry_fetch_zval_def)
  ultimately show ?thesis using assms(1) sub by (auto simp: listable_def)
qed

text \<open>What is left of the table when the wanted entries from a slot on are gone.\<close>

definition pruned :: "apc_iterator_t \<Rightarrow> i64 \<Rightarrow> nat \<Rightarrow> world \<Rightarrow> string \<Rightarrow> apc_cache_entry_t option" where
  "pruned it t s w v = (case cmap (cch w) v of None \<Rightarrow> None
     | Some e \<Rightarrow> if wanted it t e \<and> s \<le> slot_of (c_nslots (cch w)) v then None else Some e)"

lemma entry_slot:
  assumes "table_ok c" "s < c_nslots c" "e \<in> set (c_slots c ! s)"
  shows "slot_of (c_nslots c) (zval_of_key e) = s" "cmap c (zval_of_key e) = Some e"
proof -
  have "e \<in> set (entries c)" using entries_in_slot [of s c e] table_okD(2) [OF assms(1)] assms(2,3) by simp
  then show "cmap c (zval_of_key e) = Some e" by (rule entry_cmap [OF assms(1)])
  show "slot_of (c_nslots c) (zval_of_key e) = s"
    using table_okD(3) [OF assms(1,2)] assms(3) by (auto simp: slot_ok_def slot_of_def)
qed

lemma in_slots_range:
  assumes "table_ok c" "b \<le> c_nslots c"
  shows "e \<in> set (concat (take (b - a) (drop a (c_slots c)))) \<longleftrightarrow>
    cmap c (zval_of_key e) = Some e \<and> a \<le> slot_of (c_nslots c) (zval_of_key e) \<and> slot_of (c_nslots c) (zval_of_key e) < b"
    (is "?L = ?R")
proof
  note len = table_okD(2) [OF assms(1)]
  assume ?L
  then obtain i where i: "i < b - a" "a + i < c_nslots c" "e \<in> set (c_slots c ! (a + i))"
  proof -
    obtain xs where xs: "xs \<in> set (take (b - a) (drop a (c_slots c)))" "e \<in> set xs" using \<open>?L\<close> by auto
    then obtain i where "i < length (take (b - a) (drop a (c_slots c)))" "take (b - a) (drop a (c_slots c)) ! i = xs"
      by (auto simp only: in_set_conv_nth)
    with that [of i] xs(2) assms(2) len show ?thesis by simp
  qed
  then show ?R using entry_slot [OF assms(1) i(2,3)] by simp
next
  note len = table_okD(2) [OF assms(1)]
  assume r: ?R
  let ?s = "slot_of (c_nslots c) (zval_of_key e)"
  have "e \<in> set (c_slots c ! ?s)" using r chain_map_mem [of "c_slots c ! ?s"] by (auto simp: cmap_def)
  moreover have "take (b - a) (drop a (c_slots c)) ! (?s - a) = c_slots c ! ?s" "?s - a < length (take (b - a) (drop a (c_slots c)))"
    using r assms(2) len by auto
  then have "c_slots c ! ?s \<in> set (take (b - a) (drop a (c_slots c)))" by (metis nth_mem)
  ultimately show ?L by auto
qed

lemma in_ahead:
  assumes "table_ok (cch w)"
  shows "e \<in> set (ahead it t w s) \<longleftrightarrow>
    cmap (cch w) (zval_of_key e) = Some e \<and> s \<le> slot_of (c_nslots (cch w)) (zval_of_key e) \<and> wanted it t e"
proof -
  have "concat (drop s (c_slots (cch w))) = concat (take (c_nslots (cch w) - s) (drop s (c_slots (cch w))))"
    using table_okD(2) [OF assms] by simp
  then show ?thesis
    using in_slots_range [OF assms le_refl, of e s] slot_of_less [OF assms, of "zval_of_key e"] by (auto simp: ahead_def)
qed

lemma pruned_cong: "wanted it' = wanted it \<Longrightarrow> pruned it' = pruned it"
  by (intro ext) (simp add: pruned_def split: option.split)

lemma pruned_done: "table_ok (cch w) \<Longrightarrow> ahead it t w s = [] \<Longrightarrow> pruned it t s w = cmap (cch w)"
  using in_ahead [of w _ it t s] cmap_entry(2) [of "cch w"]
  by (fastforce simp: pruned_def fun_eq_iff split: option.splits)

lemma pruned_step:
  assumes tab: "table_ok (cch w)" and s: "s' \<le> c_nslots (cch w)" "s \<le> s'" and n: "c_nslots (cch w') = c_nslots (cch w)"
    and es: "set es = {e \<in> set (concat (take (s' - s) (drop s (c_slots (cch w))))). wanted it t e}"
    and cm: "cmap (cch w') = without (zval_of_key ` set es) (cmap (cch w))"
  shows "pruned it t s' w' = pruned it t s w"
proof
  fix v
  have k: "v \<in> zval_of_key ` set es \<longleftrightarrow>
    (\<exists>e. cmap (cch w) v = Some e \<and> wanted it t e \<and> s \<le> slot_of (c_nslots (cch w)) v \<and> slot_of (c_nslots (cch w)) v < s')"
    (is "?L \<longleftrightarrow> (\<exists>e. ?R e)")
  proof
    assume ?L
    then obtain e where "e \<in> set es" "v = zval_of_key e" by blast
    then have "?R e" using in_slots_range [OF tab s(1), of e s] es by auto
    then show "\<exists>e. ?R e" ..
  next
    assume "\<exists>e. ?R e"
    then obtain e where e: "?R e" ..
    then have v: "zval_of_key e = v" using cmap_entry(2) [OF tab] by blast
    with e have "e \<in> set es" using in_slots_range [OF tab s(1), of e s] es by simp
    with v show ?L by blast
  qed
  show "pruned it t s' w' v = pruned it t s w v"
  proof (cases "cmap (cch w) v")
    case None
    then show ?thesis by (simp add: pruned_def cm without_def)
  next
    case (Some e)
    then show ?thesis using k s(2) by (auto simp: pruned_def cm without_def n)
  qed
qed

lemma pruned_less: "pruned it t s w \<subseteq>\<^sub>m cmap (cch w)"
  by (auto simp: pruned_def map_le_def dom_def split: option.splits if_splits)

lemma delete_fetched_ok:
  assumes "cache_ready w" "lock_works w" "listable it ev w" "ai_initialized it" "ai_fetch it = FetchActive"
    "st_inv (ai_stack it)" "length (st_list (ai_stack it)) < 2 ^ 31" "t = fst (apc_time ev (glb w))"
    "ai_slot_idx it \<le> c_nslots (cch w)"
  shows "\<exists>it' rq w'. delete_fetched it ev w = Some (it', ev\<lparr>ev_rq := rq\<rparr>, w') \<and> cache_ready w' \<and> same_config ev w w' \<and>
    cmap (cch w') = pruned it t (ai_slot_idx it) w"
  using assms
proof (induction "c_nslots (cch w) - ai_slot_idx it" arbitrary: it ev w rule: less_induct)
  case less
  note p = less.prems
  note tab = cache_readyD(4) [OF p(1)]
  let ?s0 = "ai_slot_idx it" and ?w1 = "ticked ev w"
  obtain es ys s st1 rq where f:
    "apc_iterator_fetch_active it ev w = Some (length ys, moved it s st1, ev\<lparr>ev_rq := rq\<rparr>, ?w1)"
    "st_inv st1" "st_list st1 = ys" "list_all2 (item_of it) es ys" "ahead it t w ?s0 = es @ ahead it t w s"
    "es = [] \<longrightarrow> ahead it t w s = []" "?s0 \<le> s" "?s0 \<le> c_nslots (cch w) \<longrightarrow> s \<le> c_nslots (cch w)" "es = [] \<or> ?s0 < s"
    "set es = {e \<in> set (concat (take (s - ?s0) (drop ?s0 (c_slots (cch w))))). wanted it t e}"
    by (rule fetch_active_ok [OF p(1,2) _ p(6-8)]) (use p(3) listable_def in blast)+
  note tr = ticked_ready [OF p(1), where ev = ev]
  have fe: "iterator_fetch it ev w = Some (length ys, moved it s st1, ev\<lparr>ev_rq := rq\<rparr>, ?w1)"
    using f(1) p(5) by (simp add: iterator_fetch_def)
  show ?case
  proof (cases "ys = []")
    case True
    then have "ahead it t w ?s0 = []" using f(4-6) by simp
    then have "pruned it t ?s0 w = cmap (cch w)" by (rule pruned_done [OF tab])
    moreover have "delete_fetched it ev w = Some (moved it s st1, ev\<lparr>ev_rq := rq\<rparr>, ?w1)"
      using fe True by (subst delete_fetched.simps) simp
    ultimately show ?thesis using tr(1,3) by (metis ticked_simps(1))
  next
    case False
    have ne: "es \<noteq> []" using False f(4) by auto
    let ?it1 = "moved it s st1" and ?ev = "ev\<lparr>ev_rq := rq\<rparr>"
    have "length ys \<le> length (entries (cch w))"
      using list_all2_lengthD [OF f(4)] length_ahead [of it t w ?s0] f(5) by simp
    then have ly: "length ys < 2 ^ 31" using p(3) unfolding listable_def by linarith
    have ky: "\<forall>i \<in> set ys. zs_ok (itm_key i)" "zs_val ` itm_key ` set ys = zval_of_key ` set es"
    proof -
      have "map (\<lambda>i. itm_key i) ys = map (\<lambda>e. mk_zstr (zval_of_key e)) es" using f(4)
        by (induction rule: list_all2_induct) (auto simp: item_of_def)
      then have k: "itm_key ` set ys = (\<lambda>e. mk_zstr (zval_of_key e)) ` set es" by (metis list.set_map)
      then show "zs_val ` itm_key ` set ys = zval_of_key ` set es" by (simp add: image_image)
      from k show "\<forall>i \<in> set ys. zs_ok (itm_key i)" by (metis (no_types, lifting) imageE image_eqI zs_ok_mk)
    qed
    have "\<exists>j w'. delete_items ?it1 ?ev ?w1 = Some (?it1\<lparr>ai_stack_idx := j\<rparr>, w') \<and> cache_ready w' \<and> same_config ?ev ?w1 w' \<and>
      cmap (cch w') = without (zs_val ` itm_key ` set ys) (cmap (cch ?w1))"
      by (rule delete_items_ok) (use tr p(2) f(2,3) ly ky in \<open>simp_all add: moved_def\<close>)
    then obtain j w2 where d: "delete_items ?it1 ?ev ?w1 = Some (?it1\<lparr>ai_stack_idx := j\<rparr>, w2)" "cache_ready w2"
      "same_config ev ?w1 w2" "cmap (cch w2) = without (zval_of_key ` set es) (cmap (cch w))"
      using ky(2) by auto
    have sc: "same_config ev w w2" by (rule same_config_trans [OF tr(3) d(3)])
    have ns: "c_nslots (cch w2) = c_nslots (cch w)" by (rule same_configD(1) [OF sc])
    have s: "s \<le> c_nslots (cch w)" "?s0 < s" using f(8,9) p(9) ne by auto
    have pr: "pruned it t s w2 = pruned it t ?s0 w"
      by (rule pruned_step [OF tab s(1) _ ns f(10) d(4)]) (use s(2) in simp)
    let ?it2 = "?it1\<lparr>ai_stack_idx := j\<rparr>"
    have c2: "wanted ?it2 = wanted it" "copies_out ?it2 = copies_out it"
      by (rule wanted_cong copies_out_cong; simp add: moved_def)+
    have "cmap (cch w2) \<subseteq>\<^sub>m cmap (cch w)" using d(4) by (auto simp: without_def map_le_def dom_def)
    then have l2: "listable ?it2 ?ev w2"
      using listable_less [OF p(3,1) d(2) sc] by (simp add: listable_def c2)
    have t2: "t = fst (apc_time ?ev (glb w2))" using tick_time [OF same_configD(12) [OF sc]] p(8) by simp
    have "\<exists>it' rq' w'. delete_fetched ?it2 ?ev w2 = Some (it', ?ev\<lparr>ev_rq := rq'\<rparr>, w') \<and> cache_ready w' \<and>
      same_config ?ev w2 w' \<and> cmap (cch w') = pruned ?it2 t (ai_slot_idx ?it2) w2"
      by (rule less.hyps [OF _ d(2) _ l2 _ _ _ _ t2])
        (use ns s p(2,4,5) f(2,3) ly lock_works_config [OF sc] in \<open>simp_all add: moved_def\<close>)
    then obtain it' rq' w' where r: "delete_fetched ?it2 ?ev w2 = Some (it', ev\<lparr>ev_rq := rq'\<rparr>, w')" "cache_ready w'"
      "same_config ev w2 w'" "cmap (cch w') = pruned ?it2 t s w2" by (auto simp: moved_def)
    have "delete_fetched it ev w = Some (it', ev\<lparr>ev_rq := rq'\<rparr>, w')"
      using fe False d(1) r(1) by (subst delete_fetched.simps) simp
    moreover have "cmap (cch w') = pruned it t ?s0 w" using r(4) pr pruned_cong [OF c2(1)] by simp
    ultimately show ?thesis using r(2) same_config_trans [OF sc r(3)] by blast
  qed
qed

end
