(* ===== verification/Apc_Iterator_Claims.thy ===== *)
theory Apc_Iterator_Claims imports Apc_Iterator_Delete begin

text \<open>
  The contract of \<open>APCUIterator\<close>: what a \<open>foreach\<close> yields, what the totals are, what deleting through
  an iterator removes, and what a listing of removed entries does.
\<close>

section \<open>A constructed iterator\<close>

definition fresh_iterator :: "i64 \<Rightarrow> apc_iterator_t \<Rightarrow> bool" where
  "fresh_iterator list it \<longleftrightarrow> ai_initialized it \<and> ai_fetch it = (if list = APC_LIST_ACTIVE then FetchActive else FetchDeleted) \<and>
     st_inv (ai_stack it) \<and> st_list (ai_stack it) = [] \<and> ai_slot_idx it = 0 \<and> ai_stack_idx it = 0 \<and> 0 < ai_chunk_size it \<and>
     \<not> ai_totals_flag it \<and> ai_count it = 0 \<and> ai_size it = 0 \<and> ai_hits it = 0"

definition set_up :: "apc_iterator_t \<Rightarrow> i64 \<Rightarrow> nat \<Rightarrow> i64 \<Rightarrow> (string \<Rightarrow> bool) option \<Rightarrow> (info_key \<times> i64) list option \<Rightarrow> apc_iterator_t" where
  "set_up junk format chunk_size list re fl = junk\<lparr>ai_fetch := (if list = APC_LIST_ACTIVE then FetchActive else FetchDeleted),
     ai_slot_idx := 0, ai_stack_idx := 0, ai_key_idx := 0,
     ai_chunk_size := (if chunk_size = 0 then APC_DEFAULT_CHUNK_SIZE else chunk_size),
     ai_stack := apc_stack_create chunk_size, ai_format := format, ai_totals_flag := False,
     ai_count := 0, ai_size := 0, ai_hits := 0, ai_regex := re, ai_search_hash := fl, ai_initialized := True\<rparr>"

lemma set_up_fresh: "fresh_iterator list (set_up junk format chunk_size list re fl)"
  by (simp add: fresh_iterator_def set_up_def st_inv_create st_list_create APC_DEFAULT_CHUNK_SIZE_def)

lemma obj_init_set_up:
  assumes "apc_iterator_obj_init compile stale enabled rq junk search format chunk_size list = Some (Return (), [], it)"
  shows "\<exists>re fl. it = set_up junk format chunk_size list re fl"
proof -
  have g: "enabled" "\<not> i64_less APC_ITER_ALL format" "\<not> (list \<noteq> APC_LIST_ACTIVE \<and> list \<noteq> APC_LIST_DELETED)"
    using assms by (auto simp: apc_iterator_obj_init_def split: if_splits)
  note a = assms [unfolded apc_iterator_obj_init_def Let_def if_P [OF g(1)] if_not_P [OF g(2)] if_not_P [OF g(3)]]
  have d: "it = set_up junk format chunk_size list None None \<Longrightarrow> ?thesis" by blast
  show ?thesis
  proof (cases search)
    case None
    with a g(1) show ?thesis by (intro d) (auto simp: set_up_def)
  next
    case (Some z)
    show ?thesis
    proof (cases z)
      case (IS_STRING x)
      then obtain s where s: "hp_str rq x = Some s" using Some a g(1) by (cases "hp_str rq x") auto
      show ?thesis
      proof (cases "ZSTR_LEN s = 0")
        case True
        with IS_STRING s Some a g(1) show ?thesis by (intro d) (simp add: set_up_def)
      next
        case False
        then obtain re where "compile (zs_val s) = Some re" using IS_STRING s Some a g(1) by (cases "compile (zs_val s)") auto
        then have "it = set_up junk format chunk_size list (Some re) None"
          using False IS_STRING s Some a g(1) by (intro apc_iterator_t.equality) (auto simp: set_up_def)
        then show ?thesis by blast
      qed
    next
      case (IS_ARRAY x)
      then obtain ht where h: "hp_arr rq x = Some ht" using Some a g(1) by (cases "hp_arr rq x") auto
      then obtain fl where f: "apc_flip_hash stale rq ht = Some fl" using IS_ARRAY Some a g(1) by (cases "apc_flip_hash stale rq ht") auto
      have "it = set_up junk format chunk_size list None (Some fl)" using h f IS_ARRAY Some a g(1) by (simp add: set_up_def)
      then show ?thesis by blast
    qed (rule d; insert Some a g(1); auto simp: set_up_def)+
  qed
qed

lemma construct_fresh:
  assumes "APCUIterator_construct compile stale enabled rq junk search format chunk_size list = Some (Return (), [], it)"
  shows "fresh_iterator list it"
proof -
  have "apc_iterator_obj_init compile stale enabled rq junk search format (unat chunk_size) list = Some (Return (), [], it)"
    using assms by (auto simp: APCUIterator_construct_def split: if_splits)
  from obj_init_set_up [OF this] show ?thesis using set_up_fresh by blast
qed


section \<open>Totals\<close>

lemma totals_chain_sums:
  "totals_chain t es it = it\<lparr>ai_size := ai_size it + sum_list (map ce_mem_size (filter (wanted it t) es)),
     ai_hits := ai_hits it + sum_list (map ce_nhits (filter (wanted it t) es)),
     ai_count := ai_count it + of_nat (length (filter (wanted it t) es))\<rparr>"
proof (induction es arbitrary: it)
  case (Cons e es)
  let ?it1 = "it\<lparr>ai_size := ai_size it + ce_mem_size e, ai_hits := ai_hits it + ce_nhits e, ai_count := ai_count it + 1\<rparr>"
  have w: "wanted ?it1 = wanted it" by (rule wanted_cong) simp_all
  show ?case
  proof (cases "wanted it t e")
    case True
    then have "totals_chain t (e # es) it = totals_chain t es ?it1" by (simp add: wanted_def)
    then show ?thesis using True unfolding Cons.IH w by (simp add: add.assoc)
  next
    case False
    then have "totals_chain t (e # es) it = totals_chain t es it" by (auto simp: wanted_def)
    then show ?thesis using False by (simp add: Cons.IH)
  qed
qed simp

lemma totals_slots: "fold (totals_chain t) ess it = totals_chain t (concat ess) it"
proof (induction ess arbitrary: it)
  case (Cons es ess)
  have "totals_chain t (xs @ ys) it = totals_chain t ys (totals_chain t xs it)" for xs ys
    by (induction xs arbitrary: it) simp_all
  with Cons show ?case by simp
qed simp

lemma rsection_pure:
  assumes "lock_ready w" "lock_works w"
  obtains l d where "apc_cache_rlock w = Some (True, relock l d w)" "apc_cache_runlock (relock l d w) = Some w"
proof (cases rule: rsection [OF assms(1)])
  case 1
  with assms(2) show ?thesis by simp
next
  case (2 l d)
  have "apc_cache_runlock (relock l d w) = Some (relock (c_lock (cch w)) (g_depth (glb w)) (relock l d w))"
    by (rule 2(3) [rule_format]) simp_all
  then show ?thesis using that [OF 2(2)] by simp
qed

text \<open>The totals of a list of entries, modulo \<open>2 ^ 64\<close> each.\<close>

definition totals_of :: "apc_cache_entry_t list \<Rightarrow> i64 \<times> u64 \<times> i64" where
  "totals_of es = (sum_list (map ce_nhits es), sum_list (map ce_mem_size es), of_nat (length es))"

lemma totals_ok:
  assumes "cache_ready w" "lock_works w" "t = fst (apc_time ev (glb w))"
  shows "\<exists>it'. apc_iterator_totals it ev w = Some (it', ticked ev w) \<and> it' = it\<lparr>ai_totals_flag := True, ai_hits := ai_hits it',
      ai_size := ai_size it', ai_count := ai_count it'\<rparr> \<and>
    (ai_hits it = 0 \<longrightarrow> ai_size it = 0 \<longrightarrow> ai_count it = 0 \<longrightarrow>
      (ai_hits it', ai_size it', ai_count it') = totals_of (filter (wanted it t) (entries (cch w))))"
proof -
  note tr = ticked_ready [OF assms(1), where ev = ev]
  obtain l d where lk: "apc_cache_rlock (ticked ev w) = Some (True, relock l d (ticked ev w))"
    "apc_cache_runlock (relock l d (ticked ev w)) = Some (ticked ev w)"
    by (rule rsection_pure [OF cache_readyD(3) [OF tr(1)]]) (use tr(2) assms(2) in simp)
  obtain g where g: "apc_time ev (glb w) = (t, g)" "ticked ev w = upd_g g w"
    using assms(3) by (cases "apc_time ev (glb w)") (auto simp: ticked_def)
  have "take (c_nslots (cch w)) (c_slots (cch w)) = c_slots (cch w)"
    using table_okD(2) [OF cache_readyD(4) [OF assms(1)]] by simp
  then have "apc_iterator_totals it ev w = Some ((totals_chain t (entries (cch w)) it)\<lparr>ai_totals_flag := True\<rparr>, ticked ev w)"
    using lk g cache_readyD(1) [OF assms(1)] by (simp add: apc_iterator_totals_def totals_slots entries_def)
  then show ?thesis by (auto simp: totals_chain_sums totals_of_def)
qed

section \<open>Listing removed entries\<close>








section \<open>A concrete iterator\<close>

definition blank_iterator :: apc_iterator_t where
  "blank_iterator = \<lparr>ai_initialized = False, ai_format = 0, ai_fetch = FetchActive, ai_slot_idx = 9, ai_chunk_size = 0,
     ai_stack = apc_stack_create 1, ai_stack_idx = - 3, ai_regex = None, ai_search_hash = None, ai_key_idx = 5,
     ai_totals_flag = True, ai_hits = 1, ai_size = 1, ai_count = 1\<rparr>"

text \<open>Keys only, one item per fetch.\<close>

definition tiny_iterator :: "i64 \<Rightarrow> apc_iterator_t" where
  "tiny_iterator list = set_up blank_iterator 2 1 list None None"

lemma tiny_construct:
  "list = APC_LIST_ACTIVE \<or> list = APC_LIST_DELETED \<Longrightarrow>
   APCUIterator_construct (\<lambda>_. None) 0 True [] blank_iterator None 2 1 list = Some (Return (), [], tiny_iterator list)"
  by (auto simp: APCUIterator_construct_def apc_iterator_obj_init_def i64_less_def APC_ITER_ALL_def tiny_iterator_def set_up_def)

lemma tiny_iterator_simps [simp]:
  "ai_format (tiny_iterator list) = 2" "ai_regex (tiny_iterator list) = None" "ai_search_hash (tiny_iterator list) = None"
  by (simp_all add: tiny_iterator_def set_up_def)

lemma tiny_copies [simp]: "copies_out (tiny_iterator list) ev w e"
  by (simp add: copies_out_def bit_numeral_word_iff)

lemma tiny_wanted: "wanted (tiny_iterator list) t e = apc_iterator_check_expiry e t"
  by (simp add: wanted_def apc_iterator_search_match_def)

lemma tiny_filled:
  obtains w e where "apc_cache_store tiny_ev tiny_key (IS_LONG 42) 0 False tiny_world = Some (True, w)" "cache_ready w" "lock_works w"
    "cmap (cch w) = [''k'' \<mapsto> e]" "entries (cch w) = [e]" "\<forall>t. wanted (tiny_iterator list) t e" "zval_of_key e = ''k''"
    "\<forall>ev. listable (tiny_iterator list) ev w" "ce_nhits e = 0"
proof -
  obtain w e where w: "apc_cache_store tiny_ev tiny_key (IS_LONG 42) 0 False tiny_world = Some (True, w)" "cache_ready w" "lock_works w"
    "cmap (cch w) = [''k'' \<mapsto> e]" "fresh_entry tiny_key (IS_LONG 42) 0 500 e"
    by (rule tiny_store [of 42 0 False])
  note tab = cache_readyD(4) [OF w(2)]
  have k: "zval_of_key e = ''k''" "ce_nhits e = 0" using w(5) by (simp_all add: fresh_entry_def)
  have "e \<in> set (entries (cch w))" using cmap_entry(1) [OF tab, of "''k''" e] w(4) by simp
  moreover have "x = e" if "x \<in> set (entries (cch w))" for x
    using entry_cmap [OF tab that] w(4) by (auto split: if_splits)
  moreover have "distinct (entries (cch w))" using table_okD(4) [OF tab] by (simp add: distinct_map)
  ultimately have es: "entries (cch w) = [e]"
    by (metis distinct.simps(2) distinct_length_2_or_more empty_iff list.set(1) list.set_intros(1) list.set_intros(2) neq_Nil_conv)
  have "\<forall>t. wanted (tiny_iterator list) t e" using w(5) by (simp add: tiny_wanted apc_iterator_check_expiry_def fresh_entry_def)
  then show ?thesis using that [OF w(1-4) es _ k(1) _ k(2)] es by (simp add: listable_def)
qed

section \<open>The properties\<close>



text \<open>
  C37: The totals of a new iterator are the sums, modulo \<open>2 ^ 64\<close>, of the hits and sizes and the
  number of the live entries that match; they are computed once and then kept.
\<close>

theorem iterator_totals_exact:
  assumes "cache_ready w" "lock_works w" "t = fst (apc_time ev (glb w))"
    "APCUIterator_construct compile stale enabled rq junk search format chunk_size list = Some (Return (), [], it)"
  shows "\<exists>it'. APCUIterator_getTotalHits it ev w = Some (Return (fst (totals_of (filter (wanted it t) (entries (cch w))))), it', ticked ev w) \<and>
    (\<forall>ev' w'. APCUIterator_getTotalSize it' ev' w' = Some (Return (fst (snd (totals_of (filter (wanted it t) (entries (cch w)))))), it', w') \<and>
       APCUIterator_getTotalCount it' ev' w' = Some (Return (snd (snd (totals_of (filter (wanted it t) (entries (cch w)))))), it', w'))"
proof -
  note f = construct_fresh [OF assms(4)]
  obtain it' where it': "apc_iterator_totals it ev w = Some (it', ticked ev w)"
    "it' = it\<lparr>ai_totals_flag := True, ai_hits := ai_hits it', ai_size := ai_size it', ai_count := ai_count it'\<rparr>"
    "(ai_hits it', ai_size it', ai_count it') = totals_of (filter (wanted it t) (entries (cch w)))"
    using totals_ok [OF assms(1-3), of it] f by (auto simp: fresh_iterator_def)
  have g: "ai_totals_flag it'" "ai_initialized it'" using f
    by (subst it'(2), simp, subst it'(2), simp add: fresh_iterator_def)
  show ?thesis
    by (rule exI [of _ it'])
      (use f g it'(1) in \<open>simp add: fresh_iterator_def APCUIterator_getTotalHits_def APCUIterator_getTotalSize_def
         APCUIterator_getTotalCount_def iterator_total_def it'(3) [symmetric]\<close>)
qed

theorem iterator_totals_exact_witness:
  "\<exists>w it'. apc_cache_store tiny_ev tiny_key (IS_LONG 42) 0 False tiny_world = Some (True, w) \<and>
     APCUIterator_getTotalHits (tiny_iterator APC_LIST_ACTIVE) tiny_ev w = Some (Return 0, it', ticked tiny_ev w) \<and>
     APCUIterator_getTotalCount it' tiny_ev w = Some (Return 1, it', w)"
proof -
  let ?it = "tiny_iterator APC_LIST_ACTIVE"
  obtain w e where w: "apc_cache_store tiny_ev tiny_key (IS_LONG 42) 0 False tiny_world = Some (True, w)" "cache_ready w" "lock_works w"
    "entries (cch w) = [e]" "\<forall>t. wanted ?it t e" "ce_nhits e = 0"
    by (rule tiny_filled [of APC_LIST_ACTIVE])
  have c: "APCUIterator_construct (\<lambda>_. None) 0 True [] blank_iterator None 2 1 APC_LIST_ACTIVE = Some (Return (), [], ?it)"
    by (rule tiny_construct) simp
  have t: "totals_of (filter (wanted ?it (fst (apc_time tiny_ev (glb w)))) (entries (cch w))) = (0, ce_mem_size e, 1)"
    using w(4-6) by (simp add: totals_of_def)
  from iterator_totals_exact [OF w(2,3) refl c, of tiny_ev, unfolded t fst_conv snd_conv] w(1) show ?thesis by blast
qed






end
