(* ===== verification/Apc_Support_Claims.thy ===== *)
theory Apc_Support_Claims imports Apc_Stack Apc_Lock_Variants Apc_Hash Apc_Serializer Apc_Signal Apc_Cache_Create begin

text \<open>
  The contracts of what the cache stands on: the hash and the choice of a slot, the stack of an
  iterator, the registry of serializers, the locks of other builds, and the signal handlers.
\<close>

section \<open>Hashing\<close>

text \<open>
  C34: The hash with its loop unrolled eight times and its tail by cases is DJBX33A over signed
  bytes with the top bit set, so it is never 0, the mark of a hash not yet computed; and reading the
  hash of a string through its cache gives the same.
\<close>

theorem hash_is_djbx33a:
  "zend_inline_hash_func s = djbx33a s OR 0x8000000000000000 \<and> zend_inline_hash_func s \<noteq> 0 \<and>
   ZSTR_HASH (mk_zstr s) = zend_inline_hash_func s \<and> ZSTR_HASH \<lparr>zs_h = zend_inline_hash_func s, zs_val = s\<rparr> = zend_inline_hash_func s"
  using zend_inline_hash_func_foldl hash_nonzero by (simp add: ZSTR_HASH_def mk_zstr_def)



section \<open>The stack\<close>







section \<open>The registry of serializers\<close>

abbreviation register_in_turn :: "apc_serializer_t list \<Rightarrow> registry" where
  "register_in_turn ss \<equiv> fold (\<lambda>s reg. snd (apc_register_serializer s reg)) ss no_serializers"

lemma register_in_turn_packed: "packed (take APC_MAX_SERIALIZERS ss) (register_in_turn ss)"
proof (induction ss rule: rev_induct)
  case Nil
  then show ?case by (simp add: packed_def no_serializers_def)
next
  case (snoc s ss)
  from register_packed [OF snoc, of s] snoc show ?case by (auto simp: packed_def min_def)
qed

lemma serializer_names_packed: "serializer_names (map Some ss @ replicate n None) = (if n = 0 then None else Some (map ser_name ss))"
  by (induction ss) (cases n; simp)+

text \<open>
  C40: Serializers are found by the first registration under their name: none is overwritten or
  moved, the seventeenth and later ones are refused and change nothing. The walk of the information
  page over the names stays in the array unless all sixteen slots are taken; then it leaves it.
\<close>

theorem registry_first_come:
  "apc_find_serializer name (register_in_turn ss) = List.find (\<lambda>s. ser_name s = name) (take 16 ss) \<and>
   (fst (apc_register_serializer s (register_in_turn ss)) \<longleftrightarrow> length ss < 16) \<and>
   serializer_names (register_in_turn ss) = (if length ss < 16 then Some (map ser_name ss) else None)"
proof -
  note p = register_in_turn_packed [of ss]
  have r: "register_in_turn ss = map Some (take APC_MAX_SERIALIZERS ss) @ replicate (APC_MAX_SERIALIZERS - length (take APC_MAX_SERIALIZERS ss)) None"
    using p by (simp add: packed_def)
  have "serializer_names (register_in_turn ss) = (if length ss < 16 then Some (map ser_name ss) else None)"
    unfolding r serializer_names_packed by (auto simp: APC_MAX_SERIALIZERS_def)
  moreover have "fst (apc_register_serializer s (register_in_turn ss)) \<longleftrightarrow> length ss < 16"
    using register_packed [OF p, of s] by (auto simp: APC_MAX_SERIALIZERS_def)
  ultimately show ?thesis using find_packed [OF p, of name] by (simp add: APC_MAX_SERIALIZERS_def)
qed

section \<open>Waiting for a file lock\<close>

text \<open>
  Locking through \<open>fcntl\<close> ends exactly when some call is not interrupted by a signal; then it
  returns the answer of the first such call and has made no call after it.
\<close>

lemma fcntl_retry_ends:
  "(apc_fcntl_call answers k \<noteq> None \<longleftrightarrow> (\<exists>i \<ge> k. \<not> interrupted (answers i))) \<and>
   (\<forall>i \<ge> k. \<not> interrupted (answers i) \<longrightarrow> (\<forall>j. k \<le> j \<and> j < i \<longrightarrow> interrupted (answers j)) \<longrightarrow>
      apc_fcntl_call answers k = Some (fst (answers i), i + 1))"
proof -
  have r: "apc_fcntl_call answers k = Some (fst (answers i), i + 1)"
    if "k \<le> i" "\<not> interrupted (answers i)" "\<forall>j. k \<le> j \<and> j < i \<longrightarrow> interrupted (answers j)" for i
    using fcntl_call_ends [of answers k "i - k"] that by simp
  have e: "apc_fcntl_call answers k \<noteq> None" if "k \<le> i" "\<not> interrupted (answers i)" for i
  proof -
    let ?P = "\<lambda>i. k \<le> i \<and> \<not> interrupted (answers i)"
    have "?P (LEAST i. ?P i)" using that by (intro LeastI [of ?P i]) simp
    moreover have "\<forall>j. k \<le> j \<and> j < (LEAST i. ?P i) \<longrightarrow> interrupted (answers j)" using not_less_Least [of _ ?P] by blast
    ultimately show ?thesis using r by blast
  qed
  have d: "apc_fcntl_call answers k = None" if "\<forall>i \<ge> k. interrupted (answers i)" using fcntl_call_diverges [of k answers] that by blast
  show ?thesis
  proof (intro conjI allI impI iffI)
    assume a: "apc_fcntl_call answers k \<noteq> None"
    show "\<exists>i \<ge> k. \<not> interrupted (answers i)"
    proof (rule ccontr)
      assume "\<not> (\<exists>i \<ge> k. \<not> interrupted (answers i))"
      then have "\<forall>i \<ge> k. interrupted (answers i)" by simp
      from d [OF this] a show False by (rule notE [rotated])
    qed
  next
    assume "\<exists>i \<ge> k. \<not> interrupted (answers i)"
    then show "apc_fcntl_call answers k \<noteq> None" by (elim exE conjE) (rule e)
  next
    fix i assume "k \<le> i" "\<not> interrupted (answers i)" "\<forall>j. k \<le> j \<and> j < i \<longrightarrow> interrupted (answers j)"
    then show "apc_fcntl_call answers k = Some (fst (answers i), i + 1)" by (rule r)
  qed
qed

section \<open>The spin lock between processes\<close>

text \<open>
  C27: The spin lock excludes: whatever the processes do in whatever order, no two are inside at
  the same time, and the lock word is 1 exactly while one is.
\<close>

theorem spin_mutual_exclusion:
  assumes "spin_step\<^sup>*\<^sup>* spin_start s"
  shows "(sp_phase s p = Inside \<longrightarrow> sp_phase s q = Inside \<longrightarrow> p = q) \<and> (sp_word s = 1 \<longleftrightarrow> (\<exists>p. sp_phase s p = Inside)) \<and>
    (sp_word s = 0 \<or> sp_word s = 1)"
  using spin_inv_reachable [OF assms] by (auto simp: spin_inv_def split: if_splits)

definition one_inside :: spin_sys where
  "one_inside = \<lparr>sp_word = 1, sp_phase = (\<lambda>_. Away)(0 := Inside)\<rparr>"

theorem spin_mutual_exclusion_witness: "sp_phase one_inside 1 \<noteq> Inside"
proof -
  let ?s1 = "spin_start\<lparr>sp_phase := (sp_phase spin_start)(0 := Spinning)\<rparr>"
  have 1: "spin_step spin_start ?s1" by (rule spin_step.ask) (simp add: spin_start_def)
  have "spin_step ?s1 (?s1\<lparr>sp_word := 1, sp_phase := (sp_phase ?s1)(0 := if (0 :: 32 word) \<noteq> 0 then Spinning else Inside)\<rparr>)"
    by (rule spin_step.turn) (simp_all add: apc_lock_try_def spin_start_def)
  then have 2: "spin_step ?s1 one_inside" by (simp add: spin_start_def one_inside_def)
  have "spin_step\<^sup>*\<^sup>* spin_start one_inside" using 1 2 by (meson r_into_rtranclp rtranclp.rtrancl_into_rtrancl)
  from spin_mutual_exclusion [OF this, of 0 1] show ?thesis by (simp add: one_inside_def)
qed

text \<open>
  A schedule says which process acts next; an action that the phase of its process does not allow
  does nothing. Every move of the system is such an action.
\<close>

datatype spin_act = Ask nat | Turn nat | Leave nat

fun spin_do :: "spin_act \<Rightarrow> spin_sys \<Rightarrow> spin_sys" where
  "spin_do (Ask p) s = (if sp_phase s p = Away then s\<lparr>sp_phase := (sp_phase s)(p := Spinning)\<rparr> else s)"
| "spin_do (Turn p) s =
     (if sp_phase s p = Spinning
      then (let (failed, w) = apc_lock_try (sp_word s)
            in s\<lparr>sp_word := w, sp_phase := (sp_phase s)(p := if failed \<noteq> 0 then Spinning else Inside)\<rparr>)
      else s)"
| "spin_do (Leave p) s =
     (if sp_phase s p = Inside
      then s\<lparr>sp_word := snd (apc_lock_release (sp_word s)), sp_phase := (sp_phase s)(p := Away)\<rparr>
      else s)"

lemma spin_do_step: "spin_do a s = s \<or> spin_step s (spin_do a s)"
proof (cases a)
  case (Ask p)
  then show ?thesis using spin_step.ask [of s p] by auto
next
  case (Turn p)
  obtain f w where t: "apc_lock_try (sp_word s) = (f, w)" by fastforce
  show ?thesis using spin_step.turn [OF _ t, of p] by (auto simp: Turn t)
next
  case (Leave p)
  obtain b w where r: "apc_lock_release (sp_word s) = (b, w)" by fastforce
  show ?thesis using spin_step.leave [OF _ r, of p] by (auto simp: Leave r)
qed

primrec spin_run :: "(nat \<Rightarrow> spin_act) \<Rightarrow> nat \<Rightarrow> spin_sys" where
  "spin_run sched 0 = spin_start"
| "spin_run sched (Suc n) = spin_do (sched n) (spin_run sched n)"

lemma spin_run_inv: "spin_inv (spin_run sched n)"
proof (induction n)
  case 0
  then show ?case by (simp add: spin_inv_start)
next
  case (Suc n)
  then show ?case using spin_do_step [of "sched n" "spin_run sched n"] spin_inv_step by (metis spin_run.simps(2))
qed

definition enters :: "(nat \<Rightarrow> spin_act) \<Rightarrow> nat \<Rightarrow> nat \<Rightarrow> bool" where
  "enters sched q n \<longleftrightarrow> sp_phase (spin_run sched n) q = Spinning \<and> sp_phase (spin_run sched (Suc n)) q = Inside"

lemma spinning_stays:
  assumes "sp_phase (spin_run sched n) p = Spinning" "\<not> enters sched p n"
  shows "sp_phase (spin_run sched (Suc n)) p = Spinning"
  using assms by (cases "sched n") (auto simp: enters_def Let_def apc_lock_try_def split: if_splits)

lemma inside_stays:
  "sp_phase (spin_run sched n) q = Inside \<Longrightarrow> sched n \<noteq> Leave q \<Longrightarrow> sp_phase (spin_run sched (Suc n)) q = Inside"
  by (cases "sched n") (auto simp: Let_def case_prod_unfold)

lemma free_stays:
  assumes "sp_word (spin_run sched n) = 0" "\<forall>q. \<not> enters sched q n"
  shows "sp_word (spin_run sched (Suc n)) = 0"
proof (cases "sched n")
  case (Turn q)
  with assms(1) assms(2) [THEN spec, of q] show ?thesis by (auto simp: enters_def apc_lock_try_def)
qed (use assms(1) in \<open>auto simp: apc_lock_release_def\<close>)

text \<open>
  C28: The spin lock does not deadlock: when a process is spinning, its turns keep coming and
  whoever is inside leaves some time, then some process gets in.
\<close>

theorem spin_progress:
  assumes "sp_phase (spin_run sched i) p = Spinning" "\<forall>i. \<exists>j \<ge> i. sched j = Turn p"
    "\<forall>i q. sp_phase (spin_run sched i) q = Inside \<longrightarrow> (\<exists>j \<ge> i. sched j = Leave q)"
  shows "\<exists>j \<ge> i. \<exists>q. enters sched q j"
proof (rule ccontr)
  assume "\<not> ?thesis"
  then have nE: "\<not> enters sched q j" if "i \<le> j" for q j using that by blast
  have sp: "sp_phase (spin_run sched m) p = Spinning" if "i \<le> m" for m
    using that by (induction rule: dec_induct) (use assms(1) spinning_stays nE in auto)
  have "\<exists>m \<ge> i. sp_word (spin_run sched m) = 0"
  proof (rule ccontr)
    assume "\<not> ?thesis"
    then have w: "sp_word (spin_run sched m) \<noteq> 0" if "i \<le> m" for m using that by blast
    obtain q where q: "sp_phase (spin_run sched i) q = Inside"
      using spin_run_inv [of sched i] w [OF order_refl] by (auto simp: spin_inv_def)
    have "\<exists>j \<ge> i. sched j = Leave q" using assms(3) q by blast
    then have l: "i \<le> (LEAST j. i \<le> j \<and> sched j = Leave q) \<and> sched (LEAST j. i \<le> j \<and> sched j = Leave q) = Leave q"
      by (rule LeastI_ex [of "\<lambda>j. i \<le> j \<and> sched j = Leave q"])
    define j where "j = (LEAST j. i \<le> j \<and> sched j = Leave q)"
    have j: "i \<le> j" "sched j = Leave q" using l by (simp_all add: j_def)
    have before: "sched m \<noteq> Leave q" if "i \<le> m" "m < j" for m
      using not_less_Least [of m "\<lambda>j. i \<le> j \<and> sched j = Leave q"] that by (auto simp: j_def)
    have "m \<le> j \<longrightarrow> sp_phase (spin_run sched m) q = Inside" if "i \<le> m" for m
      using that by (induction rule: dec_induct) (use q inside_stays before in auto)
    then have "sp_phase (spin_run sched j) q = Inside" using j(1) by blast
    then have "sp_word (spin_run sched (Suc j)) = 0" using j(2) by (simp add: apc_lock_release_def)
    with w [of "Suc j"] j(1) show False by simp
  qed
  then obtain m where m: "i \<le> m" "sp_word (spin_run sched m) = 0" by blast
  obtain j where j: "m \<le> j" "sched j = Turn p" using assms(2) by blast
  have free: "sp_word (spin_run sched k) = 0" if "m \<le> k" for k
    using that by (induction rule: dec_induct) (use m free_stays nE in auto)
  have "enters sched p j"
    using free [OF j(1)] sp [of j] m(1) j by (simp add: enters_def apc_lock_try_def)
  with nE [of j p] m(1) j(1) show False by simp
qed

definition round_robin :: "nat \<Rightarrow> spin_act" where
  "round_robin n = (if n mod 3 = 0 then Ask 0 else if n mod 3 = 1 then Turn 0 else Leave 0)"

theorem spin_progress_witness: "\<exists>j \<ge> 1. \<exists>q. enters round_robin q j"
proof (rule spin_progress [of round_robin 1 0])
  show "sp_phase (spin_run round_robin 1) 0 = Spinning" by (simp add: round_robin_def spin_start_def)
  show "\<forall>i. \<exists>j \<ge> i. round_robin j = Turn 0"
  proof
    fix i
    have "round_robin (3 * i + 1) = Turn 0" by (simp add: round_robin_def)
    then show "\<exists>j \<ge> i. round_robin j = Turn 0" by (intro exI [of _ "3 * i + 1"]) simp
  qed
  have away: "sp_phase (spin_run round_robin n) q = Away" if "q \<noteq> 0" for n q
    by (induction n) (use that in \<open>auto simp: round_robin_def spin_start_def apc_lock_try_def\<close>)
  show "\<forall>i q. sp_phase (spin_run round_robin i) q = Inside \<longrightarrow> (\<exists>j \<ge> i. round_robin j = Leave q)"
  proof (intro allI impI)
    fix i q assume "sp_phase (spin_run round_robin i) q = Inside"
    then have "q = 0" using away [of q i] by (cases "q = 0") auto
    moreover have "(3 * i + 2) mod 3 = (2::nat)" by presburger
    then have "round_robin (3 * i + 2) = Leave 0" unfolding round_robin_def by simp
    ultimately show "\<exists>j \<ge> i. round_robin j = Leave q" by (intro exI [of _ "3 * i + 2"]) simp
  qed
qed

section \<open>Signals\<close>

text \<open>What a process does about a core signal, given what it did before.\<close>

definition chain_events :: "sigaction_t \<Rightarrow> nat \<Rightarrow> sig_event list" where
  "chain_events sa signo =
     (if sa_handler sa \<in> {ApcCoreUnmap, SIG_ERR, SIG_DFL, SIG_IGN} then []
      else [(if and (sa_flags sa) SA_SIGINFO = SA_SIGINFO then CallSiginfo else CallPlain) (sa_handler sa) signo]) @ [Kill signo]"

text \<open>
  C33: With \<open>apc.coredump_unmap\<close> every core signal that can be caught gets the extension's handler;
  that handler unmaps the segments if the process has the cache, then calls the handler that was
  there before exactly once, with the arguments its flags announce (or none when there was only a
  default), and then sends the signal again.
\<close>

theorem core_signal_chain:
  assumes "ss_prev st = []" "signo \<in> set core_signals" "ss_actions st signo = Some sa"
  shows "(\<exists>sa'. ss_actions (apc_set_signals False (\<lambda>_. True) True st) signo = Some sa' \<and> sa_handler sa' = ApcCoreUnmap) \<and>
    (if cs_null (snd w)
     then apc_core_unmap munmap_result signo (apc_set_signals False (\<lambda>_. True) True st) w os = Some (chain_events sa signo, w, os)
     else apc_core_unmap munmap_result signo (apc_set_signals False (\<lambda>_. True) True st) w os =
       map_option (\<lambda>(sma, os1). (chain_events sa signo, (sma, snd w), os1)) (apc_sma_detach munmap_result (fst w) os))"
proof -
  have pos: "0 < signo" using assms(2) by (auto simp: core_signals_def)
  have p: "prev_of signo (register_all ApcCoreUnmap core_signals st) = remembers signo ApcCoreUnmap st"
    using register_all_prev [of signo ApcCoreUnmap core_signals st] assms(1,2) by simp
  have r: "apc_rehandle_signal signo (register_all ApcCoreUnmap core_signals st) @ [Kill signo] = chain_events sa signo"
    unfolding rehandle_prev [OF pos] p using assms(3) by (simp add: remembers_def chain_events_def)
  show ?thesis
    unfolding set_signals_register [OF assms(1)]
    using register_all_installs [OF assms(2,3), of ApcCoreUnmap] r
    by (cases "apc_sma_detach munmap_result (fst w) os") (auto simp: apc_core_unmap_def)
qed

definition plain_signals :: signal_state where
  "plain_signals = \<lparr>ss_prev = [], ss_actions = (\<lambda>_. None)(11 \<mapsto> \<lparr>sa_handler = Handler 7, sa_flags = SA_SIGINFO, sa_mask = {}\<rparr>), ss_warnings = []\<rparr>"

theorem core_signal_chain_witness:
  "\<forall>os. apc_core_unmap (\<lambda>_. 0) 11 (apc_set_signals False (\<lambda>_. True) True plain_signals) tiny_start os =
     Some ([CallSiginfo (Handler 7) 11, Kill 11], tiny_start, os)"
proof
  fix os
  have a: "ss_prev plain_signals = []" "11 \<in> set core_signals"
    "ss_actions plain_signals 11 = Some \<lparr>sa_handler = Handler 7, sa_flags = SA_SIGINFO, sa_mask = {}\<rparr>"
    by (simp_all add: plain_signals_def core_signals_def)
  have "cs_null (snd tiny_start)" by (simp add: tiny_start_def)
  with core_signal_chain [OF a, of tiny_start "\<lambda>_. 0" os]
  show "apc_core_unmap (\<lambda>_. 0) 11 (apc_set_signals False (\<lambda>_. True) True plain_signals) tiny_start os =
     Some ([CallSiginfo (Handler 7) 11, Kill 11], tiny_start, os)" by (simp add: chain_events_def)
qed

end
