(* ===== verification/Apc_Php_Claims.thy ===== *)
theory Apc_Php_Claims imports Apc_Php Apc_Cache_Claims begin

text \<open>
  The functions a PHP program calls, over the contracts of the cache: storing and fetching in
  different requests, counting, \<open>apcu_entry\<close>, and the startup of the module.
\<close>

section \<open>Types of stored values\<close>

text \<open>What a counting operation may have done to the map.\<close>

definition types_kept :: "string \<Rightarrow> (string \<Rightarrow> apc_cache_entry_t option) \<Rightarrow> (string \<Rightarrow> apc_cache_entry_t option) \<Rightarrow> bool" where
  "types_kept k m m' \<longleftrightarrow> (\<forall>v e'. m' v = Some e' \<longrightarrow>
     (\<exists>e. m v = Some e \<and> Z_TYPE (ce_val e') = Z_TYPE (ce_val e)) \<or> v = k \<and> (\<exists>i. ce_val e' = IS_LONG i))"

lemma types_kept_refl [simp]: "types_kept k m m"
  by (simp add: types_kept_def)







section \<open>apcu_entry\<close>


lemma enter_leave_simps [simp]:
  "cch (enter_entry w) = cch w" "fst (enter_entry w) = fst w" "cs_null (snd (enter_entry w)) = cs_null (snd w)"
  "cs_shm (snd (enter_entry w)) = cs_shm (snd w)" "g_entry_level (glb (enter_entry w)) = Suc (g_entry_level (glb w))"
  "g_depth (glb (enter_entry w)) = g_depth (glb w)"
  "cch (leave_entry w) = cch w" "fst (leave_entry w) = fst w" "cs_null (snd (leave_entry w)) = cs_null (snd w)"
  "cs_shm (snd (leave_entry w)) = cs_shm (snd w)" "g_entry_level (glb (leave_entry w)) = g_entry_level (glb w) - 1"
  "g_depth (glb (leave_entry w)) = g_depth (glb w)"
  by (simp_all add: enter_entry_def leave_entry_def upd_g_def)

lemma cache_inv_enter [simp]: "cache_inv X (enter_entry w) = cache_inv X w" "cache_inv X (leave_entry w) = cache_inv X w"
  by (rule cache_inv_cong; simp)+












section \<open>Storing in one request, fetching in another\<close>

lemma pick_serializer_ok:
  assumes "cache_ready (ps_w ps)"
  shows "cache_ready (ps_w (pick_serializer ps))" "lock_works (ps_w (pick_serializer ps)) = lock_works (ps_w ps)"
    "glb (ps_w (pick_serializer ps)) = glb (ps_w ps)" "ps_ev (pick_serializer ps) = ps_ev ps"
    "cmap (cch (ps_w (pick_serializer ps))) = cmap (cch (ps_w ps))"
proof -
  let ?w = "ps_w ps"
  have "ps_w (pick_serializer ps) = ?w \<or> (\<exists>s. ps_w (pick_serializer ps) = upd_cache (\<lambda>c. c\<lparr>c_serializer := s\<rparr>) ?w)"
    by (auto simp: pick_serializer_def apc_cache_serializer_def set_w_def split: option.split)
  then obtain w' where w: "ps_w (pick_serializer ps) = w'" "w' = ?w \<or> (\<exists>s. w' = upd_cache (\<lambda>c. c\<lparr>c_serializer := s\<rparr>) ?w)" by blast
  from w(2) have c: "fst w' = fst ?w" "c_slots (cch w') = c_slots (cch ?w)" "c_nslots (cch w') = c_nslots (cch ?w)"
    "c_gc (cch w') = c_gc (cch ?w)" "c_shmaddr (cch w') = c_shmaddr (cch ?w)" "c_nentries (cch w') = c_nentries (cch ?w)"
    "cs_null (snd w') = cs_null (snd ?w)" "c_lock (cch w') = c_lock (cch ?w)" "glb w' = glb ?w"
    by (auto simp: upd_cache_def)
  show "cache_ready (ps_w (pick_serializer ps))"
    using assms cache_inv_cong [OF c(1-6), of "{}"] c(7-9) by (simp add: w(1) cache_ready_def lock_ready_def)
  show "lock_works (ps_w (pick_serializer ps)) = lock_works ?w" "glb (ps_w (pick_serializer ps)) = glb ?w"
    using c(8,9) by (simp_all add: w(1) lock_works_def)
  show "cmap (cch (ps_w (pick_serializer ps))) = cmap (cch ?w)" unfolding w(1) by (rule cmap_cong [OF c(2,3)])
  show "ps_ev (pick_serializer ps) = ps_ev ps"
    by (simp add: pick_serializer_def set_w_def split: option.split)
qed

lemma php_fetch_time:
  assumes "cache_ready w"
  shows "cache_ready (upd_g (snd (apc_time ev (glb w))) w)" "lock_works (upd_g (snd (apc_time ev (glb w))) w) = lock_works w"
proof -
  let ?w = "upd_g (snd (apc_time ev (glb w))) w"
  have sc: "same_config ev w ?w" by (rule same_config_time)
  have "cache_inv {} ?w" using cache_inv_cong [of ?w w "{}"] cache_readyD(2) [OF assms] by simp
  then show "cache_ready ?w" by (rule cache_ready_config [OF assms _ sc])
  show "lock_works ?w = lock_works w" by (rule lock_works_config [OF sc])
qed

text \<open>
  C18: What one request stores with \<open>apcu_store\<close> another one, with its own clock, its own strings and
  its own state, gets from \<open>apcu_fetch\<close> as long as the time to live has not passed: \<open>$success\<close> and a
  value with the same structure, or what the unserializer makes of the serialized string.
\<close>

theorem apcu_store_fetch:
  assumes "cache_ready (ps_w ps)" "lock_works (ps_w ps)" "hp_str (ev_rq (ps_ev ps)) a = Some k" "zs_ok k"
    "storable (ps_ev ps) (c_serializer (cch (ps_w (pick_serializer ps))))
       (apc_cache_init_entry k v (ucast ttl) (fst (apc_time (ps_ev ps) (glb (ps_w ps)))))"
    "apcu_store api (IS_STRING a) (Some v) ttl ps = Some (Return ITrue, ps1)"
    "ps_w ps2 = ps_w ps1" "hp_str (ev_rq (ps_ev ps2)) b = Some k"
    "\<not> ((scast (ucast ttl :: 32 word) :: i64) \<noteq> 0 \<and>
       i64_less (fst (apc_time (ps_ev ps) (glb (ps_w ps))) + scast (ucast ttl :: 32 word)) (fst (apc_time (ps_ev ps2) (glb (ps_w ps2)))))"
  shows "\<exists>r ok ps3. apcu_fetch api (IS_STRING b) ps2 = Some (r, ok, ps3) \<and> cache_ready (ps_w ps3) \<and>
    (\<exists>v'. (ok \<longrightarrow> r = Return (IZval v')) \<and>
      (ok \<and> same_value (ev_rq (ps_ev ps)) v (ev_rq (ps_ev ps3)) v' \<or>
       (\<exists>buf. persist_serialize (php_apc_serializer (ev_php_var_serialize (ps_ev ps))) (c_serializer (cch (ps_w (pick_serializer ps))))
            (ev_rq (ps_ev ps)) v = Some buf \<and>
          (ok, v', ev_rq (ps_ev ps3)) = read_back (php_apc_unserializer (ev_php_var_unserialize (ps_ev ps2)))
            (c_serializer (cch (ps_w (pick_serializer ps)))) (ev_rq (ps_ev ps2)) buf)))"
proof -
  let ?p = "pick_serializer ps" and ?ev = "ps_ev ps" and ?ev2 = "ps_ev ps2"
  note pk = pick_serializer_ok [OF assms(1)]
  let ?t = "fst (apc_time ?ev (glb (ps_w ps)))" and ?t2 = "fst (apc_time ?ev2 (glb (ps_w ps2)))"
  obtain w1 where st: "apc_cache_store ?ev k v (ucast ttl) False (ps_w ?p) = Some (True, w1)" "ps_w ps1 = w1"
    using assms(3,6) pk(4)
    by (auto simp: apcu_store_def apc_store_helper_def return_bool_def set_w_def Let_def split: Option.bind_splits if_splits)
  have tp: "fst (apc_time ?ev (glb (ps_w ?p))) = ?t" using pk(3) by simp
  obtain e where e: "cmap (cch w1) (zs_val k) = Some e" "fresh_entry k v (ucast ttl) ?t e" "cache_ready w1" "same_setup ?ev (ps_w ?p) w1"
    "stored_value ?ev (c_serializer (cch (ps_w ?p))) v (cs_shm (snd w1)) (ce_val e)"
    by (rule stored_entry [OF pk(1) assms(4) tp assms(5) st(1)])
  let ?w2 = "upd_g (snd (apc_time ?ev2 (glb w1))) w1"
  have r2: "cache_ready ?w2" "lock_works ?w2"
    using php_fetch_time [OF e(3), of ?ev2] assms(2) pk(2) same_setupD(3) [OF e(4)] by simp_all
  have lv: "live ?t2 (cmap (cch ?w2)) (zs_val k) = Some e"
    using e(1) fresh_expired [OF e(2)] assms(9) by (simp add: live_Some)
  have srz: "c_serializer (cch ?w2) = c_serializer (cch (ps_w ?p))" using same_setupD(7) [OF e(4)] by simp
  obtain ret v' rq w3 where f: "apc_cache_fetch ?ev2 k ?t2 ?w2 = Some (ret, Some (v', rq), w3)" "cache_ready w3"
    "ret \<and> same_value (ev_rq ?ev) v rq v' \<or>
     (\<exists>buf. persist_serialize (php_apc_serializer (ev_php_var_serialize ?ev)) (c_serializer (cch (ps_w ?p))) (ev_rq ?ev) v = Some buf \<and>
        (ret, v', rq) = read_back (php_apc_unserializer (ev_php_var_unserialize ?ev2)) (c_serializer (cch (ps_w ?p))) (ev_rq ?ev2) buf)"
    using fetch_stored [OF r2 assms(4) lv, of ?ev v "ucast ttl" ?t ?ev2] assms(5) e(5) unfolding srz by auto
  have "\<exists>ps3. apcu_fetch api (IS_STRING b) ps2 = Some (if ret then Return (IZval v') else Return IFalse, ret, ps3) \<and>
      ps_w ps3 = w3 \<and> ev_rq (ps_ev ps3) = rq"
    using assms(7,8) st(2) f(1)
    by (auto simp: apcu_fetch_def php_time_def key_to_string_def php_fetch_def set_w_def set_rq_def case_prod_unfold Let_def)
  then obtain ps3 where "apcu_fetch api (IS_STRING b) ps2 = Some (if ret then Return (IZval v') else Return IFalse, ret, ps3)"
    "ps_w ps3 = w3" "ev_rq (ps_ev ps3) = rq" by blast
  then show ?thesis using f(2,3) by (intro exI [of _ "if ret then Return (IZval v') else Return IFalse"] exI [of _ ret] exI [of _ ps3]) auto
qed

definition tiny_settings :: zend_apcu_globals where
  "tiny_settings = \<lparr>ag_enabled = True, ag_shm_segments = 2, ag_shm_size = 4096, ag_entries_hint = 1, ag_gc_ttl = 3600, ag_ttl = 0,
     ag_smart = 0, ag_mmap_file_mask = Some ''/tmp/apc.XXXXXX'', ag_initialized = False, ag_enable_cli = True,
     ag_slam_defense = False, ag_preload_path = None, ag_coredump_unmap = False, ag_serializer_name = None\<rparr>"

definition tiny_api :: zend_api where
  "tiny_api = \<lparr>za_to_string = (\<lambda>_ _. None), za_numeric_str = (\<lambda>_. None), za_stale = 0\<rparr>"

text \<open>A request whose store holds the string \<open>k\<close> at an address.\<close>

definition tiny_request :: "nat \<Rightarrow> world \<Rightarrow> php_state" where
  "tiny_request a w = \<lparr>ps_g = tiny_settings, ps_registry = no_serializers, ps_ev = tiny_in [(a, CStr tiny_key)], ps_w = w,
     ps_iterators = (\<lambda>_. None), ps_signals = \<lparr>ss_prev = [], ss_actions = (\<lambda>_. None), ss_warnings = []\<rparr>, ps_warnings = []\<rparr>"

lemma tiny_request_simps [simp]:
  "ps_w (tiny_request a w) = w" "ps_ev (tiny_request a w) = tiny_in [(a, CStr tiny_key)]"
  "pick_serializer (tiny_request a w) = tiny_request a w" "hp_str (ev_rq (ps_ev (tiny_request a w))) a = Some tiny_key"
  by (simp_all add: tiny_request_def pick_serializer_def tiny_settings_def hp_str_def hp_get_def)

lemma tiny_heap: "heap_ok [(a, CStr tiny_key)]"
  by (simp add: heap_ok_def hp_get_def)

theorem apcu_store_fetch_witness:
  "\<exists>ps1 v' ps3. apcu_store tiny_api (IS_STRING 1) (Some (IS_LONG 42)) 0 (tiny_request 1 tiny_world) = Some (Return ITrue, ps1) \<and>
     apcu_fetch tiny_api (IS_STRING 9) (tiny_request 9 (ps_w ps1)) = Some (Return (IZval v'), True, ps3) \<and>
     same_value [(1, CStr tiny_key)] (IS_LONG 42) (ev_rq (ps_ev ps3)) v'"
proof -
  let ?ps = "tiny_request 1 tiny_world"
  obtain w where w: "apc_cache_store (tiny_in [(1, CStr tiny_key)]) tiny_key (IS_LONG 42) 0 False tiny_world = Some (True, w)"
    by (rule tiny_store_in [OF tiny_heap, where i = 42 and ttl = 0 and excl = False])
  define ps1 where "ps1 = set_w w ?ps"
  have s: "apcu_store tiny_api (IS_STRING 1) (Some (IS_LONG 42)) 0 ?ps = Some (Return ITrue, ps1)"
    using w tiny_request_simps(4) [of 1 tiny_world] by (simp add: apcu_store_def apc_store_helper_def return_bool_def ps1_def)
  let ?ps2 = "tiny_request 9 (ps_w ps1)"
  have st: "storable (ps_ev ?ps) (c_serializer (cch (ps_w (pick_serializer ?ps))))
      (apc_cache_init_entry tiny_key (IS_LONG 42) (ucast (0 :: i64)) (fst (apc_time (ps_ev ?ps) (glb (ps_w ?ps)))))"
    by (rule storable_simple) (simp_all add: apc_cache_init_entry_def tiny_heap ZSTR_LEN_def SIZE_LIMIT_def)
  have r: "cache_ready (ps_w ?ps)" "lock_works (ps_w ?ps)" by (simp_all add: tiny_ready tiny_lock_works)
  have ns: "persist_serialize (php_apc_serializer (ev_php_var_serialize (ps_ev ?ps))) (c_serializer (cch (ps_w (pick_serializer ?ps))))
      (ev_rq (ps_ev ?ps)) (IS_LONG 42) = None"
    by (simp add: persist_serialize_def php_apc_serializer_def tiny_created tiny_cache_def tiny_in_def tiny_ev_def)
  have "\<exists>r ok ps3. apcu_fetch tiny_api (IS_STRING 9) ?ps2 = Some (r, ok, ps3) \<and> cache_ready (ps_w ps3) \<and>
    (\<exists>v'. (ok \<longrightarrow> r = Return (IZval v')) \<and>
      (ok \<and> same_value (ev_rq (ps_ev ?ps)) (IS_LONG 42) (ev_rq (ps_ev ps3)) v' \<or>
       (\<exists>buf. persist_serialize (php_apc_serializer (ev_php_var_serialize (ps_ev ?ps))) (c_serializer (cch (ps_w (pick_serializer ?ps))))
            (ev_rq (ps_ev ?ps)) (IS_LONG 42) = Some buf \<and>
          (ok, v', ev_rq (ps_ev ps3)) = read_back (php_apc_unserializer (ev_php_var_unserialize (ps_ev ?ps2)))
            (c_serializer (cch (ps_w (pick_serializer ?ps)))) (ev_rq (ps_ev ?ps2)) buf)))"
    by (rule apcu_store_fetch [OF r _ _ st s]) (simp_all add: hp_str_def hp_get_def)
  then show ?thesis using s unfolding ns by auto
qed

section \<open>Startup\<close>









end
